(* ===== verification/Prelude.thy ===== *)
theory Prelude
  imports Complex_Main "HOL-Library.Word"
begin

unbundle bit_operations_syntax

text \<open>
  Shared vocabulary of the development: the machine integer types of the code, byte strings,
  the errors the code can raise, outcomes (a value or an error), actions (a state change with an
  outcome that keeps the state reached when an error was raised), and the theorem collections and
  generic lemmas the component theories use.
\<close>

section \<open>Theorem collections\<close>

named_theorems outcome_simps "unfolding of the outcome and action combinators"
named_theorems codec_laws "round-trip and length facts of the wire codecs"
named_theorems inv_intros "preservation of component invariants, one per operation"
named_theorems keeps_intros "what a process keeps, one rule per combinator or operation"

section \<open>Types of the code\<close>

text \<open>
  Fixed-width unsigned integers are words. A \<open>std::string\<close> or \<open>std::string_view\<close> is the list of
  its bytes; string literals of the code are written with \<open>ascii\<close>. A \<open>size_t\<close> that counts bytes
  of an object in memory is a \<open>nat\<close>; where a conversion can wrap, the word is written out.
\<close>

type_synonym u8 = "8 word"
type_synonym u16 = "16 word"
type_synonym u32 = "32 word"
type_synonym u64 = "64 word"
type_synonym bytes = "u8 list"

definition ascii :: "string \<Rightarrow> bytes" where
  "ascii s = map (\<lambda>c. word_of_nat (of_char c)) s"

section \<open>Outcomes: errors as values\<close>

text \<open>
  One constructor per exception class the code throws, an assertion that fails (the build does not
  define \<open>NDEBUG\<close>), and behaviour the C++ standard leaves undefined, which the model makes visible
  as an error of its own instead of giving it a value.
\<close>

datatype error =
    Runtime_Error string
  | Out_Of_Range string
  | Invalid_Argument string
  | Unix_Error string
  | Bad_Optional_Access
  | Assertion_Failed string
  | Undefined_Behaviour string

type_synonym 'a result = "error + 'a"

definition bind_result :: "'a result \<Rightarrow> ('a \<Rightarrow> 'b result) \<Rightarrow> 'b result" where
  [outcome_simps]: "bind_result r f = (case r of Inl e \<Rightarrow> Inl e | Inr x \<Rightarrow> f x)"

text \<open>
  An action runs on a state and returns an outcome together with the state reached: an exception
  in C++ does not undo the assignments made before it was thrown.
\<close>

type_synonym ('s, 'a) action = "'s \<Rightarrow> 'a result \<times> 's"

definition return_action :: "'a \<Rightarrow> ('s, 'a) action" where
  [outcome_simps]: "return_action x = (\<lambda>s. (Inr x, s))"

definition throw_action :: "error \<Rightarrow> ('s, 'a) action" where
  [outcome_simps]: "throw_action e = (\<lambda>s. (Inl e, s))"

definition bind_action :: "('s, 'a) action \<Rightarrow> ('a \<Rightarrow> ('s, 'b) action) \<Rightarrow> ('s, 'b) action" where
  [outcome_simps]: "bind_action m f =
     (\<lambda>s. case m s of (Inl e, t) \<Rightarrow> (Inl e, t) | (Inr x, t) \<Rightarrow> f x t)"

lemma bind_result_simps [simp]:
  "bind_result (Inl e) f = Inl e"
  "bind_result (Inr x) f = f x"
  by (simp_all add: bind_result_def)

lemma bind_result_Inr_iff:
  "bind_result r f = Inr y \<longleftrightarrow> (\<exists>x. r = Inr x \<and> f x = Inr y)"
  by (cases r) auto

lemma bind_action_simps [simp]:
  "bind_action (return_action x) f = f x"
  "bind_action (throw_action e) f = throw_action e"
  by (simp_all add: bind_action_def return_action_def throw_action_def)

lemma bind_action_assoc:
  "bind_action (bind_action m f) g = bind_action m (\<lambda>x. bind_action (f x) g)"
  by (auto simp: bind_action_def fun_eq_iff split: prod.splits sum.splits)

lemma bind_action_Inr_iff:
  "bind_action m f s = (Inr y, u) \<longleftrightarrow> (\<exists>x t. m s = (Inr x, t) \<and> f x t = (Inr y, u))"
  by (auto simp: bind_action_def split: prod.splits sum.splits)

lemma bind_action_step:
  "m s = (Inr x, t) \<Longrightarrow> bind_action m f s = f x t"
  by (simp add: bind_action_def)

lemma bind_action_stop:
  "m s = (Inl e, t) \<Longrightarrow> bind_action m f s = (Inl e, t)"
  by (simp add: bind_action_def)

text \<open>
  A process is an action that may never return, which is the value None.
\<close>

type_synonym ('s, 'a) process = "'s \<Rightarrow> ('a result \<times> 's) option"

definition total :: "('s, 'a) action \<Rightarrow> ('s, 'a) process" where
  [outcome_simps]: "total m = (\<lambda>s. Some (m s))"

definition bind_process :: "('s, 'a) process \<Rightarrow> ('a \<Rightarrow> ('s, 'b) process) \<Rightarrow> ('s, 'b) process" where
  [outcome_simps]: "bind_process m f =
     (\<lambda>s. case m s of
        None \<Rightarrow> None
      | Some (Inl e, t) \<Rightarrow> Some (Inl e, t)
      | Some (Inr x, t) \<Rightarrow> f x t)"

lemma bind_process_step:
  "m s = Some (Inr x, t) \<Longrightarrow> bind_process m f s = f x t"
  by (simp add: bind_process_def)

lemma bind_process_stop:
  "m s = Some (Inl e, t) \<Longrightarrow> bind_process m f s = Some (Inl e, t)"
  by (simp add: bind_process_def)

lemma bind_process_assoc:
  "bind_process (bind_process m f) g = bind_process m (\<lambda>x. bind_process (f x) g)"
  by (auto simp: bind_process_def fun_eq_iff split: option.split prod.split sum.split)

lemma bind_process_return [simp]: "bind_process (total (return_action x)) f = f x"
  by (simp add: bind_process_def total_def return_action_def)

lemma bind_process_cases:
  assumes "bind_process m f s = Some (r, u)"
  obtains e where "m s = Some (Inl e, u)" and "r = Inl e"
  | x t where "m s = Some (Inr x, t)" and "f x t = Some (r, u)"
  using assms by (auto simp: bind_process_def split: option.splits prod.splits sum.splits)

lemma bind_process_Inr_iff:
  "bind_process m f s = Some (Inr y, u) \<longleftrightarrow> (\<exists>x t. m s = Some (Inr x, t) \<and> f x t = Some (Inr y, u))"
  by (auto simp: bind_process_def split: option.splits prod.splits sum.splits)

lemma bind_process_eqI:
  assumes "m s = m' s" and "\<And>x t. m s = Some (Inr x, t) \<Longrightarrow> f x t = f' x t"
  shows "bind_process m f s = bind_process m' f' s"
  using assms by (auto simp: bind_process_def split: option.split prod.split sum.split)

lemma bind_process_total:
  "m s = (Inr x, t) \<Longrightarrow> bind_process (total m) f s = f x t"
  "m s = (Inl e, t) \<Longrightarrow> bind_process (total m) f s = Some (Inl e, t)"
  by (simp_all add: bind_process_def total_def)

definition succeeds :: "'a result \<Rightarrow> bool" where
  "succeeds r = (case r of Inl e \<Rightarrow> False | Inr x \<Rightarrow> True)"

lemma succeeds_simps [simp]:
  "\<not> succeeds (Inl e)"
  "succeeds (Inr x)"
  by (simp_all add: succeeds_def)

lemma succeedsE: "succeeds r \<Longrightarrow> (\<And>x. r = Inr x \<Longrightarrow> P) \<Longrightarrow> P"
  by (cases r) auto

section \<open>What processes keep\<close>

text \<open>Every state the process can reach from one with the property has it.\<close>

definition keeps :: "('s \<Rightarrow> bool) \<Rightarrow> ('s, 'a) process \<Rightarrow> bool" where
  "keeps P m \<longleftrightarrow> (\<forall>s r t. P s \<longrightarrow> m s = Some (r, t) \<longrightarrow> P t)"

lemma keepsD: "keeps P m \<Longrightarrow> m s = Some (r, t) \<Longrightarrow> P s \<Longrightarrow> P t"
  by (auto simp: keeps_def)

lemma keeps_bind [keeps_intros]:
  assumes "keeps P m" and "\<And>x. keeps P (f x)"
  shows "keeps P (bind_process m f)"
  unfolding keeps_def
proof (intro allI impI)
  fix s r t
  assume P: "P s" and run: "bind_process m f s = Some (r, t)"
  show "P t" using run
  proof (cases rule: bind_process_cases)
  qed (use P keepsD [OF assms(1)] keepsD [OF assms(2)] in blast)+
qed

lemma keeps_total [keeps_intros]: "(\<And>s. P s \<Longrightarrow> P (snd (m s))) \<Longrightarrow> keeps P (total m)"
  by (fastforce simp: keeps_def total_def)

lemma keeps_if [keeps_intros]: "keeps P m \<Longrightarrow> keeps P m' \<Longrightarrow> keeps P (if b then m else m')"
  by simp

lemma keeps_cond [keeps_intros]:
  assumes "keeps P m" and "keeps P m'"
  shows "keeps P (\<lambda>s. if b s then m s else m' s)"
  unfolding keeps_def
proof (intro allI impI)
  fix s r t
  assume "P s" "(if b s then m s else m' s) = Some (r, t)"
  then show "P t" using keepsD [OF assms(1)] keepsD [OF assms(2)] by (cases "b s") auto
qed

lemma keeps_result [keeps_intros]: "keeps P (\<lambda>s. Some (r, s))"
  by (simp add: keeps_def)

lemma total_bind_action: "total (bind_action m f) = bind_process (total m) (\<lambda>x. total (f x))"
  by (simp add: fun_eq_iff total_def bind_action_def bind_process_def split: prod.split sum.split)

lemma keeps_bind_action:
  "keeps P (total m) \<Longrightarrow> (\<And>x. keeps P (total (f x))) \<Longrightarrow> keeps P (total (bind_action m f))"
  unfolding total_bind_action by (rule keeps_bind)

section \<open>Generic lemmas\<close>

lemma nth_in_range_update [simp]:
  "i < length xs \<Longrightarrow> (xs[i := x]) ! i = x"
  by simp

lemma sum_list_map_concat_length:
  "length (concat xss) = sum_list (map length xss)"
  by (simp add: length_concat)

lemma take_append_take_drop:
  "take m xs @ take n (drop m xs) = take (m + n) xs"
  by (simp add: take_add)

lemma unat_add_no_wrap:
  "unat (a :: 'a::len word) + unat b < 2 ^ LENGTH('a) \<Longrightarrow> unat (a + b) = unat a + unat b"
  by (simp add: unat_word_ariths)

lemma unat_of_nat_small: "n < 2 ^ LENGTH('a) \<Longrightarrow> unat (word_of_nat n :: 'a::len word) = n"
  by (simp add: unsigned_of_nat take_bit_eq_mod)

lemma unat_suc_no_wrap:
  "a < (b :: 'a::len word) \<Longrightarrow> unat (a + 1) = unat a + 1"
proof -
  assume "a < b"
  then have "unat a < unat b" by (simp add: word_less_nat_alt)
  moreover have "unat b < 2 ^ LENGTH('a)" by (rule unsigned_less)
  ultimately have "Suc (unat a) < 2 ^ LENGTH('a)" by linarith
  then show ?thesis by (simp add: unat_word_ariths)
qed

lemma not_last_id: "(k :: u32) \<noteq> - 1 \<Longrightarrow> unat k + 1 < 2 ^ 32"
proof -
  assume "k \<noteq> - 1"
  then have "unat k \<noteq> unat (- 1 :: u32)" by (simp add: word_unat_eq_iff)
  moreover have "unat k < 2 ^ 32" using unsigned_less [of k] by simp
  ultimately show ?thesis by (simp add: unsigned_minus_1_eq_mask mask_eq_exp_minus_1)
qed

lemma sum_list_replicate_upd:
  "i < length xs \<Longrightarrow> sum_list (xs[i := (y::nat)]) + xs ! i = sum_list xs + y"
  by (induction xs arbitrary: i) (auto simp: nth_Cons split: nat.splits)

section \<open>Copying into a buffer\<close>

text \<open>\<open>blit buf off xs\<close> is the buffer after \<open>memcpy(buf + off, xs, length xs)\<close>, for data that fits.\<close>

definition blit :: "'a list \<Rightarrow> nat \<Rightarrow> 'a list \<Rightarrow> 'a list" where
  "blit buf off xs = take off buf @ xs @ drop (off + length xs) buf"

lemma length_blit: "off + length xs \<le> length buf \<Longrightarrow> length (blit buf off xs) = length buf"
  by (simp add: blit_def)

lemma blit_Nil [simp]: "blit buf off [] = buf"
  by (simp add: blit_def)

lemma blit_all: "length xs = length buf \<Longrightarrow> blit buf 0 xs = xs"
  by (simp add: blit_def)

lemma blit_Cons:
  "off < length buf \<Longrightarrow> blit buf off (x # xs) = blit (buf[off := x]) (Suc off) xs"
  by (simp add: blit_def upd_conv_take_nth_drop take_Suc_conv_app_nth add.commute)

lemma blit_append:
  assumes "off + length xs + length ys \<le> length buf"
  shows "blit (blit buf off xs) (off + length xs) ys = blit buf off (xs @ ys)"
  using assms by (simp add: blit_def ac_simps)

lemma take_blit: "off + length xs \<le> length buf \<Longrightarrow> take off (blit buf off xs) = take off buf"
  by (simp add: blit_def)

end
