(* ===== verification/Serialization.thy ===== *)
theory Serialization
  imports Prelude
begin

text \<open>
  The model of \<open>src/util/serialization.hh\<close> and \<open>serialization.cc\<close>: conversion between host
  and network byte order, serialisation of integers, bit ranges, and the \<open>WireParser\<close> that reads
  integers and strings off the front of a string view. The locale \<open>wire_codec\<close> is the contract
  between these routines and the message formats built on them.
\<close>

section \<open>Memory images of integers\<close>

fun le_split :: "nat \<Rightarrow> nat \<Rightarrow> bytes" where
  "le_split 0 v = []"
| "le_split (Suc n) v = word_of_nat v # le_split n (v div 256)"

fun le_join :: "bytes \<Rightarrow> nat" where
  "le_join [] = 0"
| "le_join (b # bs) = unat b + 256 * le_join bs"

text \<open>\<open>sizeof(T)\<close> for an unsigned integer type of the code, given by a value of that type.\<close>

definition sizeof :: "'a::len word \<Rightarrow> nat" where
  "sizeof w = LENGTH('a) div 8"

text \<open>The bytes of an object in memory on a host of the given endianness, and back.\<close>

definition mem_bytes :: "bool \<Rightarrow> 'a::len word \<Rightarrow> bytes" where
  "mem_bytes little w =
     (let bs = le_split (sizeof w) (unat w) in if little then bs else rev bs)"

definition mem_word :: "bool \<Rightarrow> bytes \<Rightarrow> 'a::len word" where
  "mem_word little bs = word_of_nat (le_join (if little then bs else rev bs))"

text \<open>
  \<open>htobe16\<close>, \<open>htobe32\<close>, \<open>htobe64\<close> and their inverses: a byte swap on a little-endian host, the
  identity on a big-endian one; \<open>hton(uint8_t)\<close> is the identity, which a swap of one byte is.
\<close>

definition byte_swap :: "'a::len word \<Rightarrow> 'a word" where
  "byte_swap w = word_of_nat (le_join (rev (le_split (sizeof w) (unat w))))"

definition ntoh :: "bool \<Rightarrow> 'a::len word \<Rightarrow> 'a word" where
  "ntoh little net = (if little then byte_swap net else net)"

definition hton :: "bool \<Rightarrow> 'a::len word \<Rightarrow> 'a word" where
  "hton little host = (if little then byte_swap host else host)"

section \<open>Numbers on the wire\<close>

definition put_number_on :: "bool \<Rightarrow> 'a::len word \<Rightarrow> bytes" where
  "put_number_on little host = mem_bytes little (hton little host)"

definition get_number_on :: "bool \<Rightarrow> bytes \<Rightarrow> 'a::len word result" where
  "get_number_on little net =
     (let n = sizeof (0 :: 'a word) in
      if n > length net then Inl (Out_Of_Range ''get_number(): read past end'')
      else Inr (ntoh little (mem_word little (take n net))))"

text \<open>
  The variants with no bounds check: reading past the end of the buffer is undefined.
\<close>

definition get_uint_on :: "bool \<Rightarrow> bytes \<Rightarrow> 'a::len word result" where
  "get_uint_on little data =
     (let n = sizeof (0 :: 'a word) in
      if n > length data then Inl (Undefined_Behaviour ''read past the end of the buffer'')
      else Inr (ntoh little (mem_word little (take n data))))"

definition get_uint8 :: "bool \<Rightarrow> bytes \<Rightarrow> u8 result" where
  "get_uint8 little data =
     (case data of [] \<Rightarrow> Inl (Undefined_Behaviour ''read past the end of the buffer'')
      | b # _ \<Rightarrow> Inr b)"

definition get_uint16 :: "bool \<Rightarrow> bytes \<Rightarrow> u16 result" where
  "get_uint16 little data = get_uint_on little data"

definition get_uint32 :: "bool \<Rightarrow> bytes \<Rightarrow> u32 result" where
  "get_uint32 little data = get_uint_on little data"

definition get_uint64 :: "bool \<Rightarrow> bytes \<Rightarrow> u64 result" where
  "get_uint64 little data = get_uint_on little data"

text \<open>
  The programs run on a little-endian host; \<open>put_number_host_independent\<close> below shows that the
  bytes on the wire do not depend on it.
\<close>

definition host_little_endian :: bool where
  "host_little_endian = True"

definition put_number :: "'a::len word \<Rightarrow> bytes" where
  "put_number host = put_number_on host_little_endian host"

definition get_number :: "bytes \<Rightarrow> 'a::len word result" where
  "get_number net = get_number_on host_little_endian net"

section \<open>Bit ranges\<close>

text \<open>
  \<open>get_bits\<close> numbers bits from the most significant one. Its offsets are \<open>size_t\<close>, so their sum
  wraps. The mask \<open>(1 << bit_len) - 1\<close> is computed in \<open>int\<close>: from \<open>bit_len = 31\<close> on it
  overflows, and so does a shift of the promoted operand by its own width or more; both are
  undefined in C++17.
\<close>

definition get_bits :: "'a::len word \<Rightarrow> u64 \<Rightarrow> u64 \<Rightarrow> 'a word result" where
  "get_bits number bit_offset bit_len =
     (let total_bits = word_of_nat (8 * sizeof number) :: u64;
          shift = total_bits - bit_offset - bit_len
      in if bit_offset + bit_len > total_bits
         then Inl (Out_Of_Range ''get_bits(): read past end'')
         else if unat shift \<ge> max 32 (8 * sizeof number)
         then Inl (Undefined_Behaviour ''shift by the width of the operand'')
         else if unat bit_len \<ge> 31
         then Inl (Undefined_Behaviour ''(1 << bit_len) - 1 overflows int'')
         else Inr (drop_bit (unat shift) number AND mask (unat bit_len)))"

section \<open>WireParser\<close>

text \<open>The state of a \<open>WireParser\<close> is its string view \<open>str_\<close>; a failed read leaves it alone.\<close>

definition wp_read :: "(bytes, 'a::len word) action" where
  "wp_read str =
     (let n = sizeof (0 :: 'a word) in
      if n > length str then (Inl (Out_Of_Range ''WireParser::read(): read past end''), str)
      else (Inr (ntoh host_little_endian (mem_word host_little_endian (take n str))), drop n str))"

definition read_uint8 :: "(bytes, u8) action" where
  "read_uint8 = wp_read"

definition read_uint16 :: "(bytes, u16) action" where
  "read_uint16 = wp_read"

definition read_uint32 :: "(bytes, u32) action" where
  "read_uint32 = wp_read"

definition read_uint64 :: "(bytes, u64) action" where
  "read_uint64 = wp_read"

definition read_string_len :: "nat \<Rightarrow> (bytes, bytes) action" where
  "read_string_len len str =
     (if len > length str
      then (Inl (Out_Of_Range ''WireParser::read_string(): attempted to read past end''), str)
      else (Inr (take len str), drop len str))"

definition read_string :: "(bytes, bytes) action" where
  "read_string str = read_string_len (length str) str"

definition wp_skip :: "nat \<Rightarrow> (bytes, unit) action" where
  "wp_skip len str =
     (if len > length str
      then (Inl (Out_Of_Range ''WireParser::skip(): attempted to skip past end''), str)
      else (Inr (), drop len str))"

section \<open>Splitting and joining bytes\<close>

lemma length_le_split [simp]: "length (le_split n v) = n"
  by (induction n v rule: le_split.induct) simp_all

lemma le_join_split: "le_join (le_split n v) = v mod 256 ^ n"
proof (induction n v rule: le_split.induct)
  case (2 n v)
  then show ?case
    by (simp add: unsigned_of_nat take_bit_eq_mod mod_mult2_eq mult.commute)
qed simp

lemma unat_byte_less: "unat (b :: u8) < 256"
proof -
  have "unat b < 2 ^ LENGTH(8)" by (rule unsigned_less)
  then show ?thesis by simp
qed

lemma le_join_less: "le_join bs < 256 ^ length bs"
proof (induction bs)
  case (Cons b bs)
  have "unat b < 256" by (rule unat_byte_less)
  with Cons show ?case by simp
qed simp

lemma le_split_join: "le_split (length bs) (le_join bs) = bs"
proof (induction bs)
  case (Cons b bs)
  have "unat b < 256" by (rule unat_byte_less)
  moreover have "(word_of_nat (unat b + 256 * le_join bs) :: u8) = b"
  proof -
    have zero: "(word_of_nat 256 :: u8) = 0" by simp
    show ?thesis
      by (simp only: of_nat_add of_nat_mult zero mult_zero_left add_0_right) simp
  qed
  ultimately show ?case using Cons by simp
qed simp


section \<open>The wire format is big-endian on every host\<close>

lemma exp_sizeof:
  assumes "8 dvd LENGTH('a::len)"
  shows "256 ^ sizeof (w :: 'a word) = (2 ^ LENGTH('a) :: nat)"
proof -
  from assms obtain k where "LENGTH('a) = 8 * k" by (rule dvdE)
  then show ?thesis by (simp add: sizeof_def power_mult)
qed

lemma unat_of_le_join:
  assumes "8 dvd LENGTH('a::len)" and "length bs = sizeof (0 :: 'a word)"
  shows "unat (word_of_nat (le_join bs) :: 'a word) = le_join bs"
  using le_join_less [of bs] assms(2) exp_sizeof [OF assms(1), of 0]
  by (simp add: unsigned_of_nat take_bit_eq_mod)

lemma sizeof_zero: "sizeof (w :: 'a::len word) = sizeof (0 :: 'a word)"
  by (simp add: sizeof_def)

lemma unat_byte_swap:
  assumes "8 dvd LENGTH('a::len)"
  shows "unat (byte_swap (w :: 'a word)) = le_join (rev (le_split (sizeof w) (unat w)))"
  unfolding byte_swap_def
  by (rule unat_of_le_join [OF assms]) (simp add: sizeof_def)

lemma put_number_on_big_endian:
  assumes "8 dvd LENGTH('a::len)"
  shows "put_number_on little (w :: 'a word) = rev (le_split (sizeof w) (unat w))"
proof (cases little)
  case True
  let ?bs = "rev (le_split (sizeof w) (unat w))"
  have "le_split (length ?bs) (le_join ?bs) = ?bs" by (rule le_split_join)
  with True show ?thesis
    by (simp add: put_number_on_def mem_bytes_def hton_def unat_byte_swap [OF assms] sizeof_def)
qed (simp add: put_number_on_def mem_bytes_def hton_def)

lemma mem_word_ntoh:
  assumes "8 dvd LENGTH('a::len)" and "length bs = sizeof (0 :: 'a word)"
  shows "ntoh little (mem_word little bs :: 'a word) = word_of_nat (le_join (rev bs))"
proof (cases little)
  case True
  then show ?thesis
    using assms unat_of_le_join [OF assms] le_split_join [of bs]
    by (simp add: ntoh_def mem_word_def byte_swap_def sizeof_zero [of "word_of_nat (le_join bs)"])
qed (simp add: ntoh_def mem_word_def)

lemma length_put_number_on:
  "8 dvd LENGTH('a::len) \<Longrightarrow> length (put_number_on little (w :: 'a word)) = sizeof w"
  by (simp add: put_number_on_big_endian)

lemma le_join_rev_put_number:
  assumes "8 dvd LENGTH('a::len)"
  shows "word_of_nat (le_join (rev (put_number_on little (w :: 'a word)))) = w"
  using assms
  by (simp add: put_number_on_big_endian le_join_split exp_sizeof)

lemma put_number_on_of_bytes:
  assumes "8 dvd LENGTH('a::len)" and "length bs = sizeof (0 :: 'a word)"
  shows "put_number_on little (word_of_nat (le_join (rev bs)) :: 'a word) = bs"
proof -
  have "unat (word_of_nat (le_join (rev bs)) :: 'a word) = le_join (rev bs)"
    using assms by (intro unat_of_le_join) simp_all
  then show ?thesis
    using assms le_split_join [of "rev bs"]
    by (simp add: put_number_on_big_endian sizeof_zero [of "word_of_nat (le_join (rev bs))"])
qed

section \<open>The codec interface\<close>

locale wire_codec =
  fixes width :: nat
    and put :: "'a \<Rightarrow> bytes"
    and get :: "(bytes, 'a) action"
  assumes put_length: "length (put x) = width"
    and get_put: "get (put x @ rest) = (Inr x, rest)"
    and get_short: "length str < width \<Longrightarrow> \<exists>e. fst (get str) = Inl (Out_Of_Range e)"
    and get_long: "width \<le> length str \<Longrightarrow>
      \<exists>x. get str = (Inr x, drop width str) \<and> put x = take width str"
begin

lemma get_Inr_iff: "get str = (Inr x, rest) \<longleftrightarrow> str = put x @ rest"
proof
  assume got: "get str = (Inr x, rest)"
  have "width \<le> length str"
  proof (rule ccontr)
    assume "\<not> width \<le> length str"
    then obtain e where "fst (get str) = Inl (Out_Of_Range e)" using get_short by force
    with got show False by simp
  qed
  then obtain y where "get str = (Inr y, drop width str)" and "put y = take width str"
    using get_long by blast
  with got show "str = put x @ rest" by auto
qed (simp add: get_put)

lemma get_succeeds_iff: "succeeds (fst (get str)) \<longleftrightarrow> width \<le> length str"
proof (cases "width \<le> length str")
  case True
  then obtain x where "get str = (Inr x, drop width str)" using get_long by blast
  with True show ?thesis by simp
next
  case False
  then obtain e where "fst (get str) = Inl (Out_Of_Range e)" using get_short by force
  with False show ?thesis by simp
qed

lemma put_append_inject: "put x @ s = put y @ t \<longleftrightarrow> x = y \<and> s = t"
  by (metis get_put Pair_inject sum.inject(2))

lemma put_inject: "put x = put y \<longleftrightarrow> x = y"
  using put_append_inject [of x "[]" y "[]"] by simp

lemma put_surjective:
  assumes "length str = width"
  shows "\<exists>x. put x = str"
  using get_long [of str] assms by auto

end

text \<open>
  Two codecs in sequence are a codec again: a message whose fields are written and read in the
  same order needs no proof of its own.
\<close>

definition put_pair :: "('a \<Rightarrow> bytes) \<Rightarrow> ('b \<Rightarrow> bytes) \<Rightarrow> 'a \<times> 'b \<Rightarrow> bytes" where
  "put_pair put1 put2 = (\<lambda>(x, y). put1 x @ put2 y)"

definition read_pair :: "(bytes, 'a) action \<Rightarrow> (bytes, 'b) action \<Rightarrow> (bytes, 'a \<times> 'b) action" where
  "read_pair get1 get2 = bind_action get1 (\<lambda>x. bind_action get2 (\<lambda>y. return_action (x, y)))"

locale wire_codec_pair =
  first: wire_codec w1 put1 get1 + second: wire_codec w2 put2 get2
  for w1 :: nat and put1 :: "'a \<Rightarrow> bytes" and get1 :: "(bytes, 'a) action"
    and w2 :: nat and put2 :: "'b \<Rightarrow> bytes" and get2 :: "(bytes, 'b) action"

sublocale wire_codec_pair \<subseteq> both: wire_codec "w1 + w2" "put_pair put1 put2" "read_pair get1 get2"
proof unfold_locales
  fix p :: "'a \<times> 'b" and rest str
  show "length (put_pair put1 put2 p) = w1 + w2"
    by (cases p) (simp add: put_pair_def first.put_length second.put_length)
  show "read_pair get1 get2 (put_pair put1 put2 p @ rest) = (Inr p, rest)"
    by (cases p) (simp add: put_pair_def read_pair_def bind_action_def return_action_def first.get_put second.get_put)
  show "\<exists>e. fst (read_pair get1 get2 str) = Inl (Out_Of_Range e)" if short: "length str < w1 + w2"
  proof (cases "length str < w1")
    case True
    then obtain e t where "get1 str = (Inl (Out_Of_Range e), t)"
      using first.get_short by (metis prod.collapse)
    then show ?thesis by (simp add: put_pair_def read_pair_def bind_action_def)
  next
    case False
    then obtain x where x: "get1 str = (Inr x, drop w1 str)" using first.get_long [of str] by auto
    have "length (drop w1 str) < w2" using False short by simp
    then obtain e t where "get2 (drop w1 str) = (Inl (Out_Of_Range e), t)"
      using second.get_short by (metis prod.collapse)
    with x show ?thesis by (simp add: put_pair_def read_pair_def bind_action_def)
  qed
  show "\<exists>x. read_pair get1 get2 str =
      (Inr x, drop (w1 + w2) str) \<and> put_pair put1 put2 x = take (w1 + w2) str"
    if long: "w1 + w2 \<le> length str"
  proof -
    obtain x where x: "get1 str = (Inr x, drop w1 str)" "put1 x = take w1 str"
      using first.get_long [of str] long by auto
    have "w2 \<le> length (drop w1 str)" using long by simp
    then obtain y where y: "get2 (drop w1 str) = (Inr y, drop w2 (drop w1 str))"
        "put2 y = take w2 (drop w1 str)"
      using second.get_long by blast
    show ?thesis
      by (rule exI [of _ "(x, y)"])
        (simp add: put_pair_def read_pair_def bind_action_def return_action_def x y take_add add.commute)
  qed
qed

section \<open>The integer codecs satisfy the interface\<close>

lemma wp_read_codec:
  assumes "8 dvd LENGTH('a::len)"
  shows "wire_codec (LENGTH('a) div 8) (put_number :: 'a word \<Rightarrow> bytes) wp_read"
proof unfold_locales
  fix x :: "'a word" and rest str :: bytes
  have len: "length (put_number x) = LENGTH('a) div 8"
    by (simp add: put_number_def length_put_number_on [OF assms] sizeof_def)
  then show "length (put_number x) = LENGTH('a) div 8" .
  have "length (put_number x) = sizeof (0 :: 'a word)"
    using len by (simp add: sizeof_def)
  then show "wp_read (put_number x @ rest) = (Inr x, rest)"
    using mem_word_ntoh [OF assms, of "put_number x" host_little_endian]
    by (simp add: wp_read_def put_number_def le_join_rev_put_number [OF assms])
  show "length str < LENGTH('a) div 8 \<Longrightarrow>
      \<exists>e. fst (wp_read str :: 'a word result \<times> bytes) = Inl (Out_Of_Range e)"
    by (simp add: wp_read_def sizeof_def)
  show "LENGTH('a) div 8 \<le> length str \<Longrightarrow>
      \<exists>x :: 'a word. wp_read str = (Inr x, drop (LENGTH('a) div 8) str) \<and>
        put_number x = take (LENGTH('a) div 8) str"
  proof -
    let ?n = "LENGTH('a) div 8"
    assume "?n \<le> length str"
    then have "length (take ?n str) = sizeof (0 :: 'a word)" by (simp add: sizeof_def)
    then have "put_number (word_of_nat (le_join (rev (take ?n str))) :: 'a word) = take ?n str"
      and "ntoh host_little_endian (mem_word host_little_endian (take ?n str) :: 'a word) =
           word_of_nat (le_join (rev (take ?n str)))"
      using put_number_on_of_bytes [OF assms] mem_word_ntoh [OF assms]
      by (simp_all add: put_number_def)
    then show ?thesis
      using \<open>?n \<le> length str\<close> by (auto simp: wp_read_def sizeof_def Let_def)
  qed
qed

interpretation w8: wire_codec 1 "put_number :: u8 \<Rightarrow> bytes" read_uint8
  using wp_read_codec [where 'a = 8] by (simp add: read_uint8_def)

interpretation w16: wire_codec 2 "put_number :: u16 \<Rightarrow> bytes" read_uint16
  using wp_read_codec [where 'a = 16] by (simp add: read_uint16_def)

interpretation w32: wire_codec 4 "put_number :: u32 \<Rightarrow> bytes" read_uint32
  using wp_read_codec [where 'a = 32] by (simp add: read_uint32_def)

interpretation w64: wire_codec 8 "put_number :: u64 \<Rightarrow> bytes" read_uint64
  using wp_read_codec [where 'a = 64] by (simp add: read_uint64_def)

lemmas put_number_lengths [codec_laws] =
  w8.put_length w16.put_length w32.put_length w64.put_length

lemmas read_put_number [codec_laws] =
  w8.get_put w16.get_put w32.get_put w64.get_put

lemma read_string_all [codec_laws]: "read_string str = (Inr str, [])"
  by (simp add: read_string_def read_string_len_def)


section \<open>Properties\<close>

lemma le_split_map: "le_split n v = map (\<lambda>i. word_of_nat (v div 256 ^ i)) [0..<n]"
proof (induction n v rule: le_split.induct)
  case (2 n v)
  have "[0..<Suc n] = 0 # map Suc [0..<n]" by (simp add: upt_conv_Cons map_Suc_upt)
  with 2 show ?case by (simp add: div_mult2_eq comp_def)
qed simp

lemma word_of_nat_div_exp:
  "word_of_nat (unat (w :: 'a::len word) div 2 ^ n) = (ucast (drop_bit n w) :: 'b::len word)"
proof -
  have "unat (drop_bit n w) = unat w div 2 ^ n"
    unfolding unat_drop_bit_eq by (rule drop_bit_eq_div)
  then show ?thesis by (metis of_nat_unat)
qed

lemma put_number_on_map:
  assumes "8 dvd LENGTH('a::len)"
  shows "put_number_on little (w :: 'a word) =
    rev (map (\<lambda>i. ucast (drop_bit (8 * i) w)) [0..<LENGTH('a) div 8])"
proof -
  have "(256 :: nat) ^ i = 2 ^ (8 * i)" for i by (simp add: power_mult)
  then show ?thesis
    by (simp add: put_number_on_big_endian [OF assms] sizeof_def le_split_map word_of_nat_div_exp)
qed

lemma ucast_drop_bit_half:
  "n \<le> 24 \<Longrightarrow> (ucast (drop_bit n (ucast (v :: u64) :: u32)) :: u8) = ucast (drop_bit n v)"
  by (rule bit_word_eqI) (auto simp: bit_simps)

text \<open>
  C21: the bytes \<open>put_number\<close> writes are the big-endian bytes of the number, whatever the byte order
  of the host that runs it.
\<close>

theorem put_number_host_independent:
  "put_number_on little (w8 :: u8) = [w8] \<and>
   put_number_on little (w16 :: u16) = [ucast (drop_bit 8 w16), ucast w16] \<and>
   put_number_on little (w32 :: u32) =
     [ucast (drop_bit 24 w32), ucast (drop_bit 16 w32), ucast (drop_bit 8 w32), ucast w32] \<and>
   put_number_on little (w64 :: u64) =
     put_number_on little (ucast (drop_bit 32 w64) :: u32) @ put_number_on little (ucast w64 :: u32)"
  using ucast_drop_bit_half [of 0] by (simp add: put_number_on_map upt_rec ucast_drop_bit_half)

text \<open>
  A number serialised by a host of either byte order is read back exactly by a host of either
  byte order, whatever follows it in the buffer.
\<close>

lemma number_roundtrip_across_hosts:
  "get_number_on l2 (put_number_on l1 (w8 :: u8) @ rest) = Inr w8 \<and>
   get_number_on l2 (put_number_on l1 (w16 :: u16) @ rest) = Inr w16 \<and>
   get_number_on l2 (put_number_on l1 (w32 :: u32) @ rest) = Inr w32 \<and>
   get_number_on l2 (put_number_on l1 (w64 :: u64) @ rest) = Inr w64"
  by (simp add: get_number_on_def Let_def sizeof_def length_put_number_on mem_word_ntoh
      le_join_rev_put_number)

lemma u64_range_sub:
  assumes "unat (a :: u64) + unat b \<le> unat t"
  shows "a + b \<le> t" and "unat (t - a - b) = unat t - unat a - unat b"
proof -
  have sum: "unat (a + b) = unat a + unat b"
  proof (rule unat_add_no_wrap)
    have "unat t < 2 ^ LENGTH(64)" by (rule unsigned_less)
    with assms show "unat a + unat b < 2 ^ LENGTH(64)" by simp
  qed
  with assms show le: "a + b \<le> t" by (simp add: word_le_nat_alt)
  have "t - a - b = t - (a + b)" by (rule diff_diff_eq)
  then show "unat (t - a - b) = unat t - unat a - unat b"
    by (simp only: unat_sub [OF le] sum diff_diff_left)
qed

text \<open>
  \<open>get_bits\<close> on a 32-bit number, for a range that lies within the number and is at most 30 bits
  long, returns the bits of that range counted from the most significant bit, right-aligned.
\<close>

lemma get_bits_msb0:
  assumes "unat off + unat len \<le> 32" and "0 < unat off + unat len" and "unat len < 31"
  shows "\<exists>r. get_bits (w :: u32) off len = Inr r \<and>
    (\<forall>i. bit r i = (i < unat len \<and> bit w (32 - unat off - unat len + i)))"
proof -
  let ?s = "32 - unat off - unat len"
  have "\<not> 32 \<le> 32 - (unat off + unat len)" using assms(2) by arith
  then have "get_bits w off len = Inr (drop_bit ?s w AND mask (unat len))"
    using u64_range_sub [of off len 32] assms
    by (simp add: get_bits_def sizeof_def Let_def not_less)
  moreover have "bit (drop_bit ?s w AND mask (unat len)) i =
      (i < unat len \<and> bit w (?s + i))" for i
    by (auto simp: bit_simps add.commute dest: bit_imp_le_length)
  ultimately show ?thesis by blast
qed

lemma get_bits_msb0_witness:
  "\<exists>r. get_bits (0xABCD1234 :: u32) 4 8 = Inr r \<and>
    (\<forall>i. bit r i = (i < 8 \<and> bit (0xABCD1234 :: u32) (20 + i)))"
  using get_bits_msb0 [of 4 8 "0xABCD1234"] by simp

text \<open>
  A range of 31 or more bits of a 64-bit number, although it lies within the number, makes
  \<open>get_bits\<close> compute its mask by an overflowing \<open>int\<close> shift: the call has no defined result.
\<close>

lemma get_bits_wide_range_undefined:
  assumes "unat off + unat len \<le> 64" and "31 \<le> unat len"
  shows "\<exists>msg. get_bits (w :: u64) off len = Inl (Undefined_Behaviour msg)"
  using u64_range_sub [of off len 64] assms
  by (simp add: get_bits_def sizeof_def Let_def not_less)

lemma get_bits_wide_range_undefined_witness:
  "\<exists>msg. get_bits (0 :: u64) 0 32 = Inl (Undefined_Behaviour msg)"
  using get_bits_wide_range_undefined [of 0 32 0] by simp

end
