(* ===== verification/Protocol.thy ===== *)
theory Protocol
  imports Serialization
begin

text \<open>
  The model of \<open>src/app/protocol.hh\<close> and \<open>protocol.cc\<close>: the datagrams that carry fragments of video
  frames from the sender to the receiver, and the messages the receiver sends back.
\<close>

section \<open>Datagrams\<close>

text \<open>
  \<open>FrameType\<close> is an \<open>enum class\<close> over \<open>uint8_t\<close>: the cast in the parser gives it any of the 256
  values, named or not, so it is modelled by that byte.
\<close>

type_synonym frame_type = u8

definition UNKNOWN :: frame_type where "UNKNOWN = 0"
definition KEY :: frame_type where "KEY = 1"
definition NONKEY :: frame_type where "NONKEY = 2"

record datagram =
  dg_frame_id :: u32
  dg_frame_type :: frame_type
  dg_frag_id :: u16
  dg_frag_cnt :: u16
  dg_send_ts :: u64
  dg_payload :: bytes
  dg_num_rtx :: u32
  dg_last_send_ts :: u64

definition new_datagram :: datagram where
  "new_datagram = \<lparr>dg_frame_id = 0, dg_frame_type = UNKNOWN, dg_frag_id = 0, dg_frag_cnt = 0,
     dg_send_ts = 0, dg_payload = [], dg_num_rtx = 0, dg_last_send_ts = 0\<rparr>"

definition make_datagram :: "u32 \<Rightarrow> frame_type \<Rightarrow> u16 \<Rightarrow> u16 \<Rightarrow> bytes \<Rightarrow> datagram" where
  "make_datagram frame_id frame_type frag_id frag_cnt payload =
     new_datagram\<lparr>dg_frame_id := frame_id, dg_frame_type := frame_type, dg_frag_id := frag_id,
       dg_frag_cnt := frag_cnt, dg_payload := payload\<rparr>"

definition HEADER_SIZE :: nat where
  "HEADER_SIZE = sizeof (0 :: u32) + sizeof (0 :: u8) + 2 * sizeof (0 :: u16) + sizeof (0 :: u64)"

definition default_max_payload :: nat where
  "default_max_payload = 1500 - 28 - HEADER_SIZE"

text \<open>\<open>set_mtu\<close> returns the new value of the static member \<open>max_payload\<close>.\<close>

definition set_mtu :: "u64 \<Rightarrow> nat result" where
  "set_mtu mtu =
     (if mtu > 1500 \<or> mtu < 512
      then Inl (Runtime_Error ''reasonable MTU is between 512 and 1500 bytes'')
      else Inr (unat mtu - 28 - HEADER_SIZE))"

text \<open>
  Reading a field from the parser and assigning it to a member: the state is the parser's string
  view and the object that is filled.
\<close>

definition parse_field :: "(bytes, 'a) action \<Rightarrow> ('a \<Rightarrow> 'd \<Rightarrow> 'd) \<Rightarrow> (bytes \<times> 'd, unit) action" where
  "parse_field read assign = (\<lambda>(str, obj). case read str of
       (Inl e, str') \<Rightarrow> (Inl e, str', obj)
     | (Inr x, str') \<Rightarrow> (Inr (), str', assign x obj))"

definition datagram_fields :: "(bytes \<times> datagram, unit) action" where
  "datagram_fields =
     bind_action (parse_field read_uint32 (\<lambda>x d. d\<lparr>dg_frame_id := x\<rparr>)) (\<lambda>_.
     bind_action (parse_field read_uint8 (\<lambda>x d. d\<lparr>dg_frame_type := x\<rparr>)) (\<lambda>_.
     bind_action (parse_field read_uint16 (\<lambda>x d. d\<lparr>dg_frag_id := x\<rparr>)) (\<lambda>_.
     bind_action (parse_field read_uint16 (\<lambda>x d. d\<lparr>dg_frag_cnt := x\<rparr>)) (\<lambda>_.
     bind_action (parse_field read_uint64 (\<lambda>x d. d\<lparr>dg_send_ts := x\<rparr>)) (\<lambda>_.
     parse_field read_string (\<lambda>x d. d\<lparr>dg_payload := x\<rparr>))))))"

definition datagram_parse_from_string :: "bytes \<Rightarrow> (datagram, bool) action" where
  "datagram_parse_from_string binary d =
     (if length binary < HEADER_SIZE then (Inr False, d)
      else case datagram_fields (binary, d) of
        (Inl e, _, d') \<Rightarrow> (Inl e, d')
      | (Inr _, _, d') \<Rightarrow> (Inr True, d'))"

definition datagram_serialize_to_string :: "datagram \<Rightarrow> bytes" where
  "datagram_serialize_to_string d =
     put_number (dg_frame_id d) @ put_number (dg_frame_type d) @ put_number (dg_frag_id d) @
     put_number (dg_frag_cnt d) @ put_number (dg_send_ts d) @ dg_payload d"

section \<open>Messages\<close>

definition MSG_INVALID :: u8 where "MSG_INVALID = 0"
definition MSG_ACK :: u8 where "MSG_ACK = 1"
definition MSG_CONFIG :: u8 where "MSG_CONFIG = 2"

record ack_msg =
  ack_frame_id :: u32
  ack_frag_id :: u16
  ack_send_ts :: u64

record config_msg =
  cfg_width :: u16
  cfg_height :: u16
  cfg_frame_rate :: u16
  cfg_target_bitrate :: u32

definition config_msg_new :: "u16 \<Rightarrow> u16 \<Rightarrow> u16 \<Rightarrow> u32 \<Rightarrow> config_msg" where
  "config_msg_new width height frame_rate target_bitrate =
     \<lparr>cfg_width = width, cfg_height = height, cfg_frame_rate = frame_rate, cfg_target_bitrate = target_bitrate\<rparr>"

text \<open>\<open>Msg\<close> and its two derived classes; the virtual functions are the case distinctions.\<close>

datatype msg = Msg u8 | AckMsg ack_msg | ConfigMsg config_msg

fun msg_type :: "msg \<Rightarrow> u8" where
  "msg_type (Msg t) = t"
| "msg_type (AckMsg a) = MSG_ACK"
| "msg_type (ConfigMsg c) = MSG_CONFIG"

definition ack_of_datagram :: "datagram \<Rightarrow> ack_msg" where
  "ack_of_datagram d =
     \<lparr>ack_frame_id = dg_frame_id d, ack_frag_id = dg_frag_id d, ack_send_ts = dg_send_ts d\<rparr>"

definition base_serialized_size :: nat where
  "base_serialized_size = sizeof (0 :: u8)"

definition base_serialize_to_string :: "msg \<Rightarrow> bytes" where
  "base_serialize_to_string m = put_number (msg_type m)"

definition ack_serialized_size :: nat where
  "ack_serialized_size =
     base_serialized_size + sizeof (0 :: u16) + sizeof (0 :: u32) + sizeof (0 :: u64)"

definition ack_serialize_to_string :: "ack_msg \<Rightarrow> bytes" where
  "ack_serialize_to_string a =
     base_serialize_to_string (AckMsg a) @
     put_number (ack_frame_id a) @ put_number (ack_frag_id a) @ put_number (ack_send_ts a)"

definition config_serialized_size :: nat where
  "config_serialized_size = base_serialized_size + 3 * sizeof (0 :: u16) + sizeof (0 :: u32)"

definition config_serialize_to_string :: "config_msg \<Rightarrow> bytes" where
  "config_serialize_to_string c =
     base_serialize_to_string (ConfigMsg c) @
     put_number (cfg_width c) @ put_number (cfg_height c) @ put_number (cfg_frame_rate c) @
     put_number (cfg_target_bitrate c)"

fun serialized_size :: "msg \<Rightarrow> nat" where
  "serialized_size (Msg t) = base_serialized_size"
| "serialized_size (AckMsg a) = ack_serialized_size"
| "serialized_size (ConfigMsg c) = config_serialized_size"

fun serialize_to_string :: "msg \<Rightarrow> bytes" where
  "serialize_to_string (Msg t) = base_serialize_to_string (Msg t)"
| "serialize_to_string (AckMsg a) = ack_serialize_to_string a"
| "serialize_to_string (ConfigMsg c) = config_serialize_to_string c"

text \<open>The factory \<open>Msg::parse_from_string\<close>: None is \<open>nullptr\<close>.\<close>

definition msg_parse_from_string :: "bytes \<Rightarrow> msg option result" where
  "msg_parse_from_string binary =
     (if length binary < sizeof (0 :: u8) then Inr None
      else fst (bind_action read_uint8 (\<lambda>type.
        if type = MSG_ACK then
          bind_action read_uint32 (\<lambda>frame_id.
          bind_action read_uint16 (\<lambda>frag_id.
          bind_action read_uint64 (\<lambda>send_ts.
          return_action (Some (AckMsg
            \<lparr>ack_frame_id = frame_id, ack_frag_id = frag_id, ack_send_ts = send_ts\<rparr>)))))
        else if type = MSG_CONFIG then
          bind_action read_uint16 (\<lambda>width.
          bind_action read_uint16 (\<lambda>height.
          bind_action read_uint16 (\<lambda>frame_rate.
          bind_action read_uint32 (\<lambda>target_bitrate.
          return_action (Some (ConfigMsg
            \<lparr>cfg_width = width, cfg_height = height, cfg_frame_rate = frame_rate,
             cfg_target_bitrate = target_bitrate\<rparr>))))))
        else return_action None) binary))"

section \<open>Layout\<close>

text \<open>The fixed part of a datagram and the bodies of the messages are codecs of their own.\<close>

interpretation id_ts: wire_codec_pair 2 "put_number :: u16 \<Rightarrow> bytes" read_uint16
  8 "put_number :: u64 \<Rightarrow> bytes" read_uint64
  by unfold_locales

interpretation ack_body: wire_codec_pair 4 "put_number :: u32 \<Rightarrow> bytes" read_uint32
  "2 + 8" "put_pair (put_number :: u16 \<Rightarrow> bytes) (put_number :: u64 \<Rightarrow> bytes)"
  "read_pair read_uint16 read_uint64"
  by unfold_locales

interpretation frag_ts: wire_codec_pair 2 "put_number :: u16 \<Rightarrow> bytes" read_uint16
  "2 + 8" "put_pair (put_number :: u16 \<Rightarrow> bytes) (put_number :: u64 \<Rightarrow> bytes)"
  "read_pair read_uint16 read_uint64"
  by unfold_locales

interpretation type_frag_ts: wire_codec_pair 1 "put_number :: u8 \<Rightarrow> bytes" read_uint8
  "2 + (2 + 8)"
  "put_pair (put_number :: u16 \<Rightarrow> bytes) (put_pair (put_number :: u16 \<Rightarrow> bytes) (put_number :: u64 \<Rightarrow> bytes))"
  "read_pair read_uint16 (read_pair read_uint16 read_uint64)"
  by unfold_locales

interpretation header: wire_codec_pair 4 "put_number :: u32 \<Rightarrow> bytes" read_uint32
  "1 + (2 + (2 + 8))"
  "put_pair (put_number :: u8 \<Rightarrow> bytes) (put_pair (put_number :: u16 \<Rightarrow> bytes)
     (put_pair (put_number :: u16 \<Rightarrow> bytes) (put_number :: u64 \<Rightarrow> bytes)))"
  "read_pair read_uint8 (read_pair read_uint16 (read_pair read_uint16 read_uint64))"
  by unfold_locales

interpretation rate_bitrate: wire_codec_pair 2 "put_number :: u16 \<Rightarrow> bytes" read_uint16
  4 "put_number :: u32 \<Rightarrow> bytes" read_uint32
  by unfold_locales

interpretation height_rate: wire_codec_pair 2 "put_number :: u16 \<Rightarrow> bytes" read_uint16
  "2 + 4" "put_pair (put_number :: u16 \<Rightarrow> bytes) (put_number :: u32 \<Rightarrow> bytes)"
  "read_pair read_uint16 read_uint32"
  by unfold_locales

interpretation config_body: wire_codec_pair 2 "put_number :: u16 \<Rightarrow> bytes" read_uint16
  "2 + (2 + 4)"
  "put_pair (put_number :: u16 \<Rightarrow> bytes) (put_pair (put_number :: u16 \<Rightarrow> bytes) (put_number :: u32 \<Rightarrow> bytes))"
  "read_pair read_uint16 (read_pair read_uint16 read_uint32)"
  by unfold_locales

lemma header_size [simp]: "HEADER_SIZE = 17"
  by (simp add: HEADER_SIZE_def sizeof_def)

lemma message_sizes [simp]:
  "base_serialized_size = 1" "ack_serialized_size = 15" "config_serialized_size = 11"
  by (simp_all add: base_serialized_size_def ack_serialized_size_def config_serialized_size_def
      sizeof_def)

lemma header_layout:
  assumes "17 \<le> length binary"
  obtains frame_id frame_type frag_id frag_cnt send_ts where
    "binary = put_number (frame_id :: u32) @ put_number (frame_type :: u8) @
       put_number (frag_id :: u16) @ put_number (frag_cnt :: u16) @ put_number (send_ts :: u64) @
       drop 17 binary"
proof -
  obtain x where "put_pair (put_number :: u32 \<Rightarrow> bytes) (put_pair (put_number :: u8 \<Rightarrow> bytes)
      (put_pair (put_number :: u16 \<Rightarrow> bytes) (put_pair (put_number :: u16 \<Rightarrow> bytes)
        (put_number :: u64 \<Rightarrow> bytes)))) x = take 17 binary"
    using header.both.put_surjective [of "take 17 binary"] assms by auto
  moreover obtain a b c d e where "x = (a, b, c, d, e)" by (cases x)
  ultimately have "take 17 binary =
      put_number a @ put_number b @ put_number c @ put_number d @ put_number e"
    by (simp add: put_pair_def)
  moreover have "binary = take 17 binary @ drop 17 binary" by simp
  ultimately have "binary =
      (put_number a @ put_number b @ put_number c @ put_number d @ put_number e) @ drop 17 binary"
    by metis
  then show thesis by (intro that [of a b c d e]) simp
qed

lemma datagram_fields_layout:
  "datagram_fields (put_number frame_id @ put_number frame_type @ put_number frag_id @
      put_number frag_cnt @ put_number send_ts @ payload, d) =
   (Inr (), [], d\<lparr>dg_frame_id := frame_id, dg_frame_type := frame_type, dg_frag_id := frag_id,
      dg_frag_cnt := frag_cnt, dg_send_ts := send_ts, dg_payload := payload\<rparr>)"
  by (simp add: datagram_fields_def parse_field_def bind_action_def codec_laws)

lemma length_datagram_serialize:
  "length (datagram_serialize_to_string d) = HEADER_SIZE + length (dg_payload d)"
  by (simp add: datagram_serialize_to_string_def codec_laws)

lemma datagram_reparse:
  "datagram_parse_from_string (datagram_serialize_to_string d) d0 =
     (Inr True, d\<lparr>dg_num_rtx := dg_num_rtx d0, dg_last_send_ts := dg_last_send_ts d0\<rparr>)"
proof -
  have "\<not> length (datagram_serialize_to_string d) < HEADER_SIZE"
    by (simp add: length_datagram_serialize)
  then show ?thesis
    unfolding datagram_parse_from_string_def
    by (simp add: datagram_serialize_to_string_def datagram_fields_layout)
qed

section \<open>Properties of datagrams\<close>

text \<open>
  C18: parsing the bytes of a serialised datagram succeeds and restores every transmitted field,
  whatever the object held before; the retransmission fields, which are not transmitted, are kept.
\<close>

theorem datagram_roundtrip:
  "datagram_parse_from_string (datagram_serialize_to_string d) d0 =
     (Inr True, d\<lparr>dg_num_rtx := dg_num_rtx d0, dg_last_send_ts := dg_last_send_ts d0\<rparr>)"
  by (rule datagram_reparse)

text \<open>
  C20: every binary of at least the header size parses, without an exception, to a datagram whose
  serialisation is that binary again; a shorter one is rejected and leaves the object as it was.
\<close>

theorem datagram_parse_canonical:
  "if length binary < HEADER_SIZE then datagram_parse_from_string binary d0 = (Inr False, d0)
   else \<exists>d. datagram_parse_from_string binary d0 = (Inr True, d) \<and>
     datagram_serialize_to_string d = binary"
proof (cases "length binary < HEADER_SIZE")
  case False
  then have "17 \<le> length binary" by simp
  then obtain frame_id frame_type frag_id frag_cnt send_ts where
    b: "binary = put_number (frame_id :: u32) @ put_number (frame_type :: u8) @
       put_number (frag_id :: u16) @ put_number (frag_cnt :: u16) @ put_number (send_ts :: u64) @
       drop 17 binary"
    by (rule header_layout)
  let ?d = "d0\<lparr>dg_frame_id := frame_id, dg_frame_type := frame_type, dg_frag_id := frag_id,
      dg_frag_cnt := frag_cnt, dg_send_ts := send_ts, dg_payload := drop 17 binary\<rparr>"
  have "datagram_fields (binary, d0) = (Inr (), [], ?d)"
    using datagram_fields_layout [of frame_id frame_type frag_id frag_cnt send_ts "drop 17 binary" d0]
    by (simp add: b [symmetric])
  moreover have "datagram_serialize_to_string ?d = binary"
    by (simp add: datagram_serialize_to_string_def b [symmetric])
  ultimately show ?thesis using False by (simp add: datagram_parse_from_string_def)
qed (simp add: datagram_parse_from_string_def)

text \<open>
  \<open>set_mtu\<close> accepts exactly the MTUs from 512 to 1500, and a datagram whose payload keeps to the
  limit it sets fits, with IP and UDP headers, into a packet of that MTU.
\<close>

lemma set_mtu_fits:
  "(case set_mtu mtu of
      Inl e \<Rightarrow> unat mtu < 512 \<or> 1500 < unat mtu
    | Inr max_payload \<Rightarrow> 512 \<le> unat mtu \<and> unat mtu \<le> 1500 \<and> 0 < max_payload \<and>
        (length (dg_payload d) \<le> max_payload \<longleftrightarrow>
         28 + length (datagram_serialize_to_string d) \<le> unat mtu))"
proof (cases "mtu > 1500 \<or> mtu < 512")
  case False
  then have "512 \<le> unat mtu" "unat mtu \<le> 1500" by (simp_all add: word_le_nat_alt not_less)
  with False show ?thesis by (auto simp: set_mtu_def length_datagram_serialize)
qed (auto simp: set_mtu_def word_less_nat_alt)

section \<open>Properties of messages\<close>

lemma ack_parse:
  "msg_parse_from_string (put_number MSG_ACK @ body) =
     bind_result (fst (read_pair read_uint32 (read_pair read_uint16 read_uint64) body))
       (\<lambda>(f, g, t). Inr (Some (AckMsg \<lparr>ack_frame_id = f, ack_frag_id = g, ack_send_ts = t\<rparr>)))"
  by (simp add: msg_parse_from_string_def sizeof_def codec_laws bind_action_def read_pair_def
      return_action_def MSG_ACK_def split: prod.split sum.split)

lemma config_parse:
  "msg_parse_from_string (put_number MSG_CONFIG @ body) =
     bind_result (fst (read_pair read_uint16 (read_pair read_uint16 (read_pair read_uint16 read_uint32)) body))
       (\<lambda>(w, h, r, b). Inr (Some (ConfigMsg
          \<lparr>cfg_width = w, cfg_height = h, cfg_frame_rate = r, cfg_target_bitrate = b\<rparr>)))"
  by (simp add: msg_parse_from_string_def sizeof_def codec_laws bind_action_def read_pair_def
      return_action_def MSG_ACK_def MSG_CONFIG_def split: prod.split sum.split)

lemma put_u8 [simp]: "put_number (w :: u8) = [w]"
  by (simp add: put_number_def put_number_on_map upt_rec)

lemma ack_serialize_layout:
  "ack_serialize_to_string a = put_number MSG_ACK @
     put_pair put_number (put_pair put_number put_number) (ack_frame_id a, ack_frag_id a, ack_send_ts a)"
  by (simp add: ack_serialize_to_string_def base_serialize_to_string_def put_pair_def)

lemma config_serialize_layout:
  "config_serialize_to_string c = put_number MSG_CONFIG @
     put_pair put_number (put_pair put_number (put_pair put_number put_number))
       (cfg_width c, cfg_height c, cfg_frame_rate c, cfg_target_bitrate c)"
  by (simp add: config_serialize_to_string_def base_serialize_to_string_def put_pair_def)

lemma ack_roundtrip: "msg_parse_from_string (ack_serialize_to_string a @ extra) = Inr (Some (AckMsg a))"
  using ack_body.both.get_put [of "(ack_frame_id a, ack_frag_id a, ack_send_ts a)" extra]
    ack_parse [of "put_pair put_number (put_pair put_number put_number)
      (ack_frame_id a, ack_frag_id a, ack_send_ts a) @ extra"]
  by (simp add: ack_serialize_layout)

lemma config_roundtrip: "msg_parse_from_string (config_serialize_to_string c @ extra) = Inr (Some (ConfigMsg c))"
  using config_body.both.get_put
      [of "(cfg_width c, cfg_height c, cfg_frame_rate c, cfg_target_bitrate c)" extra]
    config_parse [of "put_pair put_number (put_pair put_number (put_pair put_number put_number))
      (cfg_width c, cfg_height c, cfg_frame_rate c, cfg_target_bitrate c) @ extra"]
  by (simp add: config_serialize_layout)

text \<open>
  C22: an ACK or a configuration message is restored by the parser from its serialisation, even with
  more bytes after it, and \<open>serialized_size\<close> is the number of bytes it serialises to.
\<close>

theorem msg_roundtrip:
  "msg_parse_from_string (serialize_to_string (AckMsg a) @ extra) = Inr (Some (AckMsg a)) \<and>
   msg_parse_from_string (serialize_to_string (ConfigMsg c) @ extra) = Inr (Some (ConfigMsg c)) \<and>
   length (serialize_to_string m) = serialized_size m"
proof (intro conjI)
  show "length (serialize_to_string m) = serialized_size m"
    by (cases m) (simp_all add: base_serialize_to_string_def ack_serialize_to_string_def
        config_serialize_to_string_def codec_laws del: put_u8)
qed (simp_all add: ack_roundtrip config_roundtrip)

text \<open>
  C23: what the receiver of a message can observe. Nothing and an unknown type byte give \<open>nullptr\<close>; a
  complete ACK or configuration message gives the message its first bytes encode; an ACK or a
  configuration message that is cut short gives neither: the parser throws \<open>out_of_range\<close>.
\<close>

theorem msg_parse_outcome:
  "case binary of
     [] \<Rightarrow> msg_parse_from_string binary = Inr None
   | t # body \<Rightarrow>
      (if t = MSG_ACK then
         (if length body < 14 then \<exists>e. msg_parse_from_string binary = Inl (Out_Of_Range e)
          else \<exists>a. msg_parse_from_string binary = Inr (Some (AckMsg a)) \<and>
            serialize_to_string (AckMsg a) = take 15 binary)
       else if t = MSG_CONFIG then
         (if length body < 10 then \<exists>e. msg_parse_from_string binary = Inl (Out_Of_Range e)
          else \<exists>c. msg_parse_from_string binary = Inr (Some (ConfigMsg c)) \<and>
            serialize_to_string (ConfigMsg c) = take 11 binary)
       else msg_parse_from_string binary = Inr None)"
proof (cases binary)
  case Nil
  then show ?thesis by (simp add: msg_parse_from_string_def sizeof_def)
next
  case (Cons t body)
  consider (ack) "t = MSG_ACK" | (config) "t = MSG_CONFIG" | (other) "t \<noteq> MSG_ACK" "t \<noteq> MSG_CONFIG"
    by blast
  then show ?thesis
  proof cases
    case ack
    show ?thesis
    proof (cases "length body < 14")
      case True
      with ack Cons show ?thesis
        using ack_parse [of body] ack_body.both.get_short [of body] by auto
    next
      case False
      then obtain x where
        "read_pair read_uint32 (read_pair read_uint16 read_uint64) body = (Inr x, drop 14 body)"
        "put_pair put_number (put_pair put_number put_number) x = take 14 body"
        using ack_body.both.get_long [of body] by auto
      moreover obtain f g s where "x = (f, g, s)" by (cases x)
      ultimately show ?thesis
        using False ack Cons ack_parse [of body] by (simp add: ack_serialize_layout)
    qed
  next
    case config
    show ?thesis
    proof (cases "length body < 10")
      case True
      with config Cons show ?thesis
        using config_parse [of body] config_body.both.get_short [of body]
        by (auto simp: MSG_ACK_def MSG_CONFIG_def)
    next
      case False
      then obtain x where
        "read_pair read_uint16 (read_pair read_uint16 (read_pair read_uint16 read_uint32)) body =
           (Inr x, drop 10 body)"
        "put_pair put_number (put_pair put_number (put_pair put_number put_number)) x = take 10 body"
        using config_body.both.get_long [of body] by auto
      moreover obtain w h r b where "x = (w, h, r, b)" by (cases x)
      ultimately show ?thesis
        using False config Cons config_parse [of body]
        by (simp add: config_serialize_layout MSG_ACK_def MSG_CONFIG_def)
    qed
  next
    case other
    have "read_uint8 (t # body) = (Inr t, body)" using w8.get_put [of t body] by simp
    with other Cons show ?thesis
      by (simp add: msg_parse_from_string_def sizeof_def bind_action_def return_action_def)
  qed
qed

end
