(* ===== verification/Ordered_Map.thy ===== *)
theory Ordered_Map
  imports Prelude
begin

text \<open>
  The model of \<open>std::map\<close>, the container behind \<open>Encoder::unacked_\<close> and \<open>Decoder::frame_buf_\<close>:
  an association list kept strictly sorted by key, so that iteration, \<open>begin()\<close>, reverse iteration
  and \<open>erase\<close> behave as the standard says. The locale \<open>ordered_map\<close> states the laws the encoder
  and the decoder rely on; it is interpreted on the operations below.
\<close>

section \<open>Operations\<close>

type_synonym ('k, 'v) omap = "('k \<times> 'v) list"

definition om_wf :: "('k::linorder, 'v) omap \<Rightarrow> bool" where
  "om_wf m = sorted_wrt (<) (map fst m)"

definition om_find :: "('k, 'v) omap \<Rightarrow> 'k \<Rightarrow> 'v option" where
  "om_find m k = map_of m k"

text \<open>\<open>emplace\<close> inserts only when the key is absent, and says whether it did.\<close>

fun om_insert :: "'k::linorder \<Rightarrow> 'v \<Rightarrow> ('k, 'v) omap \<Rightarrow> ('k, 'v) omap" where
  "om_insert k v [] = [(k, v)]"
| "om_insert k v ((k', v') # m) =
     (if k < k' then (k, v) # (k', v') # m
      else if k = k' then (k, v) # m
      else (k', v') # om_insert k v m)"

definition om_emplace :: "'k::linorder \<Rightarrow> 'v \<Rightarrow> ('k, 'v) omap \<Rightarrow> ('k, 'v) omap \<times> bool" where
  "om_emplace k v m =
     (case om_find m k of Some _ \<Rightarrow> (m, False) | None \<Rightarrow> (om_insert k v m, True))"

definition om_erase :: "'k \<Rightarrow> ('k, 'v) omap \<Rightarrow> ('k, 'v) omap" where
  "om_erase k m = filter (\<lambda>(k', v). k' \<noteq> k) m"

text \<open>The entries strictly before, and from, an iterator that points to key \<open>k\<close>.\<close>

definition om_before :: "'k::linorder \<Rightarrow> ('k, 'v) omap \<Rightarrow> ('k, 'v) omap" where
  "om_before k m = takeWhile (\<lambda>(k', v). k' < k) m"

definition om_from :: "'k::linorder \<Rightarrow> ('k, 'v) omap \<Rightarrow> ('k, 'v) omap" where
  "om_from k m = dropWhile (\<lambda>(k', v). k' < k) m"

section \<open>The interface\<close>

locale ordered_map =
  fixes wf :: "'m \<Rightarrow> bool"
    and entries :: "'m \<Rightarrow> ('k::linorder \<times> 'v) list"
    and find :: "'m \<Rightarrow> 'k \<Rightarrow> 'v option"
    and emplace :: "'k \<Rightarrow> 'v \<Rightarrow> 'm \<Rightarrow> 'm \<times> bool"
    and erase :: "'k \<Rightarrow> 'm \<Rightarrow> 'm"
  assumes entries_sorted: "wf m \<Longrightarrow> sorted_wrt (<) (map fst (entries m))"
    and find_entries: "wf m \<Longrightarrow> find m k = map_of (entries m) k"
    and emplace_present: "wf m \<Longrightarrow> find m k = Some w \<Longrightarrow> emplace k v m = (m, False)"
    and emplace_absent: "wf m \<Longrightarrow> find m k = None \<Longrightarrow>
      snd (emplace k v m) \<and> find (fst (emplace k v m)) = (find m)(k \<mapsto> v)"
    and wf_emplace: "wf m \<Longrightarrow> wf (fst (emplace k v m))"
    and find_erase: "wf m \<Longrightarrow> find (erase k m) = (find m)(k := None)"
    and wf_erase: "wf m \<Longrightarrow> wf (erase k m)"
begin

lemma distinct_keys: "wf m \<Longrightarrow> distinct (map fst (entries m))"
  by (metis entries_sorted strict_sorted_iff)

lemma find_Some_iff: "wf m \<Longrightarrow> find m k = Some v \<longleftrightarrow> (k, v) \<in> set (entries m)"
  by (simp add: find_entries distinct_keys)

lemma find_None_iff: "wf m \<Longrightarrow> find m k = None \<longleftrightarrow> k \<notin> fst ` set (entries m)"
  by (simp add: find_entries map_of_eq_None_iff)

lemma begin_least:
  assumes "wf m" and "entries m = (k, v) # rest" and "(k', v') \<in> set (entries m)"
  shows "k \<le> k'"
  using entries_sorted [OF assms(1)] assms(2,3) by (auto intro: less_imp_le)

lemma emplace_success_iff: "wf m \<Longrightarrow> snd (emplace k v m) \<longleftrightarrow> find m k = None"
  by (cases "find m k") (auto simp: emplace_present emplace_absent)

lemma emplace_entries:
  assumes "wf m" and "find m k = None"
  shows "set (entries (fst (emplace k v m))) = insert (k, v) (set (entries m))"
proof -
  have "(k', v') \<in> set (entries (fst (emplace k v m))) \<longleftrightarrow> (k', v') = (k, v) \<or> (k', v') \<in> set (entries m)"
    for k' v'
    using assms emplace_absent [OF assms, of v] wf_emplace [OF assms(1), of k v]
    by (auto simp: find_Some_iff [symmetric])
  then show ?thesis by auto
qed

lemma erase_entries:
  assumes "wf m"
  shows "set (entries (erase k m)) = {(k', v) \<in> set (entries m). k' \<noteq> k}"
proof -
  have "(k', v) \<in> set (entries (erase k m)) \<longleftrightarrow> (k', v) \<in> set (entries m) \<and> k' \<noteq> k" for k' v
    using assms find_erase [OF assms] wf_erase [OF assms]
    by (auto simp: find_Some_iff [symmetric])
  then show ?thesis by auto
qed

lemma emplace_after_erase:
  assumes "wf m"
  shows "snd (emplace k v (erase k m))"
  using assms by (simp add: emplace_success_iff wf_erase find_erase)

end

section \<open>The operations satisfy the interface\<close>

lemma om_wf_Nil [simp]: "om_wf []"
  by (simp add: om_wf_def)

lemma om_wf_Cons: "om_wf ((k, v) # m) \<longleftrightarrow> (\<forall>k' \<in> fst ` set m. k < k') \<and> om_wf m"
  by (auto simp: om_wf_def)

lemma om_wf_append:
  "om_wf (m @ n) \<longleftrightarrow> om_wf m \<and> om_wf n \<and> (\<forall>x \<in> fst ` set m. \<forall>y \<in> fst ` set n. x < y)"
  by (auto simp: om_wf_def sorted_wrt_append)

lemma om_wf_map_values:
  "map fst n = map fst m \<Longrightarrow> om_wf n \<longleftrightarrow> om_wf m"
  by (simp add: om_wf_def)

lemma set_om_insert:
  "om_wf m \<Longrightarrow> om_find m k = None \<Longrightarrow> set (om_insert k v m) = insert (k, v) (set m)"
  by (induction k v m rule: om_insert.induct)
    (auto simp: om_wf_Cons om_find_def split: if_splits)

lemma fst_set_om_insert: "fst ` set (om_insert k v m) = insert k (fst ` set m)"
  by (induction k v m rule: om_insert.induct) auto

lemma om_wf_insert: "om_wf m \<Longrightarrow> om_wf (om_insert k v m)"
proof (induction k v m rule: om_insert.induct)
  case (2 k v k' v' m)
  then show ?case
    by (auto simp: om_wf_Cons fst_set_om_insert simp del: image_insert)
qed (simp add: om_wf_Cons)

lemma om_find_insert: "om_find (om_insert k v m) = (om_find m)(k \<mapsto> v)"
  by (induction k v m rule: om_insert.induct) (auto simp: om_find_def fun_eq_iff)

lemma om_wf_filter: "om_wf m \<Longrightarrow> om_wf (filter P m)"
  by (induction m) (auto simp: om_wf_Cons)

lemma om_find_filter:
  "om_find (filter (\<lambda>(k', v). P k') m) k = (if P k then om_find m k else None)"
  by (induction m) (auto simp: om_find_def)

interpretation om: ordered_map om_wf "\<lambda>m. m" om_find om_emplace om_erase
proof unfold_locales
  fix m :: "('a, 'b) omap" and k v w
  show "om_wf m \<Longrightarrow> sorted_wrt (<) (map fst m)"
    by (simp add: om_wf_def)
  show "om_find m k = map_of m k"
    by (simp add: om_find_def)
  show "om_find m k = Some w \<Longrightarrow> om_emplace k v m = (m, False)"
    by (simp add: om_emplace_def)
  show "om_find m k = None \<Longrightarrow>
      snd (om_emplace k v m) \<and> om_find (fst (om_emplace k v m)) = (om_find m)(k \<mapsto> v)"
    by (simp add: om_emplace_def om_find_insert)
  show "om_wf m \<Longrightarrow> om_wf (fst (om_emplace k v m))"
    by (simp add: om_emplace_def om_wf_insert split: option.split)
  show "om_find (om_erase k m) = (om_find m)(k := None)"
    by (auto simp: om_erase_def fun_eq_iff om_find_filter)
  show "om_wf m \<Longrightarrow> om_wf (om_erase k m)"
    by (simp add: om_erase_def om_wf_filter)
qed

section \<open>Splitting at an iterator\<close>

lemma om_before_from [simp]: "om_before k m @ om_from k m = m"
  by (simp add: om_before_def om_from_def)

lemma om_before_filter: "om_wf m \<Longrightarrow> om_before k m = filter (\<lambda>(k', v). k' < k) m"
proof (induction m)
  case (Cons a m)
  obtain k' v where a: "a = (k', v)" by (cases a)
  show ?case
  proof (cases "k' < k")
    case True
    with Cons show ?thesis by (simp add: a om_before_def om_wf_Cons)
  next
    case False
    with Cons.prems have "\<forall>x \<in> fst ` set m. \<not> x < k"
      by (force simp: a om_wf_Cons)
    then have "filter (\<lambda>(k', v). k' < k) m = []"
      by (auto simp: filter_empty_conv)
    with False show ?thesis by (simp add: a om_before_def)
  qed
qed (simp add: om_before_def)

lemma om_from_filter: "om_wf m \<Longrightarrow> om_from k m = filter (\<lambda>(k', v). k \<le> k') m"
proof (induction m)
  case (Cons a m)
  obtain k' v where a: "a = (k', v)" by (cases a)
  show ?case
  proof (cases "k' < k")
    case True
    with Cons show ?thesis by (simp add: a om_from_def om_wf_Cons)
  next
    case False
    with Cons.prems have "\<forall>x \<in> fst ` set m. k \<le> x"
      by (force simp: a om_wf_Cons)
    then have "filter (\<lambda>(k', v). k \<le> k') m = m"
      by (auto simp: filter_id_conv)
    with False show ?thesis by (simp add: a om_from_def)
  qed
qed (simp add: om_from_def)

lemma om_before_less: "(k', v) \<in> set (om_before k m) \<Longrightarrow> k' < k"
  by (auto simp: om_before_def dest: set_takeWhileD)

lemma om_from_found:
  assumes "om_wf m" and "om_find m k = Some v"
  shows "om_from k m = (k, v) # filter (\<lambda>(k', v'). k < k') m"
  using assms
proof (induction m)
  case (Cons a m)
  obtain k' v' where a: "a = (k', v')" by (cases a)
  show ?case
  proof (cases "k' = k")
    case True
    with Cons.prems have "\<forall>x \<in> fst ` set m. k < x" and "v' = v"
      by (auto simp: a om_wf_Cons om_find_def)
    then have "filter (\<lambda>(k', v'). k < k') m = m"
      by (auto simp: filter_id_conv)
    with True \<open>v' = v\<close> show ?thesis by (simp add: a om_from_def)
  next
    case False
    with Cons.prems have found: "om_find m k = Some v" and wf: "om_wf m"
      by (auto simp: a om_wf_Cons om_find_def)
    then have "(k, v) \<in> set m" by (simp add: om_find_def map_of_SomeD)
    with Cons.prems(1) have "k' < k" by (force simp: a om_wf_Cons)
    with Cons.IH [OF wf found] show ?thesis by (simp add: a om_from_def)
  qed
qed (simp add: om_find_def)

lemma om_erase_before:
  assumes "\<And>p. fst (f p) = fst p"
  shows "om_erase k (map f (om_before k m)) = map f (om_before k m)"
  unfolding om_erase_def
proof (rule filter_True, intro ballI)
  fix p assume "p \<in> set (map f (om_before k m))"
  then have "fst p < k" using assms by (auto dest: om_before_less)
  then show "case p of (k', v) \<Rightarrow> k' \<noteq> k" by (simp add: case_prod_unfold)
qed

lemma om_erase_from:
  "om_wf m \<Longrightarrow> om_erase k (om_from k m) = filter (\<lambda>(k', v). k < k') m"
  by (auto simp: om_erase_def om_from_filter intro!: filter_cong)

text \<open>Updating the values before an iterator and then erasing the entry it points to.\<close>

lemma om_erase_update_before:
  assumes "om_wf m" and "\<And>p. fst (f p) = fst p"
  shows "om_erase k (map f (om_before k m) @ om_from k m) =
    map f (om_before k m) @ filter (\<lambda>(k', v). k < k') m"
proof -
  have "om_erase k (xs @ ys) = om_erase k xs @ om_erase k ys" for xs ys :: "('a, 'b) omap"
    by (simp add: om_erase_def)
  then show ?thesis using om_erase_before [OF assms(2)] om_erase_from [OF assms(1)] by simp
qed

lemma om_erase_split:
  "om_wf m \<Longrightarrow> om_erase k m = om_before k m @ filter (\<lambda>(k', v). k < k') m"
  using om_erase_update_before [of m "\<lambda>p. p" k] by simp

end
