(* ===== verification/Floating.thy ===== *)
theory Floating
  imports Prelude "HOL-Library.Log_Nat"
begin

text \<open>
  The \<open>double\<close> arithmetic of the RTT estimator and of the timing statistics. A finite double is a
  rational; every operation of the code is the exact one followed by \<open>fl\<close>, rounding to nearest with
  ties to even at 53 bits of precision, as IEEE 754 binary64 prescribes. The exponent is not bounded:
  overflow and subnormal numbers, which the quantities of this program stay far from, are not
  modelled, nor are infinities, NaN and the sign of a zero.
\<close>

section \<open>Rounding\<close>

type_synonym double = rat

definition round_half_even :: "rat \<Rightarrow> int" where
  "round_half_even x =
     (let f = \<lfloor>x\<rfloor>; d = x - of_int f
      in if d < 1 / 2 \<or> d = 1 / 2 \<and> even f then f else f + 1)"

text \<open>The exponent of a positive number: \<open>2 powi e \<le> x < 2 powi (e + 1)\<close>.\<close>

definition exponent :: "rat \<Rightarrow> int" where
  "exponent x =
     (let (p, q) = quotient_of x; k = bitlen p - bitlen q
      in if 2 powi k \<le> x then k else k - 1)"

definition fl_pos :: "rat \<Rightarrow> double" where
  "fl_pos x = (let ulp = 2 powi (exponent x - 52) in of_int (round_half_even (x / ulp)) * ulp)"

definition fl :: "rat \<Rightarrow> double" where
  "fl x = (if x = 0 then 0 else if x > 0 then fl_pos x else - fl_pos (- x))"

text \<open>The arithmetic the code uses, and the conversion of an unsigned integer to \<open>double\<close>.\<close>

definition double_of_nat :: "nat \<Rightarrow> double" where
  "double_of_nat n = fl (of_nat n)"

definition double_add :: "double \<Rightarrow> double \<Rightarrow> double" where
  "double_add x y = fl (x + y)"

definition double_sub :: "double \<Rightarrow> double \<Rightarrow> double" where
  "double_sub x y = fl (x - y)"

definition double_mul :: "double \<Rightarrow> double \<Rightarrow> double" where
  "double_mul x y = fl (x * y)"

definition double_div :: "double \<Rightarrow> double \<Rightarrow> double" where
  "double_div x y = fl (x / y)"

section \<open>Rounding to an integer\<close>

lemma round_half_even_floor:
  "\<lfloor>x\<rfloor> \<le> round_half_even x \<and> round_half_even x \<le> \<lfloor>x\<rfloor> + 1"
  by (simp add: round_half_even_def Let_def)

lemma round_half_even_of_int [simp]: "round_half_even (of_int n) = n"
  by (simp add: round_half_even_def)

lemma round_half_even_mono:
  assumes "x \<le> y"
  shows "round_half_even x \<le> round_half_even y"
proof (cases "\<lfloor>x\<rfloor> = \<lfloor>y\<rfloor>")
  case True
  then show ?thesis using assms by (auto simp: round_half_even_def Let_def)
next
  case False
  then have "\<lfloor>x\<rfloor> + 1 \<le> \<lfloor>y\<rfloor>" using floor_mono [OF assms] by simp
  then show ?thesis using round_half_even_floor [of x] round_half_even_floor [of y] by linarith
qed

lemma round_half_even_error: "\<bar>of_int (round_half_even x) - x\<bar> \<le> 1 / 2"
proof -
  have "of_int \<lfloor>x\<rfloor> \<le> x" "x < of_int \<lfloor>x\<rfloor> + 1" by linarith+
  then show ?thesis
    by (simp only: round_half_even_def Let_def abs_if of_int_add of_int_1 split: if_splits) linarith
qed

section \<open>The exponent\<close>

lemma powi_strict: "a < b \<Longrightarrow> (2 :: rat) powi a < 2 powi b"
  by (rule power_int_strict_increasing) simp_all

lemma powi_mono: "a \<le> b \<Longrightarrow> (2 :: rat) powi a \<le> 2 powi b"
  by (rule power_int_increasing) simp_all

lemma powi_less_iff: "(2 :: rat) powi a < 2 powi b \<longleftrightarrow> a < b"
  using powi_strict powi_mono by (meson linorder_not_le)

lemma powi_pos: "0 < (2 :: rat) powi a"
  by (simp add: zero_less_power_int)

lemma powi_split: "(2 :: rat) powi (a + b) = 2 powi a * 2 powi b"
  by (simp add: power_int_add)

lemma powi_suc: "(2 :: rat) powi (a + 1) = 2 * 2 powi a"
  by (simp add: powi_split)

lemma bitlen_bounds_rat:
  assumes "0 < p"
  shows "2 powi (bitlen p - 1) \<le> (of_int p :: rat)" and "(of_int p :: rat) < 2 powi bitlen p"
proof -
  have pos: "1 \<le> bitlen p"
    using assms bitlen_eq_zero_iff [of p] bitlen_nonneg [of p] by linarith
  have "2 ^ nat (bitlen p - 1) \<le> p" "p < 2 ^ nat (bitlen p)"
    using bitlen_bounds [OF assms] by auto
  then have "of_int (2 ^ nat (bitlen p - 1)) \<le> (of_int p :: rat)"
    "(of_int p :: rat) < of_int (2 ^ nat (bitlen p))"
    by (simp_all only: of_int_le_iff of_int_less_iff)
  with pos show "2 powi (bitlen p - 1) \<le> (of_int p :: rat)" "(of_int p :: rat) < 2 powi bitlen p"
    by (simp_all add: power_int_nonneg_exp)
qed

lemma exponent_bounds:
  assumes "0 < x"
  shows "2 powi exponent x \<le> x \<and> x < 2 powi (exponent x + 1)"
proof -
  obtain p q where pq: "quotient_of x = (p, q)" by (cases "quotient_of x")
  then have q: "0 < q" by (rule quotient_of_denom_pos)
  then have q': "0 < (of_int q :: rat)" by simp
  have x: "x = of_int p / of_int q" using pq by (rule quotient_of_div)
  with assms q have p: "0 < p" by (simp add: zero_less_divide_iff)
  let ?k = "bitlen p - bitlen q"
  have "(2 :: rat) powi (?k - 1) * of_int q \<le> 2 powi (?k - 1) * 2 powi bitlen q"
    by (intro mult_left_mono less_imp_le bitlen_bounds_rat(2) [OF q] powi_pos)
  also have "\<dots> = 2 powi (bitlen p - 1)" by (simp flip: powi_split)
  also have "\<dots> \<le> of_int p" by (rule bitlen_bounds_rat(1) [OF p])
  finally have low: "2 powi (?k - 1) \<le> x" using q' by (simp add: x pos_le_divide_eq)
  have "of_int p < (2 :: rat) powi bitlen p" by (rule bitlen_bounds_rat(2) [OF p])
  also have "\<dots> = 2 powi (?k + 1) * 2 powi (bitlen q - 1)" by (simp flip: powi_split)
  also have "\<dots> \<le> 2 powi (?k + 1) * of_int q"
    by (intro mult_left_mono less_imp_le [OF powi_pos] bitlen_bounds_rat(1) [OF q])
  finally have high: "x < 2 powi (?k + 1)" using q' by (simp add: x pos_divide_less_eq)
  show ?thesis using low high by (simp add: exponent_def pq not_le Let_def)
qed

lemma exponent_mono:
  assumes "0 < x" and "x \<le> y"
  shows "exponent x \<le> exponent y"
proof -
  have "2 powi exponent x \<le> x" using exponent_bounds [OF assms(1)] by simp
  also have "\<dots> < 2 powi (exponent y + 1)" using exponent_bounds [of y] assms by simp
  finally show ?thesis by (simp add: powi_less_iff)
qed

section \<open>Rounding of positive numbers\<close>

lemma powi_ulp:
  "2 powi e = 2 ^ 52 * ((2 :: rat) powi (e - 52))"
  "2 powi (e + 1) = 2 ^ 53 * ((2 :: rat) powi (e - 52))"
  using powi_split [of 52 "e - 52"] powi_suc [of e] by simp_all

lemma significand_bounds:
  assumes "0 < x"
  shows "2 ^ 52 \<le> x / 2 powi (exponent x - 52) \<and> x / 2 powi (exponent x - 52) < 2 ^ 53"
proof -
  let ?u = "(2 :: rat) powi (exponent x - 52)"
  show ?thesis
    using powi_ulp [of "exponent x"] exponent_bounds [OF assms] powi_pos [of "exponent x - 52"]
    by (simp add: pos_le_divide_eq pos_divide_less_eq)
qed

lemma fl_pos_bounds:
  assumes "0 < x"
  shows "2 powi exponent x \<le> fl_pos x \<and> fl_pos x \<le> 2 powi (exponent x + 1)"
proof -
  let ?u = "(2 :: rat) powi (exponent x - 52)"
  let ?m = "round_half_even (x / ?u)"
  have "round_half_even (of_int (2 ^ 52)) \<le> ?m" "?m \<le> round_half_even (of_int (2 ^ 53))"
    using significand_bounds [OF assms] by (auto intro!: round_half_even_mono simp: less_imp_le)
  then have "2 ^ 52 \<le> ?m" "?m \<le> 2 ^ 53" by (simp_all only: round_half_even_of_int)
  then have "(of_int (2 ^ 52) :: rat) \<le> of_int ?m" "(of_int ?m :: rat) \<le> of_int (2 ^ 53)"
    by (simp_all only: of_int_le_iff)
  then show ?thesis
    unfolding powi_ulp [of "exponent x"] fl_pos_def Let_def using powi_pos [of "exponent x - 52"]
    by (simp add: mult_right_mono)
qed

lemma fl_pos_mono:
  assumes "0 < x" and "x \<le> y"
  shows "fl_pos x \<le> fl_pos y"
proof (cases "exponent x = exponent y")
  case True
  have "x / 2 powi (exponent x - 52) \<le> y / 2 powi (exponent x - 52)"
    using assms(2) powi_pos [of "exponent x - 52"] by (simp add: divide_right_mono less_imp_le)
  then have "(of_int (round_half_even (x / 2 powi (exponent x - 52))) :: rat) \<le>
      of_int (round_half_even (y / 2 powi (exponent x - 52)))"
    by (simp add: round_half_even_mono)
  then show ?thesis
    using True powi_pos [of "exponent y - 52"]
    by (simp add: fl_pos_def Let_def mult_right_mono less_imp_le)
next
  case False
  then have less: "exponent x + 1 \<le> exponent y" using exponent_mono [OF assms] by simp
  have "fl_pos x \<le> 2 powi (exponent x + 1)" using fl_pos_bounds [OF assms(1)] by simp
  also have "\<dots> \<le> 2 powi exponent y" by (rule powi_mono [OF less])
  also have "\<dots> \<le> fl_pos y" using fl_pos_bounds [of y] assms by simp
  finally show ?thesis .
qed

lemma fl_pos_error:
  assumes "0 < x"
  shows "\<bar>fl_pos x - x\<bar> \<le> x / 2 ^ 53"
proof -
  let ?u = "(2 :: rat) powi (exponent x - 52)"
  have u: "0 < ?u" by (rule powi_pos)
  have "fl_pos x - x = (of_int (round_half_even (x / ?u)) - x / ?u) * ?u"
    using u by (simp add: fl_pos_def Let_def left_diff_distrib)
  then have "\<bar>fl_pos x - x\<bar> = \<bar>of_int (round_half_even (x / ?u)) - x / ?u\<bar> * ?u"
    using u by (simp add: abs_mult)
  also have "\<dots> \<le> 1 / 2 * ?u"
    using u by (intro mult_right_mono round_half_even_error) simp
  also have "\<dots> \<le> x / 2 ^ 53"
    using significand_bounds [OF assms] u by (simp add: field_simps)
  finally show ?thesis .
qed

section \<open>Rounding\<close>

lemma fl_zero [simp]: "fl 0 = 0"
  by (simp add: fl_def)

lemma fl_mono: "x \<le> y \<Longrightarrow> fl x \<le> fl y"
proof -
  assume le: "x \<le> y"
  have pos: "0 < z \<Longrightarrow> 0 < fl_pos z" for z
    using fl_pos_bounds [of z] powi_pos [of "exponent z"] by linarith
  consider "0 < x" | "y < 0" | "x \<le> 0" "0 \<le> y" using le by linarith
  then show ?thesis
  proof cases
    case 1
    then show ?thesis using le fl_pos_mono [of x y] by (simp add: fl_def)
  next
    case 2
    then show ?thesis using le fl_pos_mono [of "- y" "- x"] by (simp add: fl_def)
  next
    case 3
    then have "fl x \<le> 0" "0 \<le> fl y" using pos [of "- x"] pos [of y] by (auto simp: fl_def)
    then show ?thesis by linarith
  qed
qed

lemma fl_nonneg: "0 \<le> x \<Longrightarrow> 0 \<le> fl x"
  using fl_mono [of 0 x] by simp

lemma fl_error: "\<bar>fl x - x\<bar> \<le> \<bar>x\<bar> / 2 ^ 53"
proof -
  have "\<bar>- fl_pos (- x) - x\<bar> \<le> - x / 2 ^ 53" if "x < 0"
    using fl_pos_error [of "- x"] that by (simp add: abs_minus_commute add.commute)
  then show ?thesis using fl_pos_error [of x] by (auto simp: fl_def)
qed

text \<open>Integers up to 53 bits, such as every \<open>unsigned int\<close>, are doubles.\<close>

lemma fl_of_nat:
  assumes "n < 2 ^ 53"
  shows "fl (of_nat n) = of_nat n"
proof (cases "n = 0")
  case False
  let ?x = "of_nat n :: rat"
  let ?e = "exponent ?x"
  have x: "0 < ?x" using False by simp
  have "(2 :: rat) powi ?e \<le> ?x" using exponent_bounds [OF x] by simp
  also have "\<dots> < of_nat (2 ^ 53)" using assms by (simp only: of_nat_less_iff)
  also have "\<dots> = (2 :: rat) powi 53" by simp
  finally have high: "?e < 53" by (simp only: powi_less_iff)
  have "1 \<le> ?x" using False by simp
  also have "\<dots> < 2 powi (?e + 1)" using exponent_bounds [OF x] by simp
  finally have "(2 :: rat) powi 0 < 2 powi (?e + 1)" by simp
  then have low: "0 \<le> ?e" by (simp only: powi_less_iff)
  let ?k = "nat (52 - ?e)"
  have ulp: "2 powi (?e - 52) = 1 / (2 :: rat) ^ ?k"
    using high power_int_minus_divide [of "2 :: rat" "52 - ?e"] by (simp add: power_int_nonneg_exp)
  have "?x / 2 powi (?e - 52) = of_int (int n * 2 ^ ?k)" by (simp add: ulp)
  then have "fl_pos ?x = ?x"
    unfolding fl_pos_def Let_def by (simp only: round_half_even_of_int) (simp add: ulp)
  then show ?thesis using x by (simp add: fl_def)
qed simp

lemma double_of_nat_exact: "n < 2 ^ 53 \<Longrightarrow> double_of_nat n = of_nat n"
  by (simp add: double_of_nat_def fl_of_nat)

lemma double_of_u32: "double_of_nat (unat (w :: u32)) = of_nat (unat w)"
proof -
  have "unat w < 2 ^ LENGTH(32)" by (rule unsigned_less)
  then show ?thesis by (intro double_of_nat_exact) simp
qed

end
