(* ===== verification/Exceptions.thy ===== *)
theory Exceptions
  imports Prelude
begin

text \<open>
  The error-checking wrappers of \<open>src/util/exception.hh\<close>, through which every system call and
  every library call of the program passes.
\<close>

section \<open>System calls\<close>

text \<open>
  \<open>check_syscall\<close> takes an \<open>int\<close>: a wider return value (\<open>ssize_t\<close> of \<open>read\<close>, \<open>off_t\<close> of
  \<open>lseek\<close>) is first converted to 32 bits, which \<open>as_int\<close> writes out.
\<close>

definition as_int :: "int \<Rightarrow> int" where
  "as_int v = signed_take_bit 31 v"

definition check_syscall :: "int \<Rightarrow> int result" where
  "check_syscall return_value =
     (let v = as_int return_value in if v \<ge> 0 then Inr v else Inl (Unix_Error ''''))"

definition check_syscall_tag :: "int \<Rightarrow> string \<Rightarrow> int result" where
  "check_syscall_tag return_value tag =
     (let v = as_int return_value in if v \<ge> 0 then Inr v else Inl (Unix_Error tag))"

definition check_call :: "'a \<Rightarrow> 'a \<Rightarrow> string \<Rightarrow> unit result" where
  "check_call actual_return expected_return error_msg =
     (if actual_return \<noteq> expected_return then Inl (Runtime_Error error_msg) else Inr ())"

section \<open>Facts\<close>

lemma as_int_id: "- (2 ^ 31) \<le> v \<Longrightarrow> v < 2 ^ 31 \<Longrightarrow> as_int v = v"
  by (simp add: as_int_def signed_take_bit_int_eq_self)

lemma as_int_range: "- (2 ^ 31) \<le> as_int v \<and> as_int v < 2 ^ 31"
  using signed_take_bit_int_greater_eq_minus_exp [of 31 v] signed_take_bit_int_less_exp [of 31 v]
  by (simp add: as_int_def)

lemma as_int_high: "2 ^ 31 \<le> v \<Longrightarrow> v < 2 ^ 32 \<Longrightarrow> as_int v = v - 2 ^ 32"
proof -
  assume v: "2 ^ 31 \<le> v" "v < 2 ^ 32"
  have "signed_take_bit 31 v = signed_take_bit 31 (v - 2 ^ 32)"
    by (rule signed_take_bit_eq_iff_take_bit_eq [THEN iffD2]) (simp add: take_bit_eq_mod)
  also have "\<dots> = v - 2 ^ 32"
    using v by (intro signed_take_bit_int_eq_self) simp_all
  finally show ?thesis by (simp add: as_int_def)
qed

lemma check_syscall_int:
  "- (2 ^ 31) \<le> v \<Longrightarrow> v < 2 ^ 31 \<Longrightarrow>
   check_syscall v = (if v \<ge> 0 then Inr v else Inl (Unix_Error ''''))"
  by (simp add: check_syscall_def as_int_id)

lemma check_call_Inr_iff [simp]: "check_call a b msg = Inr x \<longleftrightarrow> a = b"
  by (simp add: check_call_def)

end
