(* ===== verification/Conversion.thy ===== *)
theory Conversion
  imports Exceptions
begin

text \<open>
  The model of \<open>src/util/conversion.hh\<close> and \<open>conversion.cc\<close>: checked narrowing of integers and
  strict parsing of decimal strings, with the parts of the C++ library they rest on (\<open>std::stoi\<close>,
  \<open>std::stoll\<close>, \<open>std::to_string\<close>, integral conversions). \<open>double_to_string\<close> is in the theory \<open>Decimal\<close>.
\<close>

section \<open>Integral conversions\<close>

text \<open>An integral type is its signedness and its width; its values are integers in its range.\<close>

datatype int_type = Int_Type (is_signed: bool) (bits: nat)

definition in_range :: "int_type \<Rightarrow> int \<Rightarrow> bool" where
  "in_range t v =
     (if is_signed t then - (2 ^ (bits t - 1)) \<le> v \<and> v < 2 ^ (bits t - 1)
      else 0 \<le> v \<and> v < 2 ^ bits t)"

definition static_cast :: "int_type \<Rightarrow> int \<Rightarrow> int" where
  "static_cast t v = (if is_signed t then signed_take_bit (bits t - 1) v else take_bit (bits t) v)"

definition narrow_cast :: "int_type \<Rightarrow> int_type \<Rightarrow> int \<Rightarrow> int result" where
  "narrow_cast Target Source s =
     (let t = static_cast Target s in
      if static_cast Source t \<noteq> s then Inl (Runtime_Error ''narrow_cast'') else Inr t)"

abbreviation "int_t \<equiv> Int_Type True 32"
abbreviation "unsigned_t \<equiv> Int_Type False 32"
abbreviation "uint16_t \<equiv> Int_Type False 16"
abbreviation "uint64_t \<equiv> Int_Type False 64"

section \<open>Parsing integers\<close>

definition is_space :: "u8 \<Rightarrow> bool" where
  "is_space c = (c = 32 \<or> 9 \<le> c \<and> c \<le> 13)"

text \<open>The value of a character as a digit; 36 when it is none.\<close>

definition digit_value :: "u8 \<Rightarrow> nat" where
  "digit_value c =
     (if 48 \<le> c \<and> c \<le> 57 then unat c - 48
      else if 97 \<le> c \<and> c \<le> 122 then unat c - 87
      else if 65 \<le> c \<and> c \<le> 90 then unat c - 55
      else 36)"

definition digits_value :: "nat \<Rightarrow> bytes \<Rightarrow> nat" where
  "digits_value base ds = foldl (\<lambda>a d. a * base + digit_value d) 0 ds"

fun sign_of :: "bytes \<Rightarrow> bool \<times> nat" where
  "sign_of [] = (False, 0)"
| "sign_of (c # s) = (if c = 45 then (True, 1) else if c = 43 then (False, 1) else (False, 0))"

text \<open>The base that is in force and the length of the prefix that selects it.\<close>

fun base_prefix :: "nat \<Rightarrow> bytes \<Rightarrow> nat \<times> nat" where
  "base_prefix base (c # x # h # s) =
     (if (base = 0 \<or> base = 16) \<and> c = 48 \<and> (x = 88 \<or> x = 120) \<and> digit_value h < 16 then (16, 2)
      else if base = 0 then (if c = 48 then 8 else 10, 0) else (base, 0))"
| "base_prefix base (c # s) = (if base = 0 then (if c = 48 then 8 else 10, 0) else (base, 0))"
| "base_prefix base [] = (if base = 0 then (10, 0) else (base, 0))"

text \<open>
  The longest prefix \<open>strtoll\<close> converts: its value and the number of characters used, or None when
  nothing was converted. A NUL ends the scan, as it is neither space, sign nor digit.
\<close>

definition parse_integer :: "nat \<Rightarrow> bytes \<Rightarrow> (int \<times> nat) option" where
  "parse_integer base str =
     (let ws = takeWhile is_space str;
          s1 = dropWhile is_space str;
          (neg, sg) = sign_of s1;
          s2 = drop sg s1;
          (b, pre) = base_prefix base s2;
          ds = takeWhile (\<lambda>c. digit_value c < b) (drop pre s2);
          v = int (digits_value b ds)
      in if ds = [] then None
         else Some (if neg then - v else v, length ws + sg + pre + length ds))"

definition valid_base :: "nat \<Rightarrow> bool" where
  "valid_base base = (base = 0 \<or> 2 \<le> base \<and> base \<le> 36)"

definition std_stoi :: "int_type \<Rightarrow> string \<Rightarrow> bytes \<Rightarrow> nat \<Rightarrow> (int \<times> nat) result" where
  "std_stoi t name str base =
     (if \<not> valid_base base then Inl (Undefined_Behaviour ''base of strtol'')
      else case parse_integer base str of
        None \<Rightarrow> Inl (Invalid_Argument name)
      | Some (v, pos) \<Rightarrow> if in_range t v then Inr (v, pos) else Inl (Out_Of_Range name))"

definition strict_stoi :: "bytes \<Rightarrow> nat \<Rightarrow> int result" where
  "strict_stoi str base =
     bind_result (std_stoi int_t ''stoi'' str base)
       (\<lambda>(ret, pos). if pos \<noteq> length str then Inl (Runtime_Error ''strict_stoi'') else Inr ret)"

text \<open>\<open>strict_stoll\<close> stores the \<open>long long\<close> result of \<open>stoll\<close> in an \<open>int\<close>.\<close>

definition strict_stoll :: "bytes \<Rightarrow> nat \<Rightarrow> int result" where
  "strict_stoll str base =
     bind_result (std_stoi (Int_Type True 64) ''stoll'' str base)
       (\<lambda>(v, pos). let ret = as_int v in
          if pos \<noteq> length str then Inl (Runtime_Error ''strict_stoll'') else Inr ret)"

fun to_string :: "nat \<Rightarrow> bytes" where
  "to_string n =
     (if n < 10 then [48 + word_of_nat n] else to_string (n div 10) @ [48 + word_of_nat (n mod 10)])"

declare to_string.simps [simp del]

section \<open>Checked narrowing\<close>

lemma narrow_cast_narrower:
  assumes "in_range Source s" and "\<not> is_signed Target" and "bits Target < bits Source"
  shows "narrow_cast Target Source s =
    (if in_range Target s then Inr s else Inl (Runtime_Error ''narrow_cast''))"
proof -
  let ?t = "take_bit (bits Target) s"
  have t: "0 \<le> ?t" "?t < 2 ^ bits Target" by simp_all
  have less: "bits Target \<le> bits Source - 1" using assms(3) by simp
  then have pow: "(2 :: int) ^ bits Target \<le> 2 ^ (bits Source - 1)"
    "(2 :: int) ^ bits Target \<le> 2 ^ bits Source"
    using assms(3) by (simp_all add: power_increasing)
  have return: "static_cast Source ?t = ?t"
  proof (cases "is_signed Source")
    case True
    have "- (2 ^ (bits Source - 1)) \<le> ?t" using t(1) by (meson neg_le_0_iff_le order_trans zero_le_numeral zero_le_power)
    moreover have "?t < 2 ^ (bits Source - 1)" using t(2) pow(1) by linarith
    ultimately show ?thesis
      using True by (simp add: static_cast_def signed_take_bit_int_eq_self)
  next
    case False
    have "?t < 2 ^ bits Source" using t(2) pow(2) by linarith
    with False t(1) show ?thesis
      using assms(3) by (simp add: static_cast_def take_bit_int_eq_self min_def)
  qed
  have "?t = s \<longleftrightarrow> in_range Target s"
    using assms(2) by (metis in_range_def t take_bit_int_eq_self)
  with return assms(2) show ?thesis
    by (simp add: narrow_cast_def static_cast_def [of Target])
qed

text \<open>
  Casting to a narrower unsigned type returns the value itself when the target type has it, and
  throws otherwise: no value is changed silently, in particular no negative one.
\<close>

lemma narrow_cast_exact:
  assumes "in_range Source s" and "\<not> is_signed Target" and "bits Target < bits Source"
  shows "narrow_cast Target Source s =
    (if in_range Target s then Inr s else Inl (Runtime_Error ''narrow_cast''))"
  using assms by (rule narrow_cast_narrower)

lemma narrow_cast_exact_witness:
  "narrow_cast uint16_t int_t (-1) = Inl (Runtime_Error ''narrow_cast'')"
  using narrow_cast_exact [of int_t "-1" uint16_t] by (simp add: in_range_def)

text \<open>
  Between types of the same width \<open>narrow_cast\<close> never throws, so every negative \<open>int\<close> is turned
  into a different, non-negative value although the cast is documented to assert that no precision
  is lost.
\<close>

lemma narrow_cast_same_width_silent:
  assumes "in_range int_t s" and "s < 0"
  shows "narrow_cast unsigned_t int_t s = Inr (s + 2 ^ 32)"
proof -
  have "take_bit 32 s = s + 2 ^ 32"
    using assms take_bit_minus_small_eq [of "- s" 32] by (simp add: in_range_def)
  moreover have "signed_take_bit 31 (take_bit 32 s) = s"
    using assms by (simp add: in_range_def signed_take_bit_take_bit signed_take_bit_int_eq_self)
  ultimately show ?thesis by (simp add: narrow_cast_def static_cast_def)
qed

lemma narrow_cast_same_width_silent_witness:
  "narrow_cast unsigned_t int_t (-1) = Inr 4294967295"
  using narrow_cast_same_width_silent [of "-1"] by (simp add: in_range_def)

section \<open>Strict parsing\<close>

lemma digit_value_decimal: "digit_value c < 10 \<longleftrightarrow> 48 \<le> c \<and> c \<le> 57"
  by (auto simp: digit_value_def word_le_nat_alt)

lemma digit_not_space: "digit_value c < 10 \<Longrightarrow> \<not> is_space c"
  by (auto simp: digit_value_decimal is_space_def word_le_nat_alt)

lemma sign_not_space: "\<not> is_space 43 \<and> \<not> is_space 45"
  by (simp add: is_space_def)

lemma digit_not_sign: "digit_value c < 10 \<Longrightarrow> c \<noteq> 43 \<and> c \<noteq> 45"
  by (auto simp: digit_value_decimal word_le_nat_alt)

text \<open>
  The decimal literals: blanks, an optional sign, and at least one digit, with nothing after it.
\<close>

definition int_literal :: "bytes \<Rightarrow> int \<Rightarrow> bool" where
  "int_literal str v = (\<exists>ws sg ds. str = ws @ sg @ ds \<and> (\<forall>c \<in> set ws. is_space c) \<and>
     (sg = [] \<or> sg = [43] \<or> sg = [45]) \<and> ds \<noteq> [] \<and> (\<forall>c \<in> set ds. digit_value c < 10) \<and>
     v = (if sg = [45] then - int (digits_value 10 ds) else int (digits_value 10 ds)))"

lemma base_prefix_10 [simp]: "base_prefix 10 s = (10, 0)"
  by (cases "(10 :: nat, s)" rule: base_prefix.cases) auto

lemma parse_integer_literal:
  assumes ws: "\<forall>c \<in> set ws. is_space c" and sg: "sg = [] \<or> sg = [43] \<or> sg = [45]"
    and ds: "ds \<noteq> []" "\<forall>c \<in> set ds. digit_value c < 10"
  shows "parse_integer 10 (ws @ sg @ ds) =
    Some (if sg = [45] then - int (digits_value 10 ds) else int (digits_value 10 ds),
      length (ws @ sg @ ds))"
proof -
  obtain d ds' where d: "ds = d # ds'" using ds(1) by (cases ds) auto
  have "\<not> is_space (hd (sg @ ds))"
    using sg ds(2) digit_not_space sign_not_space by (auto simp: d)
  then have split: "takeWhile is_space (ws @ sg @ ds) = ws" "dropWhile is_space (ws @ sg @ ds) = sg @ ds"
    using ws d by (cases "sg @ ds"; simp)+
  note all = takeWhile_eq_all_conv [THEN iffD2, OF ds(2)]
  have "d \<noteq> 43 \<and> d \<noteq> 45" using ds(2) by (simp add: d digit_not_sign)
  then have "sign_of (sg @ ds) = (sg = [45], length sg)" using sg by (auto simp: d)
  with split ds(1) show ?thesis by (simp add: parse_integer_def Let_def all)
qed

lemma parse_integer_whole:
  assumes "parse_integer 10 str = Some (v, length str)"
  shows "int_literal str v"
proof -
  let ?ws = "takeWhile is_space str" and ?s1 = "dropWhile is_space str"
  obtain neg n where sign: "sign_of ?s1 = (neg, n)" by (cases "sign_of ?s1")
  let ?s2 = "drop n ?s1"
  let ?ds = "takeWhile (\<lambda>c. digit_value c < 10) ?s2"
  from assms have ds: "?ds \<noteq> []" and v: "v = (if neg then - int (digits_value 10 ?ds) else int (digits_value 10 ?ds))"
    and len: "length ?ws + n + length ?ds = length str"
    by (auto simp: parse_integer_def sign Let_def split: if_splits)
  have sg: "(take n ?s1 = [] \<or> take n ?s1 = [43] \<or> take n ?s1 = [45]) \<and> (neg \<longleftrightarrow> take n ?s1 = [45])"
    using sign by (cases ?s1) (auto split: if_splits)
  have str: "str = ?ws @ take n ?s1 @ ?s2" by simp
  have "length str = length ?ws + length ?s1" by (metis length_append takeWhile_dropWhile_id)
  moreover have "n \<le> length ?s1" using sign by (cases ?s1) (auto split: if_splits)
  ultimately have "length ?ds = length ?s2" using len by simp
  then have "?ds = ?s2" by (metis append_eq_conv_conj takeWhile_dropWhile_id take_all_iff order_refl)
  then have digits: "\<forall>c \<in> set ?s2. digit_value c < 10" by (metis set_takeWhileD)
  have blanks: "\<forall>c \<in> set ?ws. is_space c" by (auto dest: set_takeWhileD)
  have "?s2 \<noteq> []" using ds \<open>?ds = ?s2\<close> by simp
  moreover have "v = (if take n ?s1 = [45] then - int (digits_value 10 ?s2)
      else int (digits_value 10 ?s2))"
    using v conjunct2 [OF sg] by (simp only: \<open>?ds = ?s2\<close>)
  ultimately show ?thesis
    unfolding int_literal_def using str blanks conjunct1 [OF sg] digits by blast
qed

text \<open>
  C38: \<open>strict_stoi\<close> in base 10 accepts exactly the decimal literals whose value fits in an \<open>int\<close>,
  and returns that value; anything before the blanks, after the digits, or out of range throws.
\<close>

theorem strict_stoi_decimal:
  "strict_stoi str 10 = Inr v \<longleftrightarrow> int_literal str v \<and> in_range int_t v"
proof
  assume "strict_stoi str 10 = Inr v"
  then have "parse_integer 10 str = Some (v, length str)" and "in_range int_t v"
    by (auto simp: strict_stoi_def std_stoi_def valid_base_def bind_result_Inr_iff
        split: option.splits if_splits)
  then show "int_literal str v \<and> in_range int_t v" using parse_integer_whole by blast
next
  assume "int_literal str v \<and> in_range int_t v"
  then show "strict_stoi str 10 = Inr v"
    using parse_integer_literal
    by (force simp: int_literal_def strict_stoi_def std_stoi_def valid_base_def)
qed

lemma digit_char: "d < 10 \<Longrightarrow> digit_value (48 + word_of_nat d) = d"
proof -
  assume "d < 10"
  then have "unat (48 + word_of_nat d :: u8) = 48 + d"
    by (simp add: unat_word_ariths unsigned_of_nat take_bit_eq_mod)
  with \<open>d < 10\<close> show ?thesis by (simp add: digit_value_def word_le_nat_alt)
qed

lemma to_string_digits:
  "to_string n \<noteq> [] \<and> (\<forall>c \<in> set (to_string n). digit_value c < 10) \<and>
   digits_value 10 (to_string n) = n"
proof (induction n rule: to_string.induct)
  case (1 n)
  show ?case
  proof (cases "n < 10")
    case True
    then show ?thesis by (subst (1 2 3) to_string.simps) (simp add: digits_value_def digit_char)
  next
    case False
    have "digit_value (48 + word_of_nat (n mod 10)) = n mod 10" by (rule digit_char) simp
    with False 1 show ?thesis
      by (subst (1 2 3) to_string.simps) (auto simp: digits_value_def)
  qed
qed

text \<open>
  A number written by \<open>std::to_string\<close> is read back by \<open>strict_stoi\<close> when it fits in an \<open>int\<close>,
  and makes it throw when it does not.
\<close>

lemma strict_stoi_to_string:
  "strict_stoi (to_string n) 10 =
     (if n < 2 ^ 31 then Inr (int n) else Inl (Out_Of_Range ''stoi''))"
  using parse_integer_literal [of "[]" "[]" "to_string n"] to_string_digits [of n]
  by (auto simp: strict_stoi_def std_stoi_def valid_base_def in_range_def)

text \<open>
  \<open>strict_stoll\<close> does not return the 64-bit number it parsed but that number reduced to 32 bits:
  from \<open>2 ^ 31\<close> on, the decimal text of a number is read back as a different one.
\<close>

lemma strict_stoll_truncates:
  assumes "n < 2 ^ 63"
  shows "strict_stoll (to_string n) 10 = Inr (as_int (int n)) \<and>
    (as_int (int n) = int n \<longleftrightarrow> n < 2 ^ 31)"
proof -
  have "strict_stoll (to_string n) 10 = Inr (as_int (int n))"
    using parse_integer_literal [of "[]" "[]" "to_string n"] to_string_digits [of n] assms
    by (auto simp: strict_stoll_def std_stoi_def valid_base_def in_range_def Let_def)
  moreover have "as_int (int n) = int n \<longleftrightarrow> n < 2 ^ 31"
    using as_int_range [of "int n"] as_int_id [of "int n"] by auto
  ultimately show ?thesis by blast
qed

lemma strict_stoll_truncates_witness:
  "strict_stoll (to_string 4294967297) 10 = Inr 1"
  using strict_stoll_truncates [of 4294967297] by (simp add: as_int_def)

end
