(* ===== verification/Image.thy ===== *)
theory Image
  imports Prelude
begin

text \<open>
  The model of \<open>src/video/image.hh\<close> and \<open>image.cc\<close>: an I420 image of libvpx with its three planes,
  and the routines that fill the planes from a planar or a YUYV buffer. The planes are the memory
  libvpx allocated; a write outside of it is undefined behaviour. The copies ignore the row strides,
  as the code does.
\<close>

section \<open>Images\<close>

record vpx_image =
  vpx_fmt :: int
  vpx_d_w :: u32
  vpx_d_h :: u32
  vpx_plane_y :: bytes
  vpx_plane_u :: bytes
  vpx_plane_v :: bytes

definition VPX_IMG_FMT_I420 :: int where
  "VPX_IMG_FMT_I420 = 0x102"

record raw_image =
  raw_vpx_img :: vpx_image
  raw_own_vpx_img :: bool
  raw_display_width :: u16
  raw_display_height :: u16

text \<open>\<open>vpx_img_alloc\<close> is a parameter: what it returns for the dimensions it is given.\<close>

definition raw_image_alloc :: "(u32 \<Rightarrow> u32 \<Rightarrow> vpx_image) \<Rightarrow> u16 \<Rightarrow> u16 \<Rightarrow> raw_image" where
  "raw_image_alloc vpx_img_alloc display_width display_height =
     \<lparr>raw_vpx_img = vpx_img_alloc (ucast display_width) (ucast display_height),
      raw_own_vpx_img = True, raw_display_width = display_width,
      raw_display_height = display_height\<rparr>"

definition raw_image_wrap :: "vpx_image option \<Rightarrow> raw_image result" where
  "raw_image_wrap vpx_img =
     (case vpx_img of
        None \<Rightarrow> Inl (Runtime_Error ''RawImage: unable to construct from a null vpx_img'')
      | Some img \<Rightarrow>
          if vpx_fmt img \<noteq> VPX_IMG_FMT_I420 then Inl (Runtime_Error ''RawImage: only supports I420'')
          else Inr \<lparr>raw_vpx_img = img, raw_own_vpx_img = False,
            raw_display_width = ucast (vpx_d_w img), raw_display_height = ucast (vpx_d_h img)\<rparr>)"

text \<open>The destructor frees an image that the class owns; \<open>vpx_img_free\<close> is a parameter.\<close>

definition raw_image_destroy :: "(vpx_image \<Rightarrow> 'w \<Rightarrow> 'w) \<Rightarrow> raw_image \<Rightarrow> 'w \<Rightarrow> 'w" where
  "raw_image_destroy vpx_img_free img w = (if raw_own_vpx_img img then vpx_img_free (raw_vpx_img img) w else w)"

text \<open>
  The product of two \<open>uint16_t\<close> is computed in \<open>int\<close>, where it can overflow.
\<close>

definition y_size :: "u16 \<Rightarrow> u16 \<Rightarrow> nat result" where
  "y_size width height =
     (if unat width * unat height < 2 ^ 31 then Inr (unat width * unat height)
      else Inl (Undefined_Behaviour ''int overflow in display_width_ * display_height_''))"

definition uv_size :: "u16 \<Rightarrow> u16 \<Rightarrow> nat result" where
  "uv_size width height = bind_result (y_size width height) (\<lambda>n. Inr (n div 4))"

section \<open>Copies\<close>

definition memcpy_plane :: "bytes \<Rightarrow> bytes \<Rightarrow> bytes result" where
  "memcpy_plane plane src =
     (if length src \<le> length plane then Inr (blit plane 0 src)
      else Inl (Undefined_Behaviour ''memcpy past the end of the plane''))"

definition copy_plane_from :: "string \<Rightarrow> nat result \<Rightarrow> bytes \<Rightarrow> bytes \<Rightarrow> bytes result" where
  "copy_plane_from msg sz plane src =
     bind_result sz (\<lambda>n.
       if length src \<noteq> n then Inl (Runtime_Error msg) else memcpy_plane plane src)"

definition copy_y_from :: "bytes \<Rightarrow> (raw_image, unit) action" where
  "copy_y_from src img =
     (case copy_plane_from ''RawImage: invalid size for Y plane''
        (y_size (raw_display_width img) (raw_display_height img)) (vpx_plane_y (raw_vpx_img img)) src of
        Inl e \<Rightarrow> (Inl e, img)
      | Inr y \<Rightarrow> (Inr (), img\<lparr>raw_vpx_img := (raw_vpx_img img)\<lparr>vpx_plane_y := y\<rparr>\<rparr>))"

definition copy_u_from :: "bytes \<Rightarrow> (raw_image, unit) action" where
  "copy_u_from src img =
     (case copy_plane_from ''RawImage: invalid size for U plane''
        (uv_size (raw_display_width img) (raw_display_height img)) (vpx_plane_u (raw_vpx_img img)) src of
        Inl e \<Rightarrow> (Inl e, img)
      | Inr u \<Rightarrow> (Inr (), img\<lparr>raw_vpx_img := (raw_vpx_img img)\<lparr>vpx_plane_u := u\<rparr>\<rparr>))"

definition copy_v_from :: "bytes \<Rightarrow> (raw_image, unit) action" where
  "copy_v_from src img =
     (case copy_plane_from ''RawImage: invalid size for V plane''
        (uv_size (raw_display_width img) (raw_display_height img)) (vpx_plane_v (raw_vpx_img img)) src of
        Inl e \<Rightarrow> (Inl e, img)
      | Inr v \<Rightarrow> (Inr (), img\<lparr>raw_vpx_img := (raw_vpx_img img)\<lparr>vpx_plane_v := v\<rparr>\<rparr>))"

text \<open>
  The loops of \<open>copy_from_yuyv\<close>: \<open>p\<close> is the offset of the read pointer in the source, \<open>dst\<close> the
  offset of the write pointers; every access is checked.
\<close>

primrec yuyv_y_loop :: "nat \<Rightarrow> bytes \<Rightarrow> nat \<Rightarrow> nat \<Rightarrow> bytes \<Rightarrow> bytes result" where
  "yuyv_y_loop 0 src p dst y = Inr y"
| "yuyv_y_loop (Suc k) src p dst y =
     (if p < length src \<and> dst < length y
      then yuyv_y_loop k src (p + 2) (Suc dst) (y[dst := src ! p])
      else Inl (Undefined_Behaviour ''access outside of a buffer''))"

primrec yuyv_uv_inner :: "nat \<Rightarrow> bytes \<Rightarrow> nat \<Rightarrow> nat \<Rightarrow> bytes \<Rightarrow> bytes
    \<Rightarrow> (nat \<times> nat \<times> bytes \<times> bytes) result" where
  "yuyv_uv_inner 0 src p dst u v = Inr (p, dst, u, v)"
| "yuyv_uv_inner (Suc k) src p dst u v =
     (if p + 3 < length src \<and> dst < length u \<and> dst < length v
      then yuyv_uv_inner k src (p + 4) (Suc dst) (u[dst := src ! (p + 1)]) (v[dst := src ! (p + 3)])
      else Inl (Undefined_Behaviour ''access outside of a buffer''))"

primrec yuyv_uv_outer :: "nat \<Rightarrow> nat \<Rightarrow> bytes \<Rightarrow> nat \<Rightarrow> nat \<Rightarrow> bytes \<Rightarrow> bytes
    \<Rightarrow> (bytes \<times> bytes) result" where
  "yuyv_uv_outer 0 width src p dst u v = Inr (u, v)"
| "yuyv_uv_outer (Suc k) width src p dst u v =
     bind_result (yuyv_uv_inner (width div 2) src p dst u v) (\<lambda>(p', dst', u', v').
       yuyv_uv_outer k width src (p' + 2 * width) dst' u' v')"

definition copy_from_yuyv :: "bytes \<Rightarrow> (raw_image, unit) action" where
  "copy_from_yuyv src img =
     (let width = raw_display_width img; height = raw_display_height img; vpx = raw_vpx_img img in
      case y_size width height of
        Inl e \<Rightarrow> (Inl e, img)
      | Inr n \<Rightarrow>
          if length src \<noteq> n * 2 then (Inl (Runtime_Error ''RawImage: invalid YUYV size''), img)
          else case yuyv_y_loop n src 0 0 (vpx_plane_y vpx) of
            Inl e \<Rightarrow> (Inl e, img)
          | Inr y \<Rightarrow>
              (case yuyv_uv_outer (unat height div 2) (unat width) src 0 0
                 (vpx_plane_u vpx) (vpx_plane_v vpx) of
                 Inl e \<Rightarrow> (Inl e, img)
               | Inr (u, v) \<Rightarrow>
                   (Inr (), img\<lparr>raw_vpx_img :=
                      vpx\<lparr>vpx_plane_y := y, vpx_plane_u := u, vpx_plane_v := v\<rparr>\<rparr>)))"

section \<open>What the loops compute\<close>

lemma yuyv_y_loop_blit:
  assumes "p + 2 * k \<le> length src + 1" and "dst + k \<le> length y"
  shows "yuyv_y_loop k src p dst y = Inr (blit y dst (map (\<lambda>i. src ! (p + 2 * i)) [0..<k]))"
  using assms
proof (induction k arbitrary: p dst y)
  case (Suc k)
  have "map (\<lambda>i. src ! (p + 2 * i)) [0..<Suc k] =
      src ! p # map (\<lambda>i. src ! (p + 2 + 2 * i)) [0..<k]"
    by (simp add: upt_conv_Cons map_Suc_upt [symmetric] comp_def del: upt_Suc)
  then show ?case using Suc by (simp add: blit_Cons del: upt_Suc)
qed simp

lemma yuyv_uv_inner_blit:
  assumes "p + 4 * k \<le> length src" and "dst + k \<le> length u" and "dst + k \<le> length v"
  shows "yuyv_uv_inner k src p dst u v = Inr (p + 4 * k, dst + k,
    blit u dst (map (\<lambda>j. src ! (p + 4 * j + 1)) [0..<k]),
    blit v dst (map (\<lambda>j. src ! (p + 4 * j + 3)) [0..<k]))"
  using assms
proof (induction k arbitrary: p dst u v)
  case (Suc k)
  have shift: "map (\<lambda>j. src ! (p + 4 * j + c)) [0..<Suc k] =
      src ! (p + c) # map (\<lambda>j. src ! (p + 4 + 4 * j + c)) [0..<k]" for c
    by (simp add: upt_conv_Cons map_Suc_upt [symmetric] comp_def add.assoc del: upt_Suc)
  have "yuyv_uv_inner (Suc k) src p dst u v =
      yuyv_uv_inner k src (p + 4) (Suc dst) (u[dst := src ! (p + 1)]) (v[dst := src ! (p + 3)])"
    using Suc.prems by simp
  also have "\<dots> = Inr (p + 4 + 4 * k, Suc dst + k,
      blit (u[dst := src ! (p + 1)]) (Suc dst) (map (\<lambda>j. src ! (p + 4 + 4 * j + 1)) [0..<k]),
      blit (v[dst := src ! (p + 3)]) (Suc dst) (map (\<lambda>j. src ! (p + 4 + 4 * j + 3)) [0..<k]))"
    using Suc.prems by (intro Suc.IH) simp_all
  finally show ?case
    unfolding shift using Suc.prems by (simp add: blit_Cons)
qed simp

text \<open>The chroma samples with offset \<open>c\<close> in each group of four bytes, of every other row.\<close>

definition chroma_rows :: "bytes \<Rightarrow> nat \<Rightarrow> nat \<Rightarrow> nat \<Rightarrow> nat \<Rightarrow> bytes" where
  "chroma_rows src width p k c =
     concat (map (\<lambda>i. map (\<lambda>j. src ! (p + 4 * width * i + 4 * j + c)) [0..<width div 2]) [0..<k])"

lemma chroma_rows_Suc:
  "chroma_rows src width p (Suc k) c =
     map (\<lambda>j. src ! (p + 4 * j + c)) [0..<width div 2] @ chroma_rows src width (p + 4 * width) k c"
proof -
  have "[0..<Suc k] = 0 # map Suc [0..<k]" by (simp add: upt_conv_Cons map_Suc_upt)
  then show ?thesis
    by (simp add: chroma_rows_def comp_def algebra_simps del: upt_Suc)
qed

lemma length_chroma_rows [simp]: "length (chroma_rows src width p k c) = k * (width div 2)"
  by (induction k arbitrary: p) (simp_all add: chroma_rows_Suc, simp add: chroma_rows_def)

lemma yuyv_uv_outer_blit:
  assumes "even width" and "p + 4 * width * k \<le> length src"
    and "dst + k * (width div 2) \<le> length u" and "dst + k * (width div 2) \<le> length v"
  shows "yuyv_uv_outer k width src p dst u v =
    Inr (blit u dst (chroma_rows src width p k 1), blit v dst (chroma_rows src width p k 3))"
  using assms
proof (induction k arbitrary: p dst u v)
  case 0
  then show ?case by (simp add: chroma_rows_def)
next
  case (Suc k)
  let ?h = "width div 2"
  have w: "4 * ?h = 2 * width" using Suc.prems(1) by auto
  have room: "p + 4 * ?h \<le> length src" "dst + ?h \<le> length u" "dst + ?h \<le> length v"
    using Suc.prems by (simp_all add: w algebra_simps)
  have next_row: "p + 4 * ?h + 2 * width = p + 4 * width" by (simp add: w)
  let ?u = "blit u dst (map (\<lambda>j. src ! (p + 4 * j + 1)) [0..<?h])"
  let ?v = "blit v dst (map (\<lambda>j. src ! (p + 4 * j + 3)) [0..<?h])"
  have len: "length ?u = length u" "length ?v = length v"
    using room by (simp_all add: length_blit)
  have "yuyv_uv_outer (Suc k) width src p dst u v =
      yuyv_uv_outer k width src (p + 4 * width) (dst + ?h) ?u ?v"
    by (simp only: yuyv_uv_outer.simps yuyv_uv_inner_blit [OF room] bind_result_simps prod.case next_row)
  also have "\<dots> = Inr (blit ?u (dst + ?h) (chroma_rows src width (p + 4 * width) k 1),
      blit ?v (dst + ?h) (chroma_rows src width (p + 4 * width) k 3))"
  proof (rule Suc.IH)
    show "even width" by (rule Suc.prems(1))
    show "p + 4 * width + 4 * width * k \<le> length src"
      using Suc.prems(2) by (simp add: algebra_simps)
    show "dst + ?h + k * ?h \<le> length ?u" "dst + ?h + k * ?h \<le> length ?v"
      unfolding len using Suc.prems(3,4) by (simp_all add: algebra_simps)
  qed
  finally show ?case
    using Suc.prems blit_append [of dst "map (\<lambda>j. src ! (p + 4 * j + 1)) [0..<?h]"
        "chroma_rows src width (p + 4 * width) k 1" u]
      blit_append [of dst "map (\<lambda>j. src ! (p + 4 * j + 3)) [0..<?h]"
        "chroma_rows src width (p + 4 * width) k 3" v]
    by (simp add: chroma_rows_Suc algebra_simps)
qed

text \<open>An image of the given dimensions whose planes have room for a frame.\<close>

definition image_room :: "u16 \<Rightarrow> u16 \<Rightarrow> raw_image \<Rightarrow> bool" where
  "image_room width height img \<longleftrightarrow>
     raw_display_width img = width \<and> raw_display_height img = height \<and>
     unat width * unat height \<le> length (vpx_plane_y (raw_vpx_img img)) \<and>
     unat width * unat height div 4 \<le> length (vpx_plane_u (raw_vpx_img img)) \<and>
     unat width * unat height div 4 \<le> length (vpx_plane_v (raw_vpx_img img))"

lemma copy_from_yuyv_result:
  assumes "even (unat (raw_display_width img))" and "even (unat (raw_display_height img))"
    and "unat (raw_display_width img) * unat (raw_display_height img) = n" and "n < 2 ^ 31"
    and "length src = 2 * n" and "n \<le> length (vpx_plane_y (raw_vpx_img img))"
    and "n div 4 \<le> length (vpx_plane_u (raw_vpx_img img))"
    and "n div 4 \<le> length (vpx_plane_v (raw_vpx_img img))"
  shows "copy_from_yuyv src img = (Inr (), img\<lparr>raw_vpx_img := (raw_vpx_img img)
    \<lparr>vpx_plane_y := blit (vpx_plane_y (raw_vpx_img img)) 0 (map (\<lambda>i. src ! (2 * i)) [0..<n]),
     vpx_plane_u := blit (vpx_plane_u (raw_vpx_img img)) 0
       (chroma_rows src (unat (raw_display_width img)) 0 (unat (raw_display_height img) div 2) 1),
     vpx_plane_v := blit (vpx_plane_v (raw_vpx_img img)) 0
       (chroma_rows src (unat (raw_display_width img)) 0 (unat (raw_display_height img) div 2) 3)\<rparr>\<rparr>)"
proof -
  let ?w = "unat (raw_display_width img)" and ?h = "unat (raw_display_height img)"
  obtain w where w: "?w = 2 * w" using assms(1) by (rule evenE)
  obtain h where h: "?h = 2 * h" using assms(2) by (rule evenE)
  have n: "n = 4 * (h * w)" using assms(3) by (simp add: w h ac_simps)
  have y: "yuyv_y_loop n src 0 0 (vpx_plane_y (raw_vpx_img img)) =
      Inr (blit (vpx_plane_y (raw_vpx_img img)) 0 (map (\<lambda>i. src ! (2 * i)) [0..<n]))"
    using yuyv_y_loop_blit [of 0 n src 0] assms(5,6) by simp
  have uv: "yuyv_uv_outer (?h div 2) ?w src 0 0 (vpx_plane_u (raw_vpx_img img))
        (vpx_plane_v (raw_vpx_img img)) =
      Inr (blit (vpx_plane_u (raw_vpx_img img)) 0 (chroma_rows src ?w 0 (?h div 2) 1),
        blit (vpx_plane_v (raw_vpx_img img)) 0 (chroma_rows src ?w 0 (?h div 2) 3))"
    using assms(1,5,7,8) by (intro yuyv_uv_outer_blit) (simp_all add: w h n)
  show ?thesis
    using assms(3-5) y uv by (simp add: copy_from_yuyv_def y_size_def Let_def)
qed

section \<open>Properties\<close>

text \<open>
  C37: for even dimensions and planes large enough, \<open>copy_from_yuyv\<close> stays inside every buffer and
  splits the packed image: the Y plane receives every other byte, and the U and V planes receive the
  second and the fourth byte of every group of four in the even rows, row by row.
\<close>

theorem copy_from_yuyv_planes:
  assumes "even (unat (raw_display_width img))" and "even (unat (raw_display_height img))"
    and "unat (raw_display_width img) * unat (raw_display_height img) = n" and "n < 2 ^ 31"
    and "length src = 2 * n" and "n \<le> length (vpx_plane_y (raw_vpx_img img))"
    and "n div 4 \<le> length (vpx_plane_u (raw_vpx_img img))"
    and "n div 4 \<le> length (vpx_plane_v (raw_vpx_img img))"
  shows "copy_from_yuyv src img = (Inr (), img\<lparr>raw_vpx_img := (raw_vpx_img img)
    \<lparr>vpx_plane_y := blit (vpx_plane_y (raw_vpx_img img)) 0 (map (\<lambda>i. src ! (2 * i)) [0..<n]),
     vpx_plane_u := blit (vpx_plane_u (raw_vpx_img img)) 0
       (chroma_rows src (unat (raw_display_width img)) 0 (unat (raw_display_height img) div 2) 1),
     vpx_plane_v := blit (vpx_plane_v (raw_vpx_img img)) 0
       (chroma_rows src (unat (raw_display_width img)) 0 (unat (raw_display_height img) div 2) 3)\<rparr>\<rparr>)"
  using assms by (rule copy_from_yuyv_result)

theorem copy_from_yuyv_planes_witness:
  "copy_from_yuyv [1, 2, 3, 4, 5, 6, 7, 8]
     \<lparr>raw_vpx_img = \<lparr>vpx_fmt = VPX_IMG_FMT_I420, vpx_d_w = 2, vpx_d_h = 2,
        vpx_plane_y = [0, 0, 0, 0], vpx_plane_u = [0], vpx_plane_v = [0]\<rparr>,
      raw_own_vpx_img = True, raw_display_width = 2, raw_display_height = 2\<rparr> =
   (Inr (),
     \<lparr>raw_vpx_img = \<lparr>vpx_fmt = VPX_IMG_FMT_I420, vpx_d_w = 2, vpx_d_h = 2,
        vpx_plane_y = [1, 3, 5, 7], vpx_plane_u = [2], vpx_plane_v = [4]\<rparr>,
      raw_own_vpx_img = True, raw_display_width = 2, raw_display_height = 2\<rparr>)"
  using copy_from_yuyv_planes [where n = 4 and src = "[1, 2, 3, 4, 5, 6, 7, 8]" and
      img = "\<lparr>raw_vpx_img = \<lparr>vpx_fmt = VPX_IMG_FMT_I420, vpx_d_w = 2, vpx_d_h = 2,
        vpx_plane_y = [0, 0, 0, 0], vpx_plane_u = [0], vpx_plane_v = [0]\<rparr>,
      raw_own_vpx_img = True, raw_display_width = 2, raw_display_height = 2\<rparr>"]
  by (simp add: blit_def chroma_rows_def upt_rec)

end
