(* ===== verification/File_Descriptor.thy ===== *)
theory File_Descriptor
  imports Exceptions
begin

text \<open>
  The model of \<open>src/util/file_descriptor.hh\<close> and \<open>file_descriptor.cc\<close>. The kernel is a parameter: a
  record of system calls over a state of the world \<open>'w\<close>. A descriptor is the number \<open>fd_\<close> and the flag
  \<open>eof_\<close>; its operations are actions on the descriptor and the world.
\<close>

section \<open>System calls\<close>

text \<open>
  Each call returns its C return value and the next state of the world; \<open>sys_read\<close> also returns the
  bytes it stored in the buffer. \<open>sys_errno\<close> reads \<open>errno\<close> after a failed call.
\<close>

record 'w os =
  sys_open :: "bytes \<Rightarrow> string list \<Rightarrow> 'w \<Rightarrow> int \<times> 'w"
  sys_fcntl_setfd :: "int \<Rightarrow> int \<Rightarrow> 'w \<Rightarrow> int \<times> 'w"
  sys_fcntl_getfl :: "int \<Rightarrow> 'w \<Rightarrow> int \<times> 'w"
  sys_fcntl_setfl :: "int \<Rightarrow> int \<Rightarrow> 'w \<Rightarrow> int \<times> 'w"
  sys_close :: "int \<Rightarrow> 'w \<Rightarrow> int \<times> 'w"
  sys_write :: "int \<Rightarrow> bytes \<Rightarrow> 'w \<Rightarrow> int \<times> 'w"
  sys_read :: "int \<Rightarrow> nat \<Rightarrow> 'w \<Rightarrow> (int \<times> bytes) \<times> 'w"
  sys_lseek :: "int \<Rightarrow> int \<Rightarrow> int \<Rightarrow> 'w \<Rightarrow> int \<times> 'w"
  sys_errno :: "'w \<Rightarrow> int"

definition FD_CLOEXEC :: int where "FD_CLOEXEC = 1"
definition O_NONBLOCK :: int where "O_NONBLOCK = 2048"
definition EWOULDBLOCK :: int where "EWOULDBLOCK = 11"
definition SEEK_SET :: int where "SEEK_SET = 0"
definition SEEK_CUR :: int where "SEEK_CUR = 1"
definition SEEK_END :: int where "SEEK_END = 2"

section \<open>Descriptors\<close>

record file_descriptor =
  fd_num :: int
  fd_eof :: bool

type_synonym ('w, 'a) fd_action = "(file_descriptor \<times> 'w, 'a) action"

definition MAX_BUF_SIZE :: nat where
  "MAX_BUF_SIZE = 1024 * 1024"

definition fd_open :: "'w os \<Rightarrow> int \<Rightarrow> 'w \<Rightarrow> file_descriptor result \<times> 'w" where
  "fd_open os fd w =
     (let (r, w') = sys_fcntl_setfd os fd FD_CLOEXEC w
      in (bind_result (check_syscall r) (\<lambda>_. Inr \<lparr>fd_num = fd, fd_eof = False\<rparr>), w'))"

text \<open>\<open>FileDescriptor(check_syscall(open(path, flags)))\<close>, as the components open their files.\<close>

definition open_file :: "'w os \<Rightarrow> bytes \<Rightarrow> string list \<Rightarrow> 'w \<Rightarrow> file_descriptor result \<times> 'w" where
  "open_file os path flags w =
     (let (r, w') = sys_open os path flags w
      in case check_syscall r of Inl e \<Rightarrow> (Inl e, w') | Inr fd \<Rightarrow> fd_open os fd w')"

text \<open>The destructor closes an active descriptor and only reports a failure.\<close>

definition fd_destroy :: "'w os \<Rightarrow> file_descriptor \<Rightarrow> 'w \<Rightarrow> 'w" where
  "fd_destroy os f w = (if fd_num f \<ge> 0 then snd (sys_close os (fd_num f) w) else w)"

text \<open>Moves: the new value of the target and of the source.\<close>

definition fd_move :: "file_descriptor \<Rightarrow> file_descriptor \<times> file_descriptor" where
  "fd_move other = (\<lparr>fd_num = fd_num other, fd_eof = fd_eof other\<rparr>, other\<lparr>fd_num := -1\<rparr>)"

definition fd_move_assign ::
  "file_descriptor \<Rightarrow> file_descriptor \<Rightarrow> file_descriptor \<times> file_descriptor" where
  "fd_move_assign this other =
     (this\<lparr>fd_num := fd_num other, fd_eof := fd_eof other\<rparr>, other\<lparr>fd_num := -1\<rparr>)"

definition fd_close :: "'w os \<Rightarrow> ('w, unit) fd_action" where
  "fd_close os = (\<lambda>(f, w).
     if fd_num f < 0 then (Inr (), f, w)
     else let (r, w') = sys_close os (fd_num f) w
          in case check_syscall r of
               Inl e \<Rightarrow> (Inl e, f, w')
             | Inr _ \<Rightarrow> (Inr (), f\<lparr>fd_num := -1\<rparr>, w'))"

definition fd_get_blocking :: "'w os \<Rightarrow> ('w, bool) fd_action" where
  "fd_get_blocking os = (\<lambda>(f, w).
     let (r, w') = sys_fcntl_getfl os (fd_num f) w
     in (bind_result (check_syscall r) (\<lambda>flags. Inr (\<not> (flags AND O_NONBLOCK \<noteq> 0))), f, w'))"

definition fd_set_blocking :: "'w os \<Rightarrow> bool \<Rightarrow> ('w, unit) fd_action" where
  "fd_set_blocking os blocking = (\<lambda>(f, w).
     let (r, w') = sys_fcntl_getfl os (fd_num f) w
     in case check_syscall r of
          Inl e \<Rightarrow> (Inl e, f, w')
        | Inr flags \<Rightarrow>
            let flags' = (if blocking then flags AND NOT O_NONBLOCK else flags OR O_NONBLOCK);
                (r', w'') = sys_fcntl_setfl os (fd_num f) flags' w'
            in (bind_result (check_syscall r') (\<lambda>_. Inr ()), f, w''))"

section \<open>Writing\<close>

definition fd_write :: "'w os \<Rightarrow> bytes \<Rightarrow> ('w, nat) fd_action" where
  "fd_write os data = (\<lambda>(f, w).
     if data = [] then (Inl (Runtime_Error ''attempted to write empty data''), f, w)
     else let (bytes_written, w') = sys_write os (fd_num f) data w
          in if bytes_written \<le> 0 then
               (if bytes_written = -1 \<and> sys_errno os w' = EWOULDBLOCK then (Inr 0, f, w')
                else (Inl (Unix_Error ''FileDescriptor::write()''), f, w'))
             else (Inr (nat bytes_written), f, w'))"

text \<open>
  The loop of \<open>writen\<close> on the bytes from \<open>it\<close> to \<open>end\<close>. A call that claims to have written more than
  it was given would move \<open>it\<close> past \<open>end\<close>.
\<close>

function writen_loop :: "'w os \<Rightarrow> int \<Rightarrow> bytes \<Rightarrow> 'w \<Rightarrow> unit result \<times> 'w" where
  "writen_loop os fd data w =
     (if data = [] then (Inr (), w)
      else let (bytes_written, w') = sys_write os fd data w
           in if bytes_written \<le> 0 then (Inl (Unix_Error ''FileDescriptor::writen()''), w')
              else if nat bytes_written > length data
              then (Inl (Undefined_Behaviour ''iterator past the end of the data''), w')
              else writen_loop os fd (drop (nat bytes_written) data) w')"
  by pat_completeness auto
termination
  by (relation "measure (\<lambda>(os, fd, data, w). length data)") auto

declare writen_loop.simps [simp del]

definition fd_writen :: "'w os \<Rightarrow> bytes \<Rightarrow> nat \<Rightarrow> ('w, unit) fd_action" where
  "fd_writen os data n = (\<lambda>(f, w).
     if data = [] \<or> n = 0 then (Inl (Runtime_Error ''attempted to write empty data''), f, w)
     else if length data < n then (Inl (Runtime_Error ''data size is smaller than n''), f, w)
     else let (r, w') = writen_loop os (fd_num f) (take n data) w in (r, f, w'))"

definition fd_write_all :: "'w os \<Rightarrow> bytes \<Rightarrow> ('w, unit) fd_action" where
  "fd_write_all os data = fd_writen os data (length data)"

section \<open>Reading\<close>

text \<open>
  One \<open>::read\<close> into a zeroed buffer of \<open>n\<close> bytes, checked: the bytes at its front that were read.
\<close>

definition checked_read :: "'w os \<Rightarrow> int \<Rightarrow> nat \<Rightarrow> 'w \<Rightarrow> bytes result \<times> 'w" where
  "checked_read os fd n w =
     (let ((r, data), w') = sys_read os fd n w
      in (bind_result (check_syscall r) (\<lambda>bytes_read.
            if nat bytes_read > n then Inl (Undefined_Behaviour ''read past the end of the buffer'')
            else Inr (take (nat bytes_read) (data @ replicate (n - length data) 0))), w'))"

definition fd_read :: "'w os \<Rightarrow> nat \<Rightarrow> ('w, bytes) fd_action" where
  "fd_read os limit = (\<lambda>(f, w).
     let (r, w') = checked_read os (fd_num f) (min MAX_BUF_SIZE limit) w
     in case r of
          Inl e \<Rightarrow> (Inl e, f, w')
        | Inr data \<Rightarrow> (Inr data, if data = [] then f\<lparr>fd_eof := True\<rparr> else f, w'))"

text \<open>The loop of \<open>readn\<close>: \<open>buf\<close> holds the bytes read so far, \<open>n\<close> how many are still missing.\<close>

function readn_loop :: "'w os \<Rightarrow> bool \<Rightarrow> nat \<Rightarrow> bytes \<Rightarrow> file_descriptor \<Rightarrow> 'w
    \<Rightarrow> bytes result \<times> file_descriptor \<times> 'w" where
  "readn_loop os allow_partial_read n buf f w =
     (if n = 0 then (Inr buf, f, w)
      else let (r, w') = checked_read os (fd_num f) n w
           in case r of
                Inl e \<Rightarrow> (Inl e, f, w')
              | Inr data \<Rightarrow>
                  if data = [] then
                    (if allow_partial_read then Inr buf
                     else Inl (Runtime_Error ''FileDescriptor::readn(): unexpected EOF''),
                     f\<lparr>fd_eof := True\<rparr>, w')
                  else readn_loop os allow_partial_read (n - length data) (buf @ data) f w')"
  by pat_completeness auto
termination
  by (relation "measure (\<lambda>(os, p, n, buf, f, w). n)") auto

declare readn_loop.simps [simp del]

definition fd_readn :: "'w os \<Rightarrow> nat \<Rightarrow> bool \<Rightarrow> ('w, bytes) fd_action" where
  "fd_readn os n allow_partial_read = (\<lambda>(f, w).
     if n = 0 then (Inl (Runtime_Error ''attempted to read 0 bytes''), f, w)
     else readn_loop os allow_partial_read n [] f w)"

text \<open>
  \<open>getline\<close> reads byte by byte until the end of the file or a newline. A stream that never ends and
  has no newline keeps it running for ever, which is the value None.
\<close>

partial_function (option) getline_loop :: "'w os \<Rightarrow> bytes \<Rightarrow> file_descriptor \<Rightarrow> 'w
    \<Rightarrow> (bytes result \<times> file_descriptor \<times> 'w) option" where
  "getline_loop os ret f w =
     (case fd_read os 1 (f, w) of
        (Inl e, f', w') \<Rightarrow> Some (Inl e, f', w')
      | (Inr char_read, f', w') \<Rightarrow>
          if fd_eof f' \<or> char_read = [10] then Some (Inr ret, f', w')
          else getline_loop os (ret @ char_read) f' w')"

definition fd_getline :: "'w os \<Rightarrow> file_descriptor \<times> 'w \<Rightarrow> (bytes result \<times> file_descriptor \<times> 'w) option" where
  "fd_getline os = (\<lambda>(f, w). getline_loop os [] f w)"

section \<open>Offsets\<close>

text \<open>The \<open>off_t\<close> result of \<open>lseek\<close> passes through \<open>check_syscall\<close>, as an \<open>int\<close>.\<close>

definition fd_seek :: "'w os \<Rightarrow> int \<Rightarrow> int \<Rightarrow> ('w, nat) fd_action" where
  "fd_seek os offset whence = (\<lambda>(f, w).
     let (r, w') = sys_lseek os (fd_num f) offset whence w
     in (bind_result (check_syscall r) (\<lambda>v. Inr (nat v)), f, w'))"

definition fd_reset_offset :: "'w os \<Rightarrow> ('w, unit) fd_action" where
  "fd_reset_offset os = bind_action (fd_seek os 0 SEEK_SET) (\<lambda>_ (f, w). (Inr (), f\<lparr>fd_eof := False\<rparr>, w))"

definition fd_file_size :: "'w os \<Rightarrow> ('w, nat) fd_action" where
  "fd_file_size os =
     bind_action (fd_seek os 0 SEEK_CUR) (\<lambda>saved_offset.
     bind_action (fd_seek os 0 SEEK_END) (\<lambda>ret.
     bind_action (fd_seek os (int saved_offset) SEEK_SET) (\<lambda>_. return_action ret)))"

section \<open>What the code relies on of the kernel\<close>

text \<open>
  A regular file open for reading: \<open>rest w\<close> is the content from the file offset on. \<open>read\<close> returns
  a prefix of it, perhaps shorter than asked for, and nothing only at the end of the file.
\<close>

definition regular_file :: "'w os \<Rightarrow> int \<Rightarrow> ('w \<Rightarrow> bytes) \<Rightarrow> bool" where
  "regular_file os fd rest \<longleftrightarrow>
     (\<forall>n w. case sys_read os fd n w of ((r, data), w') \<Rightarrow>
        r = int (length data) \<and> length data \<le> n \<and> length data < 2 ^ 31 \<and>
        rest w = data @ rest w' \<and> (data = [] \<and> 0 < n \<longrightarrow> rest w = []))"

text \<open>
  A descriptor open for blocking writes: \<open>out w\<close> is what has been written. \<open>write\<close> writes at least
  one byte of non-empty data, perhaps not all of it.
\<close>

definition writes_through :: "'w os \<Rightarrow> int \<Rightarrow> ('w \<Rightarrow> bytes) \<Rightarrow> bool" where
  "writes_through os fd out \<longleftrightarrow>
     (\<forall>data w. data \<noteq> [] \<longrightarrow> (case sys_write os fd data w of (r, w') \<Rightarrow>
        0 < r \<and> nat r \<le> length data \<and> out w' = out w @ take (nat r) data))"

text \<open>
  A concrete kernel with one open stream: the world is the input still to be read and the output
  written so far, and a call moves at most \<open>chunk\<close> bytes.
\<close>

definition stream_os :: "nat \<Rightarrow> (bytes \<times> bytes) os" where
  "stream_os chunk =
     \<lparr>sys_open = (\<lambda>_ _ w. (3, w)), sys_fcntl_setfd = (\<lambda>_ _ w. (0, w)), sys_fcntl_getfl = (\<lambda>_ w. (0, w)),
      sys_fcntl_setfl = (\<lambda>_ _ w. (0, w)), sys_close = (\<lambda>_ w. (0, w)),
      sys_write = (\<lambda>_ data (inp, outp).
        (int (length (take chunk data)), inp, outp @ take chunk data)),
      sys_read = (\<lambda>_ n (inp, outp).
        ((int (length (take (min chunk n) inp)), take (min chunk n) inp), drop (min chunk n) inp, outp)),
      sys_lseek = (\<lambda>_ offset whence w. (offset, w)),
      sys_errno = (\<lambda>_. 0)\<rparr>"

text \<open>A kernel on which nothing can be read or written.\<close>

definition idle_os :: "'w os" where
  "idle_os = \<lparr>sys_open = (\<lambda>_ _ w. (3, w)), sys_fcntl_setfd = (\<lambda>_ _ w. (0, w)), sys_fcntl_getfl = (\<lambda>_ w. (0, w)),
     sys_fcntl_setfl = (\<lambda>_ _ w. (0, w)), sys_close = (\<lambda>_ w. (0, w)), sys_write = (\<lambda>_ _ w. (- 1, w)),
     sys_read = (\<lambda>_ _ w. ((- 1, []), w)), sys_lseek = (\<lambda>_ _ _ w. (0, w)), sys_errno = (\<lambda>_. EWOULDBLOCK)\<rparr>"

lemma stream_regular:
  assumes "0 < chunk" and "chunk < 2 ^ 31"
  shows "regular_file (stream_os chunk) fd fst"
  using assms by (auto simp: regular_file_def stream_os_def split: prod.splits)

lemma stream_writes:
  assumes "0 < chunk"
  shows "writes_through (stream_os chunk) fd snd"
  using assms by (auto simp: writes_through_def stream_os_def min_def split: prod.splits)

section \<open>What files leave alone\<close>

text \<open>A part of the world that reading, writing and seeking do not change.\<close>

definition quiet_os :: "'w os \<Rightarrow> ('w \<Rightarrow> 'b) \<Rightarrow> bool" where
  "quiet_os os g \<longleftrightarrow>
     (\<forall>fd n w. g (snd (sys_read os fd n w)) = g w) \<and>
     (\<forall>fd data w. g (snd (sys_write os fd data w)) = g w) \<and>
     (\<forall>fd offset whence w. g (snd (sys_lseek os fd offset whence w)) = g w)"

lemma quiet_checked_read: "quiet_os os g \<Longrightarrow> g (snd (checked_read os fd n w)) = g w"
  by (simp add: quiet_os_def checked_read_def case_prod_unfold Let_def)

lemma quiet_read: "quiet_os os g \<Longrightarrow> g (snd (snd (fd_read os n (f, w)))) = g w"
  using quiet_checked_read [of os g "fd_num f" "min MAX_BUF_SIZE n" w]
  by (auto simp: fd_read_def Let_def split: prod.split sum.split)

lemma quiet_readn: "quiet_os os g \<Longrightarrow> g (snd (snd (fd_readn os n p (f, w)))) = g w"
proof -
  have "g (snd (snd (readn_loop os p n buf f w))) = g w" if "quiet_os os g" for buf
    using that
  proof (induction os p n buf f w rule: readn_loop.induct)
    case (1 os p n buf f w)
    obtain r w' where read: "checked_read os (fd_num f) n w = (r, w')" by fastforce
    then have w': "g w' = g w" using quiet_checked_read [OF "1.prems"] by (metis snd_conv)
    show ?case
    proof (cases "n = 0 \<or> r = Inr [] \<or> (\<exists>e. r = Inl e)")
      case True
      then show ?thesis using read w' by (subst readn_loop.simps) auto
    next
      case False
      then obtain data where data: "r = Inr data" "data \<noteq> []" "n \<noteq> 0" by (cases r) auto
      from "1.IH" [OF data(3) read [symmetric] refl data(1) data(2) "1.prems"] show ?thesis
        using read data w' by (subst readn_loop.simps) simp
    qed
  qed
  then show "quiet_os os g \<Longrightarrow> ?thesis" by (simp add: fd_readn_def)
qed

lemma quiet_seek: "quiet_os os g \<Longrightarrow> g (snd (snd (fd_reset_offset os (f, w)))) = g w"
  by (auto simp: fd_reset_offset_def fd_seek_def bind_action_def quiet_os_def split: prod.split sum.split)
    (metis snd_conv)+

lemma quiet_write: "quiet_os os g \<Longrightarrow> g (snd (snd (fd_write os data (f, w)))) = g w"
  by (auto simp: fd_write_def quiet_os_def split: prod.split) (metis snd_conv)+

lemma quiet_getline: "quiet_os os g \<Longrightarrow> fd_getline os (f, w) = Some (r, f', w') \<Longrightarrow> g w' = g w"
proof -
  assume quiet: "quiet_os os g" and line: "fd_getline os (f, w) = Some (r, f', w')"
  have "os' = os \<longrightarrow> g (snd (snd res)) = g w" if "getline_loop os' ret f w = Some res" for os' ret f w res
  proof (rule getline_loop.raw_induct [where P = "\<lambda>os' ret f w res. os' = os \<longrightarrow> g (snd (snd res)) = g w", OF _ that], intro impI)
    fix loop os' ret f w res
    assume IH: "\<And>os' ret f w res. loop os' ret f w = Some res \<Longrightarrow> os' = os \<longrightarrow> g (snd (snd res)) = g w"
      and same: "os' = os"
      and step: "(case fd_read os' 1 (f, w) of
        (Inl e, f', w') \<Rightarrow> Some (Inl e, f', w')
      | (Inr char_read, f', w') \<Rightarrow>
          if fd_eof f' \<or> char_read = [10] then Some (Inr ret, f', w')
          else loop os' (ret @ char_read) f' w') = Some res"
    obtain q f1 w1 where rd: "fd_read os 1 (f, w) = (q, f1, w1)" by (metis prod.collapse)
    then have w1: "g w1 = g w" using quiet_read [OF quiet, of 1 f w] by simp
    show "g (snd (snd res)) = g w"
    proof (cases "\<exists>data. q = Inr data \<and> \<not> (fd_eof f1 \<or> data = [10])")
      case True
      then obtain ret' where "loop os ret' f1 w1 = Some res" using step rd by (auto simp: same)
      from IH [OF this] w1 show ?thesis by simp
    next
      case False
      then have "snd (snd res) = w1" using step unfolding same rd by (cases q) (auto split: if_splits)
      then show ?thesis using w1 by simp
    qed
  qed
  from this [of os "[]" f w "(r, f', w')"] line show ?thesis by (simp add: fd_getline_def)
qed

section \<open>Properties\<close>

lemma checked_read_regular:
  assumes "regular_file os fd rest"
  obtains data w' where "checked_read os fd n w = (Inr data, w')" and "length data \<le> n"
    and "rest w = data @ rest w'" and "data = [] \<longrightarrow> 0 < n \<longrightarrow> rest w = []"
proof -
  obtain r data w' where read: "sys_read os fd n w = ((r, data), w')" by (metis prod.collapse)
  have facts: "r = int (length data) \<and> length data \<le> n \<and> length data < 2 ^ 31 \<and>
    rest w = data @ rest w' \<and> (data = [] \<and> 0 < n \<longrightarrow> rest w = [])"
    using assms [unfolded regular_file_def, rule_format, of n w]
    unfolding read prod.case .
  then have "checked_read os fd n w = (Inr data, w')"
    by (simp add: checked_read_def read check_syscall_int)
  with facts that show thesis by blast
qed

lemma readn_loop_regular:
  assumes "regular_file os (fd_num f) rest"
  shows "if n \<le> length (rest w)
    then \<exists>w'. readn_loop os p n buf f w = (Inr (buf @ take n (rest w)), f, w') \<and>
      rest w' = drop n (rest w)
    else \<exists>w'. readn_loop os p n buf f w =
      (if p then Inr (buf @ rest w)
       else Inl (Runtime_Error ''FileDescriptor::readn(): unexpected EOF''),
       f\<lparr>fd_eof := True\<rparr>, w') \<and> rest w' = []"
  using assms
proof (induction os p n buf f w rule: readn_loop.induct)
  case (1 os p n buf f w)
  show ?case
  proof (cases "n = 0")
    case True
    then show ?thesis by (simp add: readn_loop.simps)
  next
    case False
    obtain data w' where read: "checked_read os (fd_num f) n w = (Inr data, w')"
      and len: "length data \<le> n" and rest: "rest w = data @ rest w'"
      and eof: "data = [] \<longrightarrow> 0 < n \<longrightarrow> rest w = []"
      using checked_read_regular [OF "1.prems"] by metis
    show ?thesis
    proof (cases "data = []")
      case True
      with False read rest eof show ?thesis by (auto simp: readn_loop.simps [of os p n])
    next
      case more: False
      have step: "readn_loop os p n buf f w = readn_loop os p (n - length data) (buf @ data) f w'"
        using False more read by (simp add: readn_loop.simps [of os p n])
      show ?thesis
        using "1.IH" [OF False read [symmetric] refl refl more "1.prems"] rest len
        by (auto simp: step split: if_splits)
    qed
  qed
qed

text \<open>
  C36: on a regular file \<open>readn\<close> returns exactly the next \<open>n\<close> bytes and advances past them, however
  many \<open>read\<close> calls that takes; when fewer are left it sets \<open>eof_\<close> and throws, or, if partial reads
  are allowed, returns what there is.
\<close>

theorem fd_readn_regular:
  assumes "regular_file os (fd_num f) rest" and "0 < n"
  shows "if n \<le> length (rest w)
    then \<exists>w'. fd_readn os n p (f, w) = (Inr (take n (rest w)), f, w') \<and> rest w' = drop n (rest w)
    else \<exists>w'. fd_readn os n p (f, w) =
      (if p then Inr (rest w) else Inl (Runtime_Error ''FileDescriptor::readn(): unexpected EOF''),
       f\<lparr>fd_eof := True\<rparr>, w') \<and> rest w' = []"
  using readn_loop_regular [OF assms(1), of n w p "[]"] assms(2)
  by (auto simp: fd_readn_def split: if_splits)

theorem fd_readn_regular_witness:
  "\<exists>w'. fd_readn (stream_os 2) 5 False (\<lparr>fd_num = 3, fd_eof = False\<rparr>, ([1, 2, 3, 4, 5, 6], [])) =
    (Inr [1, 2, 3, 4, 5], \<lparr>fd_num = 3, fd_eof = False\<rparr>, w') \<and> fst w' = [6]"
  using fd_readn_regular [where os = "stream_os 2" and n = 5 and p = False and rest = fst and
      f = "\<lparr>fd_num = 3, fd_eof = False\<rparr>" and w = "([1, 2, 3, 4, 5, 6], [])"]
  by (simp add: stream_regular)

lemma writen_loop_through:
  assumes "writes_through os fd out"
  shows "\<exists>w'. writen_loop os fd data w = (Inr (), w') \<and> out w' = out w @ data"
  using assms
proof (induction os fd data w rule: writen_loop.induct)
  case (1 os fd data w)
  show ?case
  proof (cases "data = []")
    case True
    then show ?thesis by (simp add: writen_loop.simps)
  next
    case False
    obtain r w1 where wr: "sys_write os fd data w = (r, w1)" by (cases "sys_write os fd data w")
    have r: "0 < r" "nat r \<le> length data" "out w1 = out w @ take (nat r) data"
      using "1.prems" [unfolded writes_through_def, rule_format, OF False, of w]
      by (simp_all add: wr)
    have step: "writen_loop os fd data w = writen_loop os fd (drop (nat r) data) w1"
      using False r wr by (simp add: writen_loop.simps [of os fd data])
    show ?thesis
      using "1.IH" [OF False wr [symmetric] refl _ _ "1.prems"] r by (auto simp: step)
  qed
qed

text \<open>
  \<open>write_all\<close> writes every byte of non-empty data, in order and once, whatever parts the kernel
  takes at a time, and throws on empty data without writing.
\<close>

lemma fd_write_all_through:
  assumes "writes_through os (fd_num f) out"
  shows "if data = [] then fd_write_all os data (f, w) =
      (Inl (Runtime_Error ''attempted to write empty data''), f, w)
    else \<exists>w'. fd_write_all os data (f, w) = (Inr (), f, w') \<and> out w' = out w @ data"
  using writen_loop_through [OF assms, of data w]
  by (auto simp: fd_write_all_def fd_writen_def)

lemma fd_write_all_through_witness:
  "\<exists>w'. fd_write_all (stream_os 2) [1, 2, 3] (\<lparr>fd_num = 3, fd_eof = False\<rparr>, ([], [])) =
      (Inr (), \<lparr>fd_num = 3, fd_eof = False\<rparr>, w') \<and> snd w' = [1, 2, 3]"
  using fd_write_all_through [where os = "stream_os 2" and data = "[1, 2, 3]" and out = snd and
      f = "\<lparr>fd_num = 3, fd_eof = False\<rparr>" and w = "([], [])"]
  by (simp add: stream_writes)

lemma fd_read_one_regular:
  assumes "regular_file os (fd_num f) rest"
  obtains (eof) w' where "rest w = []" and "rest w' = []"
      and "fd_read os 1 (f, w) = (Inr [], f\<lparr>fd_eof := True\<rparr>, w')"
    | (byte) c w' where "rest w = c # rest w'" and "fd_read os 1 (f, w) = (Inr [c], f, w')"
proof -
  obtain data w' where read: "checked_read os (fd_num f) 1 w = (Inr data, w')"
    and len: "length data \<le> 1" and rest: "rest w = data @ rest w'"
    and end_of_file: "data = [] \<longrightarrow> (0::nat) < 1 \<longrightarrow> rest w = []"
    using checked_read_regular [OF assms] by metis
  show thesis
  proof (cases data)
    case Nil
    with rest end_of_file have "rest w = []" "rest w' = []" by simp_all
    with Nil read show thesis
      by (intro eof [of w']) (simp_all add: fd_read_def MAX_BUF_SIZE_def)
  next
    case (Cons c cs)
    with len have "cs = []" by simp
    with Cons read rest byte show thesis by (simp add: fd_read_def MAX_BUF_SIZE_def)
  qed
qed

lemma getline_loop_regular:
  assumes "regular_file os (fd_num f) rest" and "\<not> fd_eof f"
  shows "\<exists>line f' w'. getline_loop os ret f w = Some (Inr (ret @ line), f', w') \<and> 10 \<notin> set line \<and>
    (if 10 \<in> set (rest w) then rest w = line @ 10 # rest w' \<and> f' = f
     else rest w = line \<and> rest w' = [] \<and> f' = f\<lparr>fd_eof := True\<rparr>)"
proof (induction "length (rest w)" arbitrary: ret w)
  case 0
  then have none: "rest w = []" by simp
  show ?case
    by (rule fd_read_one_regular [OF assms(1), of w]) (auto simp: none getline_loop.simps)
next
  case (Suc n)
  consider (eof) "rest w = []"
    | (byte) c w' where "rest w = c # rest w'" "fd_read os 1 (f, w) = (Inr [c], f, w')"
    by (rule fd_read_one_regular [OF assms(1), of w])
  then show ?case
  proof cases
    case eof
    with Suc show ?thesis by simp
  next
    case (byte c w')
    show ?thesis
    proof (cases "c = 10")
      case True
      with byte assms(2) show ?thesis by (auto simp: getline_loop.simps intro!: exI [of _ "[]"])
    next
      case False
      have "getline_loop os ret f w = getline_loop os (ret @ [c]) f w'"
        using False byte assms(2) by (subst getline_loop.simps) simp
      moreover obtain line f' w'' where "getline_loop os (ret @ [c]) f w' =
          Some (Inr ((ret @ [c]) @ line), f', w'')" "10 \<notin> set line"
          "if 10 \<in> set (rest w') then rest w' = line @ 10 # rest w'' \<and> f' = f
           else rest w' = line \<and> rest w'' = [] \<and> f' = f\<lparr>fd_eof := True\<rparr>"
        using Suc(1) [of w' "ret @ [c]"] Suc(2) byte by auto
      ultimately show ?thesis
        using False byte by (intro exI [of _ "c # line"]) (auto split: if_splits)
    qed
  qed
qed

text \<open>
  On a regular file whose end has not been seen, \<open>getline\<close> returns: the bytes up to the next
  newline, which it consumes, or, when there is none, all that is left, and then it sets \<open>eof_\<close>.
\<close>

lemma fd_getline_regular:
  assumes "regular_file os (fd_num f) rest" and "\<not> fd_eof f"
  shows "\<exists>line f' w'. fd_getline os (f, w) = Some (Inr line, f', w') \<and> 10 \<notin> set line \<and>
    (if 10 \<in> set (rest w) then rest w = line @ 10 # rest w' \<and> f' = f
     else rest w = line \<and> rest w' = [] \<and> f' = f\<lparr>fd_eof := True\<rparr>)"
  using getline_loop_regular [OF assms, of "[]" w] by (simp add: fd_getline_def)

lemma fd_getline_regular_witness:
  "\<exists>line f' w'. fd_getline (stream_os 4) (\<lparr>fd_num = 3, fd_eof = False\<rparr>, ([70, 10, 1], [])) =
      Some (Inr line, f', w') \<and> 10 \<notin> set line \<and> [70, 10, 1] = line @ 10 # fst w' \<and>
      f' = \<lparr>fd_num = 3, fd_eof = False\<rparr>"
  using fd_getline_regular [where os = "stream_os 4" and rest = fst and
      f = "\<lparr>fd_num = 3, fd_eof = False\<rparr>" and w = "([70, 10, 1], [])"]
  by (simp add: stream_regular)

text \<open>
  \<open>seek\<close> reports the offset that \<open>lseek\<close> returned exactly when it is below \<open>2 ^ 31\<close>: a larger
  offset, which \<open>lseek\<close> reached without error, is thrown as an error or returned as another number,
  since it passes through the \<open>int\<close> of \<open>check_syscall\<close>.
\<close>

lemma fd_seek_offset_limit:
  assumes "sys_lseek os (fd_num f) offset whence w = (v, w')" and "0 \<le> v"
  shows "fd_seek os offset whence (f, w) = (Inr (nat v), f, w') \<longleftrightarrow> v < 2 ^ 31"
proof
  assume "fd_seek os offset whence (f, w) = (Inr (nat v), f, w')"
  then have "0 \<le> as_int v" "nat (as_int v) = nat v"
    by (auto simp: fd_seek_def assms(1) check_syscall_def Let_def split: if_splits)
  with assms(2) have "as_int v = v" by simp
  then show "v < 2 ^ 31" using as_int_range [of v] by simp
next
  assume "v < 2 ^ 31"
  with assms show "fd_seek os offset whence (f, w) = (Inr (nat v), f, w')"
    by (simp add: fd_seek_def check_syscall_int)
qed

lemma fd_seek_offset_limit_witness:
  "fd_seek (stream_os 1) (2 ^ 32 + 7) SEEK_SET (\<lparr>fd_num = 3, fd_eof = False\<rparr>, ([], [])) \<noteq>
    (Inr (2 ^ 32 + 7), \<lparr>fd_num = 3, fd_eof = False\<rparr>, ([], []))"
  using fd_seek_offset_limit [where os = "stream_os 1" and offset = "2 ^ 32 + 7" and v = "2 ^ 32 + 7" and
      whence = SEEK_SET and f = "\<lparr>fd_num = 3, fd_eof = False\<rparr>" and w = "([], [])" and w' = "([], [])"]
  by (simp add: stream_os_def)

end
