(* ===== verification/Encoder.thy ===== *)
theory Encoder
  imports Protocol Ordered_Map Floating Conversion Image File_Descriptor
begin

text \<open>
  The model of \<open>src/app/encoder.hh\<close> and \<open>encoder.cc\<close>: compression of raw frames by libvpx, their
  packetisation into datagrams, the queue of datagrams to send, the map of unacknowledged datagrams,
  RTT estimation, and retransmission on acknowledgements. libvpx is a parameter; the clock readings
  of an operation are arguments of it.
\<close>

section \<open>Sequence numbers\<close>

text \<open>
  \<open>SeqNum\<close> is \<open>pair<uint32_t, uint16_t>\<close>, ordered lexicographically as \<open>std::pair\<close> is; this is the
  order of the keys of \<open>unacked_\<close>.
\<close>

datatype SeqNum = SeqNum (seq_frame: u32) (seq_frag: u16)

instantiation SeqNum :: linorder
begin

definition less_SeqNum :: "SeqNum \<Rightarrow> SeqNum \<Rightarrow> bool" where
  "less_SeqNum a b = (seq_frame a < seq_frame b \<or>
     \<not> seq_frame b < seq_frame a \<and> seq_frag a < seq_frag b)"

definition less_eq_SeqNum :: "SeqNum \<Rightarrow> SeqNum \<Rightarrow> bool" where
  "less_eq_SeqNum a b = (\<not> b < (a :: SeqNum))"

instance
  by standard (auto simp: less_SeqNum_def less_eq_SeqNum_def intro: SeqNum.expand)

end

definition seq_num :: "datagram \<Rightarrow> SeqNum" where
  "seq_num d = SeqNum (dg_frame_id d) (dg_frag_id d)"

section \<open>libvpx\<close>

text \<open>
  Constants of libvpx are named by their identifiers. An encoder packet is a compressed frame, with
  its data and whether \<open>VPX_FRAME_IS_KEY\<close> is set, or of another kind.
\<close>

type_synonym vpx_const = string

datatype cx_packet = Frame_Pkt bytes bool | Other_Pkt

record vpx_enc_cfg =
  g_w :: u32
  g_h :: u32
  g_timebase_num :: int
  g_timebase_den :: int
  g_pass :: vpx_const
  g_lag_in_frames :: int
  g_error_resilient :: vpx_const
  g_threads :: int
  rc_resize_allowed :: int
  rc_dropframe_thresh :: int
  rc_buf_initial_sz :: int
  rc_buf_optimal_sz :: int
  rc_buf_sz :: int
  rc_min_quantizer :: int
  rc_max_quantizer :: int
  rc_undershoot_pct :: int
  rc_overshoot_pct :: int
  kf_mode :: vpx_const
  kf_max_dist :: u32
  kf_min_dist :: u32
  rc_end_usage :: vpx_const
  rc_target_bitrate :: u32

record 'c vpx_encoder =
  vpx_config_default :: "vpx_const \<times> vpx_enc_cfg"
  vpx_enc_init :: "vpx_enc_cfg \<Rightarrow> vpx_const \<times> 'c"
  vpx_enc_control :: "'c \<Rightarrow> vpx_const \<Rightarrow> int \<Rightarrow> vpx_const \<times> 'c"
  vpx_encode :: "'c \<Rightarrow> vpx_image \<Rightarrow> u32 \<Rightarrow> vpx_const list \<Rightarrow> vpx_const \<times> 'c"
  vpx_get_cx_data :: "'c \<Rightarrow> cx_packet list"
  vpx_config_set :: "'c \<Rightarrow> vpx_enc_cfg \<Rightarrow> vpx_const \<times> 'c"

definition VPX_CODEC_OK :: vpx_const where
  "VPX_CODEC_OK = ''VPX_CODEC_OK''"

section \<open>State\<close>

record 'c encoder =
  enc_display_width :: u16
  enc_display_height :: u16
  enc_frame_rate :: u16
  enc_output_fd :: "file_descriptor option"
  enc_verbose :: bool
  enc_target_bitrate :: u32
  enc_cfg :: vpx_enc_cfg
  enc_context :: 'c
  enc_frame_id :: u32
  enc_send_buf :: "datagram list"
  enc_unacked :: "(SeqNum, datagram) omap"
  enc_min_rtt_us :: "u32 option"
  enc_ewma_rtt_us :: "double option"
  enc_num_encoded_frames :: u32
  enc_total_encode_time_ms :: double
  enc_max_encode_time_ms :: double

definition ALPHA :: double where
  "ALPHA = fl (2 / 10)"

definition MAX_NUM_RTX :: u32 where
  "MAX_NUM_RTX = 3"

definition MAX_UNACKED_US :: u64 where
  "MAX_UNACKED_US = 1000 * 1000"

section \<open>Construction\<close>

definition encoder_config :: "vpx_enc_cfg \<Rightarrow> u16 \<Rightarrow> u16 \<Rightarrow> u16 \<Rightarrow> u32 \<Rightarrow> vpx_enc_cfg" where
  "encoder_config cfg width height frame_rate target_bitrate = cfg
     \<lparr>g_w := ucast width, g_h := ucast height,
      g_timebase_num := 1, g_timebase_den := uint frame_rate,
      g_pass := ''VPX_RC_ONE_PASS'', g_lag_in_frames := 0,
      g_error_resilient := ''VPX_ERROR_RESILIENT_DEFAULT'', g_threads := 4,
      rc_resize_allowed := 0, rc_dropframe_thresh := 0,
      rc_buf_initial_sz := 500, rc_buf_optimal_sz := 600, rc_buf_sz := 1000,
      rc_min_quantizer := 2, rc_max_quantizer := 52,
      rc_undershoot_pct := 50, rc_overshoot_pct := 50,
      kf_mode := ''VPX_KF_DISABLED'', kf_max_dist := -1, kf_min_dist := 0,
      rc_end_usage := ''VPX_CBR'', rc_target_bitrate := target_bitrate\<rparr>"

definition encoder_controls :: "int \<Rightarrow> (vpx_const \<times> int) list" where
  "encoder_controls cpu_used =
     [(''VP8E_SET_CPUUSED'', cpu_used), (''VP8E_SET_STATIC_THRESHOLD'', 1),
      (''VP8E_SET_MAX_INTRA_BITRATE_PCT'', 900), (''VP9E_SET_AQ_MODE'', 3),
      (''VP9E_SET_TILE_COLUMNS'', 2), (''VP9E_SET_ROW_MT'', 1),
      (''VP9E_SET_FRAME_PARALLEL_DECODING'', 0), (''VP9E_SET_NOISE_SENSITIVITY'', 1)]"

fun codec_controls :: "'c vpx_encoder \<Rightarrow> 'c \<Rightarrow> (vpx_const \<times> int) list \<Rightarrow> 'c result" where
  "codec_controls vpx ctx [] = Inr ctx"
| "codec_controls vpx ctx ((control, arg) # rest) =
     (let (code, ctx') = vpx_enc_control vpx ctx control arg in
      bind_result (check_call code VPX_CODEC_OK ''vpx_codec_control_'') (\<lambda>_.
        codec_controls vpx ctx' rest))"

definition encoder_codec :: "'c vpx_encoder \<Rightarrow> int \<Rightarrow> u16 \<Rightarrow> u16 \<Rightarrow> u16 \<Rightarrow> u32
    \<Rightarrow> (vpx_enc_cfg \<times> 'c) result" where
  "encoder_codec vpx nprocs width height frame_rate target_bitrate =
     (let (code, defaults) = vpx_config_default vpx in
      bind_result (check_call code VPX_CODEC_OK ''vpx_codec_enc_config_default'') (\<lambda>_.
        let cfg = encoder_config defaults width height frame_rate target_bitrate;
            (code', ctx) = vpx_enc_init vpx cfg in
        bind_result (check_call code' VPX_CODEC_OK ''vpx_codec_enc_init'') (\<lambda>_.
        bind_result (codec_controls vpx ctx (encoder_controls (min nprocs 16))) (\<lambda>ctx'.
          Inr (cfg, ctx')))))"

text \<open>
  The constructor. When it throws after the output file was opened, the member that holds it is
  destroyed, which closes the file.
\<close>

definition encoder_init :: "'c vpx_encoder \<Rightarrow> 'w os \<Rightarrow> int \<Rightarrow> u16 \<Rightarrow> u16 \<Rightarrow> u16 \<Rightarrow> bytes \<Rightarrow> 'w
    \<Rightarrow> 'c encoder result \<times> 'w" where
  "encoder_init vpx os nprocs width height frame_rate output_path w =
     (let (out, w1) =
        (if output_path = [] then (Inr None, w)
         else case open_file os output_path [''O_WRONLY'', ''O_CREAT'', ''O_TRUNC''] w of
           (Inl e, w') \<Rightarrow> (Inl e, w') | (Inr f, w') \<Rightarrow> (Inr (Some f), w'))
      in case out of
        Inl e \<Rightarrow> (Inl e, w1)
      | Inr output_fd \<Rightarrow>
          (case encoder_codec vpx nprocs width height frame_rate 0 of
             Inl e \<Rightarrow> (Inl e, case output_fd of None \<Rightarrow> w1 | Some f \<Rightarrow> fd_destroy os f w1)
           | Inr (cfg, ctx) \<Rightarrow>
               (Inr \<lparr>enc_display_width = width, enc_display_height = height,
                  enc_frame_rate = frame_rate, enc_output_fd = output_fd, enc_verbose = False,
                  enc_target_bitrate = 0, enc_cfg = cfg, enc_context = ctx, enc_frame_id = 0,
                  enc_send_buf = [], enc_unacked = [], enc_min_rtt_us = None,
                  enc_ewma_rtt_us = None, enc_num_encoded_frames = 0,
                  enc_total_encode_time_ms = 0, enc_max_encode_time_ms = 0\<rparr>, w1)))"

section \<open>Compression\<close>

text \<open>The first unacknowledged datagram was first sent more than \<open>MAX_UNACKED_US\<close> ago.\<close>

definition gives_up :: "u64 \<Rightarrow> 'c encoder \<Rightarrow> bool" where
  "gives_up now e =
     (case enc_unacked e of
        [] \<Rightarrow> False
      | (_, first_unacked) # _ \<Rightarrow> now - dg_send_ts first_unacked > MAX_UNACKED_US)"

definition encode_frame ::
  "'c vpx_encoder \<Rightarrow> u64 \<Rightarrow> double \<Rightarrow> raw_image \<Rightarrow> ('c encoder, unit) action" where
  "encode_frame vpx now encode_time_ms raw_img e =
     (if raw_display_width raw_img \<noteq> enc_display_width e \<or>
         raw_display_height raw_img \<noteq> enc_display_height e
      then (Inl (Runtime_Error ''Encoder: image dimensions don't match''), e)
      else
        let (encode_flags, e1) =
              (if gives_up now e
               then ([''VPX_EFLAG_FORCE_KF''], e\<lparr>enc_send_buf := [], enc_unacked := []\<rparr>)
               else ([], e));
            (code, ctx) = vpx_encode vpx (enc_context e1) (raw_vpx_img raw_img) (enc_frame_id e1)
              encode_flags;
            e2 = e1\<lparr>enc_context := ctx\<rparr>
        in case check_call code VPX_CODEC_OK ''failed to encode a frame'' of
             Inl er \<Rightarrow> (Inl er, e2)
           | Inr _ \<Rightarrow> (Inr (), e2
               \<lparr>enc_num_encoded_frames := enc_num_encoded_frames e2 + 1,
                enc_total_encode_time_ms := double_add (enc_total_encode_time_ms e2) encode_time_ms,
                enc_max_encode_time_ms := max (enc_max_encode_time_ms e2) encode_time_ms\<rparr>))"

section \<open>Packetisation\<close>

text \<open>
  The loop over the fragments of one frame: \<open>buf\<close> is the data from \<open>buf_ptr\<close> to \<open>buf_end\<close>, the
  result is the queue of datagrams to send. A payload that reaches past \<open>buf_end\<close> would be a read
  outside of the frame.
\<close>

function frag_loop :: "nat \<Rightarrow> u32 \<Rightarrow> frame_type \<Rightarrow> u16 \<Rightarrow> u16 \<Rightarrow> bytes \<Rightarrow> (datagram list, unit) action" where
  "frag_loop max_payload frame_id frame_type frag_cnt frag_id buf send_buf =
     (if frag_id < frag_cnt then
        (let payload_size =
           (if int (unat frag_id) < int (unat frag_cnt) - 1 then max_payload else length buf)
         in if payload_size > length buf
            then (Inl (Undefined_Behaviour ''read past the end of the frame''), send_buf)
            else frag_loop max_payload frame_id frame_type frag_cnt (frag_id + 1)
              (drop payload_size buf)
              (send_buf @ [make_datagram frame_id frame_type frag_id frag_cnt (take payload_size buf)]))
      else (Inr (), send_buf))"
  by pat_completeness auto
termination
  by (relation "measure (\<lambda>(mp, fid, ft, cnt, id, buf, sb). unat cnt - unat id)")
    (auto simp: unat_suc_no_wrap word_less_nat_alt)

declare frag_loop.simps [simp del]

definition fragment_count :: "nat \<Rightarrow> nat \<Rightarrow> u16 result" where
  "fragment_count max_payload frame_size =
     bind_result (narrow_cast uint16_t uint64_t (int (frame_size div (max_payload + 1) + 1)))
       (\<lambda>v. Inr (word_of_int v))"

text \<open>The loop over the packets of the codec context; the result is the size of the frame.\<close>

fun packet_loop :: "nat \<Rightarrow> cx_packet list \<Rightarrow> nat \<Rightarrow> nat \<Rightarrow> ('c encoder, nat) action" where
  "packet_loop max_payload [] frames_encoded frame_size e = (Inr frame_size, e)"
| "packet_loop max_payload (Other_Pkt # pkts) frames_encoded frame_size e =
     packet_loop max_payload pkts frames_encoded frame_size e"
| "packet_loop max_payload (Frame_Pkt data is_key # pkts) frames_encoded frame_size e =
     (if frames_encoded + 1 > 1
      then (Inl (Runtime_Error ''Multiple frames were encoded at once''), e)
      else if \<not> length data > 0 then (Inl (Assertion_Failed ''frame_size > 0''), e)
      else
        let frame_type = (if is_key then KEY else NONKEY) in
        case fragment_count max_payload (length data) of
          Inl er \<Rightarrow> (Inl er, e)
        | Inr frag_cnt \<Rightarrow>
            (case frag_loop max_payload (enc_frame_id e) frame_type frag_cnt 0 data (enc_send_buf e) of
               (Inl er, buf) \<Rightarrow> (Inl er, e\<lparr>enc_send_buf := buf\<rparr>)
             | (Inr _, buf) \<Rightarrow>
                 packet_loop max_payload pkts (frames_encoded + 1) (length data)
                   (e\<lparr>enc_send_buf := buf\<rparr>)))"

definition packetize_encoded_frame :: "'c vpx_encoder \<Rightarrow> nat \<Rightarrow> ('c encoder, nat) action" where
  "packetize_encoded_frame vpx max_payload e =
     packet_loop max_payload (vpx_get_cx_data vpx (enc_context e)) 0 0 e"

text \<open>The line written to the output file for a frame.\<close>

definition comma_separated :: "nat list \<Rightarrow> bytes" where
  "comma_separated ns =
     concat (map (\<lambda>(i, n). (if i = 0 then [] else ascii '','') @ to_string n) (enumerate 0 ns)) @ [10]"

text \<open>
  The clock readings of one call of \<open>compress_frame\<close>, in the order they are made; the duration is
  that of \<open>vpx_codec_encode\<close>.
\<close>

record encode_times =
  ts_generation :: u64
  ts_now :: u64
  ts_encode_ms :: double
  ts_encoded :: u64

definition compress_frame ::
  "'c vpx_encoder \<Rightarrow> 'w os \<Rightarrow> nat \<Rightarrow> encode_times \<Rightarrow> raw_image \<Rightarrow> ('c encoder \<times> 'w, unit) action" where
  "compress_frame vpx os max_payload ts raw_img = (\<lambda>(e, w).
     case bind_action (encode_frame vpx (ts_now ts) (ts_encode_ms ts) raw_img)
         (\<lambda>_. packetize_encoded_frame vpx max_payload) e of
       (Inl er, e1) \<Rightarrow> (Inl er, e1, w)
     | (Inr frame_size, e1) \<Rightarrow>
         let e2 = e1\<lparr>enc_frame_id := enc_frame_id e1 + 1\<rparr> in
         (case enc_output_fd e1 of
            None \<Rightarrow> (Inr (), e2, w)
          | Some fd \<Rightarrow>
              (case fd_write os (comma_separated [unat (enc_frame_id e1), unat (enc_target_bitrate e1),
                   frame_size, unat (ts_generation ts), unat (ts_encoded ts)]) (fd, w) of
                 (Inl er, fd', w') \<Rightarrow> (Inl er, e1\<lparr>enc_output_fd := Some fd'\<rparr>, w')
               | (Inr _, fd', w') \<Rightarrow> (Inr (), e2\<lparr>enc_output_fd := Some fd'\<rparr>, w'))))"

section \<open>Acknowledgements\<close>

text \<open>The two overloads differ in whether the datagram is copied or moved into the map.\<close>

definition add_unacked :: "datagram \<Rightarrow> ('c encoder, unit) action" where
  "add_unacked datagram e =
     (let (unacked, success) = om_emplace (seq_num datagram)
        (datagram\<lparr>dg_last_send_ts := dg_send_ts datagram\<rparr>) (enc_unacked e)
      in if \<not> success then (Inl (Runtime_Error ''datagram already exists in unacked''), e)
         else (Inr (), e\<lparr>enc_unacked := unacked\<rparr>))"

definition ewma_step :: "double option \<Rightarrow> u32 \<Rightarrow> double" where
  "ewma_step ewma rtt_us =
     (case ewma of
        None \<Rightarrow> double_of_nat (unat rtt_us)
      | Some old \<Rightarrow> double_add (double_mul ALPHA (double_of_nat (unat rtt_us)))
          (double_mul (double_sub 1 ALPHA) old))"

definition add_rtt_sample :: "u32 \<Rightarrow> 'c encoder \<Rightarrow> 'c encoder" where
  "add_rtt_sample rtt_us e = e
     \<lparr>enc_min_rtt_us :=
        (case enc_min_rtt_us e of
           None \<Rightarrow> Some rtt_us
         | Some m \<Rightarrow> if rtt_us < m then Some rtt_us else Some m),
      enc_ewma_rtt_us := Some (ewma_step (enc_ewma_rtt_us e) rtt_us)\<rparr>"

text \<open>Whether an unacknowledged datagram before an acknowledged one is sent again.\<close>

definition rtx_due :: "u64 \<Rightarrow> double option \<Rightarrow> datagram \<Rightarrow> bool result" where
  "rtx_due curr_ts ewma d =
     (if dg_num_rtx d \<ge> MAX_NUM_RTX then Inr False
      else if dg_num_rtx d = 0 then Inr True
      else case ewma of
        None \<Rightarrow> Inl Bad_Optional_Access
      | Some rtt \<Rightarrow> Inr (double_of_nat (unat (curr_ts - dg_last_send_ts d)) > rtt))"

text \<open>
  The loop over the reversed range before the acknowledged datagram: it updates the entries in place
  and pushes a copy of each one that is due to the front of the queue.
\<close>

fun rtx_loop :: "u64 \<Rightarrow> double option \<Rightarrow> (SeqNum, datagram) omap \<Rightarrow> datagram list
    \<Rightarrow> unit result \<times> (SeqNum, datagram) omap \<times> datagram list" where
  "rtx_loop curr_ts ewma [] send_buf = (Inr (), [], send_buf)"
| "rtx_loop curr_ts ewma ((k, d) # rev_range) send_buf =
     (case rtx_due curr_ts ewma d of
        Inl er \<Rightarrow> (Inl er, (k, d) # rev_range, send_buf)
      | Inr due \<Rightarrow>
          let d' = (if due then d\<lparr>dg_num_rtx := dg_num_rtx d + 1, dg_last_send_ts := curr_ts\<rparr> else d);
              (r, done, buf) = rtx_loop curr_ts ewma rev_range (if due then d' # send_buf else send_buf)
          in (r, (k, d') # done, buf))"

definition handle_ack :: "u64 \<Rightarrow> ack_msg \<Rightarrow> ('c encoder, unit) action" where
  "handle_ack curr_ts ack e =
     (let e1 = add_rtt_sample (ucast (curr_ts - ack_send_ts ack)) e;
          acked = SeqNum (ack_frame_id ack) (ack_frag_id ack)
      in case om_find (enc_unacked e1) acked of
           None \<Rightarrow> (Inr (), e1)
         | Some _ \<Rightarrow>
             (let (r, done, buf) = rtx_loop curr_ts (enc_ewma_rtt_us e1)
                    (rev (om_before acked (enc_unacked e1))) (enc_send_buf e1);
                  unacked = rev done @ om_from acked (enc_unacked e1)
              in case r of
                   Inl er \<Rightarrow> (Inl er, e1\<lparr>enc_unacked := unacked, enc_send_buf := buf\<rparr>)
                 | Inr _ \<Rightarrow>
                     (Inr (), e1\<lparr>enc_unacked := om_erase acked unacked, enc_send_buf := buf\<rparr>)))"

section \<open>Statistics and bitrate\<close>

text \<open>The reset made by \<open>output_periodic_stats\<close>; what it prints is in the theory \<open>Statistics\<close>.\<close>

definition output_periodic_stats :: "'c encoder \<Rightarrow> 'c encoder" where
  "output_periodic_stats e =
     e\<lparr>enc_num_encoded_frames := 0, enc_total_encode_time_ms := 0, enc_max_encode_time_ms := 0\<rparr>"

definition set_target_bitrate :: "'c vpx_encoder \<Rightarrow> u32 \<Rightarrow> ('c encoder, unit) action" where
  "set_target_bitrate vpx bitrate_kbps e =
     (let e1 = e\<lparr>enc_target_bitrate := bitrate_kbps,
            enc_cfg := (enc_cfg e)\<lparr>rc_target_bitrate := bitrate_kbps\<rparr>\<rparr>;
          (code, ctx) = vpx_config_set vpx (enc_context e1) (enc_cfg e1)
      in (check_call code VPX_CODEC_OK ''set_target_bitrate'', e1\<lparr>enc_context := ctx\<rparr>))"

definition set_verbose :: "bool \<Rightarrow> 'c encoder \<Rightarrow> 'c encoder" where
  "set_verbose verbose e = e\<lparr>enc_verbose := verbose\<rparr>"

text \<open>
  The destructor destroys the context of libvpx, a failure of which is only reported, and then the members: the
  output file is closed.
\<close>

definition encoder_destroy :: "('c \<Rightarrow> vpx_const \<times> 'c) \<Rightarrow> 'w os \<Rightarrow> 'c encoder \<Rightarrow> 'w \<Rightarrow> 'c \<times> 'w" where
  "encoder_destroy vpx_codec_destroy os e w =
     (snd (vpx_codec_destroy (enc_context e)),
      case enc_output_fd e of None \<Rightarrow> w | Some f \<Rightarrow> fd_destroy os f w)"

section \<open>What packetisation computes\<close>

text \<open>The payloads of a frame cut into \<open>n\<close> fragments: all but the last have \<open>M\<close> bytes.\<close>

fun chunks :: "nat \<Rightarrow> nat \<Rightarrow> bytes \<Rightarrow> bytes list" where
  "chunks M 0 data = []"
| "chunks M (Suc 0) data = [data]"
| "chunks M (Suc (Suc n)) data = take M data # chunks M (Suc n) (drop M data)"

definition frame_datagrams :: "nat \<Rightarrow> u32 \<Rightarrow> frame_type \<Rightarrow> u16 \<Rightarrow> bytes \<Rightarrow> datagram list" where
  "frame_datagrams M frame_id frame_type frag_cnt data =
     map (\<lambda>(i, p). make_datagram frame_id frame_type (word_of_nat i) frag_cnt p)
       (enumerate 0 (chunks M (unat frag_cnt) data))"

lemma length_chunks [simp]: "length (chunks M n data) = n"
  by (induction M n data rule: chunks.induct) simp_all

lemma concat_chunks: "0 < n \<Longrightarrow> concat (chunks M n data) = data"
  by (induction M n data rule: chunks.induct) simp_all

lemma chunks_lengths:
  assumes "n * M \<le> length data"
  shows "map length (chunks M (Suc n) data) = replicate n M @ [length data - n * M]"
  using assms
proof (induction n arbitrary: data)
  case (Suc n)
  then have "n * M \<le> length (drop M data)" "M \<le> length data" by simp_all
  with Suc.IH [of "drop M data"] show ?case by simp
qed simp

lemma frag_loop_chunks:
  assumes "frag_id < frag_cnt" and "(unat frag_cnt - unat frag_id - 1) * M \<le> length buf"
  shows "frag_loop M frame_id frame_type frag_cnt frag_id buf send_buf =
    (Inr (), send_buf @ map (\<lambda>(i, p). make_datagram frame_id frame_type (word_of_nat i) frag_cnt p)
      (enumerate (unat frag_id) (chunks M (unat frag_cnt - unat frag_id) buf)))"
  using assms
proof (induction M frame_id frame_type frag_cnt frag_id buf send_buf rule: frag_loop.induct)
  case (1 M frame_id frame_type frag_cnt frag_id buf send_buf)
  have less: "unat frag_id < unat frag_cnt" using "1.prems"(1) by (simp add: word_less_nat_alt)
  have suc: "unat (frag_id + 1) = Suc (unat frag_id)"
    using unat_suc_no_wrap [OF "1.prems"(1)] by simp
  show ?case
  proof (cases "unat frag_cnt = Suc (unat frag_id)")
    case True
    then have "\<not> frag_id + 1 < frag_cnt" by (simp add: word_less_nat_alt suc)
    with True "1.prems"(1) show ?thesis
      by (simp add: frag_loop.simps [of M frame_id frame_type frag_cnt frag_id]
          frag_loop.simps [of M frame_id frame_type frag_cnt "frag_id + 1"] Let_def)
  next
    case False
    with less obtain n where n: "unat frag_cnt - unat frag_id = Suc (Suc n)"
      by (metis Suc_lessI diff_diff_cancel diff_zero less_imp_le_nat nat.exhaust zero_less_diff
          diff_Suc_1 Suc_diff_Suc not_less_eq less_antisym)
    then have lt: "Suc (unat frag_id) < unat frag_cnt" by linarith
    then have more: "int (unat frag_id) < int (unat frag_cnt) - 1" by linarith
    have tail: "frag_id + 1 < frag_cnt" "unat frag_cnt - unat (frag_id + 1) = Suc n"
      using lt n by (simp_all add: word_less_nat_alt suc)
    have room: "M \<le> length buf" "(unat frag_cnt - unat (frag_id + 1) - 1) * M \<le> length (drop M buf)"
      using "1.prems"(2) n tail(2) by simp_all
    have step: "frag_loop M frame_id frame_type frag_cnt frag_id buf send_buf =
        frag_loop M frame_id frame_type frag_cnt (frag_id + 1) (drop M buf)
          (send_buf @ [make_datagram frame_id frame_type frag_id frag_cnt (take M buf)])"
      using "1.prems"(1) more room(1)
      by (simp add: frag_loop.simps [of M frame_id frame_type frag_cnt frag_id] Let_def)
    have n': "unat frag_cnt - Suc (unat frag_id) = Suc n" using n by simp
    have bound: "(unat frag_cnt - unat (frag_id + 1) - 1) * M \<le> length (drop M buf)"
      by (rule room(2))
    have "frag_loop M frame_id frame_type frag_cnt (frag_id + 1) (drop M buf)
        (send_buf @ [make_datagram frame_id frame_type frag_id frag_cnt (take M buf)]) =
      (Inr (), send_buf @ [make_datagram frame_id frame_type frag_id frag_cnt (take M buf)] @
        map (\<lambda>(i, p). make_datagram frame_id frame_type (word_of_nat i) frag_cnt p)
          (enumerate (Suc (unat frag_id)) (chunks M (Suc n) (drop M buf))))"
      using "1.IH" [OF "1.prems"(1) refl] more tail(1) room(1) bound
      by (simp add: suc n' not_less)
    then show ?thesis unfolding step by (simp add: n)
  qed
qed

lemma fragment_count_fits:
  assumes "sz div (M + 1) + 1 < 2 ^ 16"
  shows "fragment_count M sz = Inr (word_of_nat (sz div (M + 1) + 1)) \<and>
    unat (word_of_nat (sz div (M + 1) + 1) :: u16) = sz div (M + 1) + 1"
proof -
  define n where "n = sz div (M + 1) + 1"
  have "narrow_cast uint16_t uint64_t (int n) = Inr (int n)"
    using assms narrow_cast_narrower [of uint64_t "int n" uint16_t]
    by (simp add: in_range_def n_def)
  moreover have "unat (word_of_nat n :: u16) = n"
    by (rule unat_of_nat_small) (use assms in \<open>simp add: n_def\<close>)
  ultimately show ?thesis
    unfolding n_def [symmetric] fragment_count_def by simp
qed

lemma fragment_count_overflow:
  assumes "2 ^ 16 \<le> sz div (M + 1) + 1" and "sz < 2 ^ 63"
  shows "fragment_count M sz = Inl (Runtime_Error ''narrow_cast'')"
proof -
  define n where "n = sz div (M + 1) + 1"
  have "sz < 9223372036854775808" using assms(2) by simp
  then have "n < 18446744073709551616"
    using div_le_dividend [of sz "M + 1"] unfolding n_def by linarith
  with assms have "2 ^ 16 \<le> n" "n < 2 ^ 64" by (simp_all add: n_def)
  then have "narrow_cast uint16_t uint64_t (int n) = Inl (Runtime_Error ''narrow_cast'')"
    using narrow_cast_narrower [of uint64_t "int n" uint16_t]
    by (simp add: in_range_def)
  then show ?thesis unfolding n_def [symmetric] fragment_count_def by simp
qed

lemma fragment_count_limit:
  assumes "fragment_count M sz = Inr c"
  shows "sz div (M + 1) + 1 < 2 ^ 16"
proof -
  define n where "n = sz div (M + 1) + 1"
  have "fragment_count M sz = bind_result (narrow_cast uint16_t uint64_t (int n)) (\<lambda>v. Inr (word_of_int v))"
    unfolding fragment_count_def n_def ..
  then have "take_bit 64 (take_bit 16 (int n)) = int n"
    using assms by (auto simp: narrow_cast_def static_cast_def bind_result_Inr_iff Let_def split: if_splits)
  then have "take_bit 16 (int n) = int n" by simp
  with take_bit_int_less_exp [of 16 "int n"] have "int n < 2 ^ 16" by simp
  then show ?thesis unfolding n_def [symmetric] by simp
qed

lemma frame_fragments_fit: "(sz div (M + 1)) * M \<le> (sz :: nat)"
  by (metis add.commute div_times_less_eq_dividend dual_order.trans le_add2 mult_Suc_right plus_1_eq_Suc)

lemma frag_loop_frame:
  assumes "sz = length data" and "sz div (M + 1) + 1 < 2 ^ 16"
    and "frag_cnt = word_of_nat (sz div (M + 1) + 1)"
  shows "frag_loop M frame_id frame_type frag_cnt 0 data send_buf =
    (Inr (), send_buf @ frame_datagrams M frame_id frame_type frag_cnt data)"
proof -
  have cnt: "unat frag_cnt = sz div (M + 1) + 1" using fragment_count_fits [OF assms(2)] assms(3) by simp
  then have "0 < frag_cnt" by (simp add: word_less_nat_alt)
  moreover have "(unat frag_cnt - unat (0 :: u16) - 1) * M \<le> length data"
    using frame_fragments_fit [of sz M] by (simp add: cnt assms(1))
  ultimately show ?thesis
    using frag_loop_chunks [of 0 frag_cnt M data frame_id frame_type send_buf]
    by (simp add: frame_datagrams_def)
qed

lemma frame_datagrams_facts:
  assumes "0 < unat frag_cnt" and "(unat frag_cnt - 1) * M \<le> length data"
  shows "length (frame_datagrams M frame_id frame_type frag_cnt data) = unat frag_cnt"
    and "concat (map dg_payload (frame_datagrams M frame_id frame_type frag_cnt data)) = data"
    and "i < unat frag_cnt \<Longrightarrow> frame_datagrams M frame_id frame_type frag_cnt data ! i =
      make_datagram frame_id frame_type (word_of_nat i) frag_cnt
        (dg_payload (frame_datagrams M frame_id frame_type frag_cnt data ! i))"
    and "map (\<lambda>d. length (dg_payload d)) (frame_datagrams M frame_id frame_type frag_cnt data) =
      replicate (unat frag_cnt - 1) M @ [length data - (unat frag_cnt - 1) * M]"
proof -
  let ?ds = "frame_datagrams M frame_id frame_type frag_cnt data"
  have payloads: "map dg_payload ?ds = chunks M (unat frag_cnt) data"
    by (rule nth_equalityI)
      (simp_all add: frame_datagrams_def make_datagram_def nth_enumerate_eq)
  show "length ?ds = unat frag_cnt" by (simp add: frame_datagrams_def)
  show "concat (map dg_payload ?ds) = data" using assms(1) by (simp add: payloads concat_chunks)
  show "i < unat frag_cnt \<Longrightarrow> ?ds ! i =
      make_datagram frame_id frame_type (word_of_nat i) frag_cnt (dg_payload (?ds ! i))"
    by (simp add: frame_datagrams_def make_datagram_def nth_enumerate_eq)
  obtain n where n: "unat frag_cnt = Suc n" using assms(1) gr0_implies_Suc by blast
  have "map (\<lambda>d. length (dg_payload d)) ?ds = map length (map dg_payload ?ds)" by simp
  then show "map (\<lambda>d. length (dg_payload d)) ?ds =
      replicate (unat frag_cnt - 1) M @ [length data - (unat frag_cnt - 1) * M]"
    using chunks_lengths [of n M data] assms(2) unfolding payloads n by simp
qed

section \<open>Properties of packetisation\<close>

fun frame_pkts :: "cx_packet list \<Rightarrow> (bytes \<times> bool) list" where
  "frame_pkts [] = []"
| "frame_pkts (Other_Pkt # pkts) = frame_pkts pkts"
| "frame_pkts (Frame_Pkt data is_key # pkts) = (data, is_key) # frame_pkts pkts"

text \<open>
  A codec whose context is the list of packets it returns, and an encoder on it; the witnesses of
  this theory are evaluated there.
\<close>

definition plain_cfg :: vpx_enc_cfg where
  "plain_cfg = \<lparr>g_w = 0, g_h = 0, g_timebase_num = 1, g_timebase_den = 30, g_pass = [],
     g_lag_in_frames = 0, g_error_resilient = [], g_threads = 1, rc_resize_allowed = 0,
     rc_dropframe_thresh = 0, rc_buf_initial_sz = 0, rc_buf_optimal_sz = 0, rc_buf_sz = 0,
     rc_min_quantizer = 0, rc_max_quantizer = 0, rc_undershoot_pct = 0, rc_overshoot_pct = 0,
     kf_mode = [], kf_max_dist = 0, kf_min_dist = 0, rc_end_usage = [], rc_target_bitrate = 0\<rparr>"

definition scripted_vpx :: "cx_packet list vpx_encoder" where
  "scripted_vpx = \<lparr>vpx_config_default = (VPX_CODEC_OK, plain_cfg),
     vpx_enc_init = (\<lambda>_. (VPX_CODEC_OK, [])), vpx_enc_control = (\<lambda>c _ _. (VPX_CODEC_OK, c)),
     vpx_encode = (\<lambda>c _ _ _. (VPX_CODEC_OK, c)), vpx_get_cx_data = (\<lambda>c. c),
     vpx_config_set = (\<lambda>c _. (VPX_CODEC_OK, c))\<rparr>"

definition scripted_encoder :: "cx_packet list \<Rightarrow> cx_packet list encoder" where
  "scripted_encoder pkts = \<lparr>enc_display_width = 4, enc_display_height = 2, enc_frame_rate = 30,
     enc_output_fd = None, enc_verbose = False, enc_target_bitrate = 500, enc_cfg = plain_cfg,
     enc_context = pkts, enc_frame_id = 7, enc_send_buf = [], enc_unacked = [],
     enc_min_rtt_us = None, enc_ewma_rtt_us = None, enc_num_encoded_frames = 0,
     enc_total_encode_time_ms = 0, enc_max_encode_time_ms = 0\<rparr>"

text \<open>Packets of another kind are skipped.\<close>

lemma packet_loop_rest:
  "packet_loop M pkts (Suc 0) sz e =
     (if frame_pkts pkts = [] then (Inr sz, e)
      else (Inl (Runtime_Error ''Multiple frames were encoded at once''), e))"
  by (induction pkts rule: frame_pkts.induct) simp_all

lemma packet_loop_first:
  "packet_loop M pkts 0 0 e =
     (case frame_pkts pkts of
        [] \<Rightarrow> (Inr 0, e)
      | (data, is_key) # rest \<Rightarrow>
          packet_loop M (Frame_Pkt data is_key # (if rest = [] then [] else [Frame_Pkt [] False])) 0 0 e)"
  by (induction pkts rule: frame_pkts.induct)
    (simp_all add: packet_loop_rest Let_def split: sum.split prod.split)

lemma packetize_first:
  "packetize_encoded_frame vpx M e =
     (case frame_pkts (vpx_get_cx_data vpx (enc_context e)) of
        [] \<Rightarrow> (Inr 0, e)
      | (data, is_key) # rest \<Rightarrow>
          packet_loop M (Frame_Pkt data is_key # (if rest = [] then [] else [Frame_Pkt [] False])) 0 0 e)"
  unfolding packetize_encoded_frame_def by (rule packet_loop_first)

lemma packet_loop_frame:
  assumes "data \<noteq> []" and "length data div (M + 1) + 1 < 2 ^ 16"
  shows "packet_loop M (Frame_Pkt data is_key # pkts) 0 0 e =
    packet_loop M pkts 1 (length data) (e\<lparr>enc_send_buf := enc_send_buf e @
      frame_datagrams M (enc_frame_id e) (if is_key then KEY else NONKEY)
        (word_of_nat (length data div (M + 1) + 1)) data\<rparr>)"
  using assms(1) fragment_count_fits [OF assms(2)] frag_loop_frame [OF refl assms(2) refl]
  by (simp add: Let_def)

text \<open>The datagrams of a frame, as the receiver needs them.\<close>

definition cut_into :: "u32 \<Rightarrow> frame_type \<Rightarrow> bytes \<Rightarrow> datagram list \<Rightarrow> bool" where
  "cut_into frame_id frame_type data ds \<longleftrightarrow>
     concat (map dg_payload ds) = data \<and> 0 < length ds \<and> length ds < 2 ^ 16 \<and>
     (\<forall>i < length ds. ds ! i = make_datagram frame_id frame_type
        (word_of_nat i) (word_of_nat (length ds)) (dg_payload (ds ! i)))"

lemma frame_datagrams_cut:
  assumes "length data div (M + 1) + 1 < 2 ^ 16"
  shows "cut_into k t data (frame_datagrams M k t (word_of_nat (length data div (M + 1) + 1)) data)"
proof -
  let ?n = "length data div (M + 1) + 1"
  have n: "unat (word_of_nat ?n :: u16) = ?n" using fragment_count_fits [OF assms] by blast
  then have pos: "0 < unat (word_of_nat ?n :: u16)"
    and fits: "(unat (word_of_nat ?n :: u16) - 1) * M \<le> length data"
    using frame_fragments_fit [of "length data" M] by simp_all
  note facts = frame_datagrams_facts [OF pos fits]
  have "length (frame_datagrams M k t (word_of_nat ?n) data) = ?n" for k t using facts(1) n by simp
  then show ?thesis using facts(2,3) n assms by (simp add: cut_into_def)
qed

lemma packetize_cut:
  assumes "frame_pkts (vpx_get_cx_data vpx (enc_context e)) = [(data, is_key)]"
    and "data \<noteq> []" and "length data div (M + 1) + 1 < 2 ^ 16"
  shows "\<exists>ds. packetize_encoded_frame vpx M e =
      (Inr (length data), e\<lparr>enc_send_buf := enc_send_buf e @ ds\<rparr>) \<and>
    cut_into (enc_frame_id e) (if is_key then KEY else NONKEY) data ds"
  using frame_datagrams_cut [OF assms(3)] packet_loop_frame [OF assms(2,3), of is_key "[]" e]
  unfolding packetize_first assms(1) by (auto simp del: packet_loop.simps(3))

text \<open>
  C9: when libvpx returns one non-empty compressed frame that needs at most 65,535 fragments,
  packetising it appends to the queue exactly the datagrams of that frame: their payloads, in order,
  are the bytes of the frame, the \<open>i\<close>-th one has fragment id \<open>i\<close>, and each has the frame's id, its type,
  the number of fragments and no send time yet; nothing else of the encoder changes, and the result
  is the size of the frame.
\<close>

theorem packetize_one_frame:
  assumes "frame_pkts (vpx_get_cx_data vpx (enc_context e)) = [(data, is_key)]"
    and "data \<noteq> []" and "length data div (M + 1) + 1 < 2 ^ 16"
  shows "\<exists>ds. packetize_encoded_frame vpx M e =
      (Inr (length data), e\<lparr>enc_send_buf := enc_send_buf e @ ds\<rparr>) \<and>
    concat (map dg_payload ds) = data \<and> 0 < length ds \<and> length ds < 2 ^ 16 \<and>
    (\<forall>i < length ds. ds ! i = make_datagram (enc_frame_id e) (if is_key then KEY else NONKEY)
       (word_of_nat i) (word_of_nat (length ds)) (dg_payload (ds ! i)))"
  using packetize_cut [OF assms] by (simp add: cut_into_def)

theorem packetize_one_frame_witness:
  "\<exists>ds. packetize_encoded_frame scripted_vpx 2 (scripted_encoder [Other_Pkt, Frame_Pkt [9, 8, 7] True]) =
      (Inr 3, scripted_encoder [Other_Pkt, Frame_Pkt [9, 8, 7] True]\<lparr>enc_send_buf := ds\<rparr>) \<and>
    concat (map dg_payload ds) = [9, 8, 7]"
  using packetize_one_frame [of scripted_vpx "scripted_encoder [Other_Pkt, Frame_Pkt [9, 8, 7] True]"
      "[9, 8, 7]" True 2]
  by (auto simp: scripted_vpx_def scripted_encoder_def)

text \<open>
  C28: the outcomes that are errors. No compressed frame at all is no error, and changes nothing; an
  empty one fails the assertion; one that needs more than 65,535 fragments is refused by
  \<open>narrow_cast\<close> before anything is queued; a second one in the same call throws, after the datagrams of
  the first were queued.
\<close>

theorem packetize_errors:
  assumes "frame_pkts (vpx_get_cx_data vpx (enc_context e)) = frames"
    and "length (fst (hd frames)) < 2 ^ 63"
  shows "case frames of
      [] \<Rightarrow> packetize_encoded_frame vpx M e = (Inr 0, e)
    | (data, is_key) # others \<Rightarrow>
        (if data = []
         then packetize_encoded_frame vpx M e = (Inl (Assertion_Failed ''frame_size > 0''), e)
         else if 2 ^ 16 \<le> length data div (M + 1) + 1
         then packetize_encoded_frame vpx M e = (Inl (Runtime_Error ''narrow_cast''), e)
         else if others = [] then succeeds (fst (packetize_encoded_frame vpx M e))
         else fst (packetize_encoded_frame vpx M e) =
             Inl (Runtime_Error ''Multiple frames were encoded at once'') \<and>
           concat (map dg_payload (enc_send_buf (snd (packetize_encoded_frame vpx M e)))) =
             concat (map dg_payload (enc_send_buf e)) @ data)"
proof (cases frames)
  case Nil
  then show ?thesis
    using assms(1) by (simp add: packetize_first)
next
  case (Cons p others)
  obtain data is_key where p: "p = (data, is_key)" by (cases p)
  have loop: "packetize_encoded_frame vpx M e = packet_loop M
      (Frame_Pkt data is_key # (if others = [] then [] else [Frame_Pkt [] False])) 0 0 e"
    using assms(1) unfolding packetize_first by (simp add: Cons p del: packet_loop.simps)
  consider "data = []" | "data \<noteq> []" "2 ^ 16 \<le> length data div (M + 1) + 1"
    | (fits) "data \<noteq> []" "length data div (M + 1) + 1 < 2 ^ 16" by linarith
  then show ?thesis
  proof cases
    case fits
    let ?n = "length data div (M + 1) + 1"
    have "unat (word_of_nat ?n :: u16) = ?n" using fragment_count_fits [OF fits(2)] by blast
    then have "concat (map dg_payload (frame_datagrams M f t (word_of_nat ?n) data)) = data" for f t
      using frame_fragments_fit [of "length data" M] by (intro frame_datagrams_facts(2)) simp_all
    then show ?thesis
      using fits unfolding loop packet_loop_frame [OF fits] by (simp add: Cons p)
  qed (use fragment_count_overflow [of "length data" M] assms(2) in \<open>simp_all add: Cons p loop\<close>)
qed

theorem packetize_errors_witness:
  "fst (packetize_encoded_frame scripted_vpx 2
     (scripted_encoder [Frame_Pkt [9, 8, 7] True, Other_Pkt, Frame_Pkt [1] False])) =
   Inl (Runtime_Error ''Multiple frames were encoded at once'')"
  using packetize_errors [of scripted_vpx
      "scripted_encoder [Frame_Pkt [9, 8, 7] True, Other_Pkt, Frame_Pkt [1] False]"
      "[([9, 8, 7], True), ([1], False)]" 2]
  by (simp add: scripted_vpx_def scripted_encoder_def)

text \<open>
  C27: with the payload limit \<open>M\<close> that \<open>set_mtu\<close> computes for an MTU, the datagrams of a frame of \<open>S\<close>
  bytes all fit into packets of that MTU exactly when \<open>S div (M + 1) + S mod (M + 1) \<le> M\<close>: the fragment
  count is computed with \<open>max_payload + 1\<close> while fragments are cut at \<open>max_payload\<close>, so the last
  fragment collects one byte more per full fragment before it, and a frame whose last fragment is
  nearly full overruns the limit.
\<close>

theorem datagrams_fit_mtu_iff:
  assumes "set_mtu mtu = Inr M"
    and "frame_pkts (vpx_get_cx_data vpx (enc_context e)) = [(data, is_key)]"
    and "data \<noteq> []" and "length data div (M + 1) + 1 < 2 ^ 16" and "enc_send_buf e = []"
  shows "(\<forall>d \<in> set (enc_send_buf (snd (packetize_encoded_frame vpx M e))).
      28 + length (datagram_serialize_to_string d) \<le> unat mtu) \<longleftrightarrow>
    length data div (M + 1) + length data mod (M + 1) \<le> M"
proof -
  let ?n = "length data div (M + 1) + 1"
  let ?ds = "frame_datagrams M (enc_frame_id e) (if is_key then KEY else NONKEY) (word_of_nat ?n) data"
  have n: "unat (word_of_nat ?n :: u16) = ?n" using fragment_count_fits [OF assms(4)] by blast
  then have pos: "0 < unat (word_of_nat ?n :: u16)"
    and fits: "(unat (word_of_nat ?n :: u16) - 1) * M \<le> length data"
    using frame_fragments_fit [of "length data" M] by simp_all
  have buf: "enc_send_buf (snd (packetize_encoded_frame vpx M e)) = ?ds"
    unfolding packetize_first assms(2)
    using packet_loop_frame [OF assms(3,4), of is_key "[]" e] assms(5)
    by (simp del: packet_loop.simps(3))
  have mtu: "28 + length (datagram_serialize_to_string d) \<le> unat mtu \<longleftrightarrow> length (dg_payload d) \<le> M" for d
    using assms(1) by (auto simp: set_mtu_def length_datagram_serialize word_less_nat_alt split: if_splits)
  have "length data = length data div (M + 1) * (M + 1) + length data mod (M + 1)"
    by (metis div_mult_mod_eq)
  then have last_len: "length data - length data div (M + 1) * M =
      length data div (M + 1) + length data mod (M + 1)"
    by (simp add: algebra_simps)
  have "(\<forall>d \<in> set ?ds. length (dg_payload d) \<le> M) \<longleftrightarrow>
      (\<forall>l \<in> set (map (\<lambda>d. length (dg_payload d)) ?ds). l \<le> M)" by simp
  also have "\<dots> \<longleftrightarrow> length data div (M + 1) + length data mod (M + 1) \<le> M"
    unfolding frame_datagrams_facts(4) [OF pos fits] n by (auto simp: last_len [simplified])
  finally show ?thesis by (simp add: buf mtu)
qed

theorem datagrams_fit_mtu_iff_witness:
  "\<not> (\<forall>d \<in> set (enc_send_buf (snd (packetize_encoded_frame scripted_vpx 1455
      (scripted_encoder [Frame_Pkt (replicate 2911 0) False])))).
      28 + length (datagram_serialize_to_string d) \<le> unat (1500 :: u64))"
  using datagrams_fit_mtu_iff [of 1500 1455 scripted_vpx
      "scripted_encoder [Frame_Pkt (replicate 2911 0) False]" "replicate 2911 0" False]
  by (simp add: scripted_vpx_def scripted_encoder_def set_mtu_def)

section \<open>RTT estimation\<close>

definition ewma_slack :: double where
  "ewma_slack = 1 / 2 ^ 48"

lemma fl_bounds:
  assumes "0 \<le> (x :: rat)"
  shows "x * (1 - 1 / 2 ^ 53) \<le> fl x" and "fl x \<le> x * (1 + 1 / 2 ^ 53)"
proof -
  have "\<bar>fl x - x\<bar> \<le> x / 2 ^ 53" using fl_error [of x] assms by simp
  then have "fl x - x \<le> x / 2 ^ 53" "- (fl x - x) \<le> x / 2 ^ 53"
    by (rule abs_le_D1, rule abs_le_D2)
  then show "x * (1 - 1 / 2 ^ 53) \<le> fl x" "fl x \<le> x * (1 + 1 / 2 ^ 53)"
    by (simp_all only: right_diff_distrib distrib_left) simp_all
qed

lemma alpha_bounds:
  "ALPHA \<le> 1 / 5 * (1 + 1 / 2 ^ 53)" "1 / 5 * (1 - 1 / 2 ^ 53) \<le> ALPHA"
  using fl_bounds [of "1 / 5"] by (simp_all add: ALPHA_def)

definition one_minus_alpha :: double where
  "one_minus_alpha = double_sub 1 ALPHA"

lemma one_minus_alpha_bounds:
  "one_minus_alpha \<le> (1 - ALPHA) * (1 + 1 / 2 ^ 53)" "(1 - ALPHA) * (1 - 1 / 2 ^ 53) \<le> one_minus_alpha"
  "0 \<le> one_minus_alpha"
proof -
  have "0 \<le> 1 - ALPHA" using alpha_bounds by simp
  from fl_bounds [OF this] fl_nonneg [OF this]
  show "one_minus_alpha \<le> (1 - ALPHA) * (1 + 1 / 2 ^ 53)"
    "(1 - ALPHA) * (1 - 1 / 2 ^ 53) \<le> one_minus_alpha" "0 \<le> one_minus_alpha"
    by (simp_all add: one_minus_alpha_def double_sub_def)
qed

text \<open>One rounded product, and the rounded sum of two.\<close>

lemma ewma_step_upper:
  assumes "0 \<le> (r :: rat)" and "r \<le> H" and "0 \<le> X" and "X \<le> H * (1 + ewma_slack)"
  shows "fl (fl (ALPHA * r) + fl (one_minus_alpha * X)) \<le> H * (1 + ewma_slack)"
proof -
  let ?u = "1 + 1 / 2 ^ 53 :: rat"
  have H: "0 \<le> H" using assms(1,2) by simp
  have a: "0 \<le> ALPHA" using alpha_bounds by simp
  have coeffs: "ALPHA + one_minus_alpha * (1 + ewma_slack) \<le> (1 + ewma_slack) / ?u / ?u"
  proof -
    have "one_minus_alpha * (1 + ewma_slack) \<le> (1 - ALPHA) * ?u * (1 + ewma_slack)"
      using one_minus_alpha_bounds(1) by (simp add: ewma_slack_def)
    moreover have "ALPHA + (1 - ALPHA) * ?u * (1 + ewma_slack) \<le> (1 + ewma_slack) / ?u / ?u"
      using alpha_bounds by (simp add: ewma_slack_def field_simps)
    ultimately show ?thesis by linarith
  qed
  have u: "0 \<le> ?u" by simp
  have "fl (ALPHA * r) \<le> ALPHA * r * ?u" using a assms(1) by (intro fl_bounds(2)) simp
  also have "\<dots> \<le> ALPHA * H * ?u"
    by (rule mult_right_mono [OF mult_left_mono [OF assms(2) a] u])
  finally have "fl (ALPHA * r) \<le> ALPHA * H * ?u" .
  moreover have "fl (one_minus_alpha * X) \<le> one_minus_alpha * (H * (1 + ewma_slack)) * ?u"
  proof -
    have "fl (one_minus_alpha * X) \<le> one_minus_alpha * X * ?u"
      using one_minus_alpha_bounds(3) assms(3) by (intro fl_bounds(2)) simp
    also have "\<dots> \<le> one_minus_alpha * (H * (1 + ewma_slack)) * ?u"
      by (rule mult_right_mono [OF mult_left_mono [OF assms(4) one_minus_alpha_bounds(3)] u])
    finally show ?thesis .
  qed
  ultimately have sum: "fl (ALPHA * r) + fl (one_minus_alpha * X) \<le>
      H * (ALPHA + one_minus_alpha * (1 + ewma_slack)) * ?u"
    by (simp add: algebra_simps)
  have "0 \<le> fl (ALPHA * r) + fl (one_minus_alpha * X)"
    using a one_minus_alpha_bounds(3) assms(1,3) by (intro add_nonneg_nonneg fl_nonneg mult_nonneg_nonneg)
  then have "fl (fl (ALPHA * r) + fl (one_minus_alpha * X)) \<le> (fl (ALPHA * r) + fl (one_minus_alpha * X)) * ?u"
    by (rule fl_bounds(2))
  also have "\<dots> \<le> H * (ALPHA + one_minus_alpha * (1 + ewma_slack)) * ?u * ?u"
    using sum by (intro mult_right_mono) simp_all
  also have "\<dots> \<le> H * (1 + ewma_slack)"
  proof -
    have "(ALPHA + one_minus_alpha * (1 + ewma_slack)) * ?u * ?u \<le> 1 + ewma_slack"
      using coeffs by (simp add: field_simps)
    from mult_left_mono [OF this H] show ?thesis by (simp add: mult.assoc)
  qed
  finally show ?thesis .
qed

lemma ewma_step_lower:
  assumes "0 \<le> (L :: rat)" and "L \<le> r" and "L * (1 - ewma_slack) \<le> X"
  shows "L * (1 - ewma_slack) \<le> fl (fl (ALPHA * r) + fl (one_minus_alpha * X))"
proof -
  let ?u = "1 - 1 / 2 ^ 53 :: rat"
  have a: "0 \<le> ALPHA" using alpha_bounds by simp
  have u: "0 \<le> ?u" by simp
  have nonneg: "0 \<le> L * (1 - ewma_slack)" using assms(1) by (simp add: ewma_slack_def)
  have coeffs: "1 - ewma_slack \<le> (ALPHA + one_minus_alpha * (1 - ewma_slack)) * ?u * ?u"
  proof -
    have "(1 - ALPHA) * ?u * (1 - ewma_slack) \<le> one_minus_alpha * (1 - ewma_slack)"
      using one_minus_alpha_bounds(2) by (simp add: ewma_slack_def)
    moreover have "(1 - ewma_slack) / ?u / ?u \<le> ALPHA + (1 - ALPHA) * ?u * (1 - ewma_slack)"
      using alpha_bounds by (simp add: ewma_slack_def field_simps)
    ultimately have "(1 - ewma_slack) / ?u / ?u \<le> ALPHA + one_minus_alpha * (1 - ewma_slack)"
      by linarith
    then show ?thesis by (simp add: field_simps)
  qed
  have "ALPHA * L * ?u \<le> ALPHA * r * ?u"
    by (rule mult_right_mono [OF mult_left_mono [OF assms(2) a] u])
  also have "\<dots> \<le> fl (ALPHA * r)" using a assms(1,2) by (intro fl_bounds(1)) simp
  finally have "ALPHA * L * ?u \<le> fl (ALPHA * r)" .
  moreover have "one_minus_alpha * (L * (1 - ewma_slack)) * ?u \<le> fl (one_minus_alpha * X)"
  proof -
    have "one_minus_alpha * (L * (1 - ewma_slack)) * ?u \<le> one_minus_alpha * X * ?u"
      by (rule mult_right_mono [OF mult_left_mono [OF assms(3) one_minus_alpha_bounds(3)] u])
    also have "\<dots> \<le> fl (one_minus_alpha * X)"
      using one_minus_alpha_bounds(3) assms(3) nonneg by (intro fl_bounds(1)) simp
    finally show ?thesis .
  qed
  ultimately have sum: "L * (ALPHA + one_minus_alpha * (1 - ewma_slack)) * ?u \<le>
      fl (ALPHA * r) + fl (one_minus_alpha * X)"
    by (simp add: algebra_simps)
  have "L * (1 - ewma_slack) \<le> L * (ALPHA + one_minus_alpha * (1 - ewma_slack)) * ?u * ?u"
    using mult_left_mono [OF coeffs assms(1)] by (simp add: mult.assoc)
  also have "\<dots> \<le> (fl (ALPHA * r) + fl (one_minus_alpha * X)) * ?u"
    using sum by (intro mult_right_mono) simp_all
  also have "\<dots> \<le> fl (fl (ALPHA * r) + fl (one_minus_alpha * X))"
    using a one_minus_alpha_bounds(3) assms(1,2,3) nonneg
    by (intro fl_bounds(1) add_nonneg_nonneg fl_nonneg mult_nonneg_nonneg) simp_all
  finally show ?thesis .
qed

lemma ewma_step_some:
  "ewma_step (Some X) r = fl (fl (ALPHA * of_nat (unat r)) + fl (one_minus_alpha * X))"
  by (simp add: ewma_step_def double_add_def double_mul_def double_of_u32 one_minus_alpha_def)

definition rtt_samples :: "u32 list \<Rightarrow> 'c encoder \<Rightarrow> 'c encoder" where
  "rtt_samples rtts e = fold add_rtt_sample rtts e"

lemma rtt_samples_state:
  assumes "rtts \<noteq> []" and "enc_min_rtt_us e = None" and "enc_ewma_rtt_us e = None"
  shows "enc_min_rtt_us (rtt_samples rtts e) = Some (Min (set rtts)) \<and>
    (\<exists>ewma. enc_ewma_rtt_us (rtt_samples rtts e) = Some ewma \<and>
       of_nat (unat (Min (set rtts))) * (1 - ewma_slack) \<le> ewma \<and>
       ewma \<le> of_nat (unat (Max (set rtts))) * (1 + ewma_slack))"
  using assms(1)
proof (induction rtts rule: rev_induct)
  case (snoc r rtts)
  show ?case
  proof (cases "rtts = []")
    case True
    have "(0 :: rat) \<le> of_nat (unat r)" by (rule of_nat_0_le_iff)
    then have "(0 :: rat) \<le> of_nat (unat r) * ewma_slack" by (simp add: ewma_slack_def)
    then show ?thesis
      using True by (simp add: rtt_samples_def add_rtt_sample_def assms(2,3) ewma_step_def double_of_u32
          algebra_simps)
  next
    case False
    let ?e = "rtt_samples rtts e"
    obtain ewma where IH: "enc_min_rtt_us ?e = Some (Min (set rtts))" "enc_ewma_rtt_us ?e = Some ewma"
      "of_nat (unat (Min (set rtts))) * (1 - ewma_slack) \<le> ewma"
      "ewma \<le> of_nat (unat (Max (set rtts))) * (1 + ewma_slack)"
      using snoc.IH [OF False] by blast
    let ?lo = "of_nat (unat (Min (set (rtts @ [r])))) :: rat"
    let ?hi = "of_nat (unat (Max (set (rtts @ [r])))) :: rat"
    have mono: "a \<le> b \<Longrightarrow> (of_nat (unat a) :: rat) \<le> of_nat (unat b)" for a b :: u32
      by (simp add: word_le_nat_alt del: of_nat_unat)
    have lo: "?lo \<le> of_nat (unat r)" "?lo \<le> of_nat (unat (Min (set rtts)))"
      and hi: "of_nat (unat r) \<le> ?hi" "of_nat (unat (Max (set rtts))) \<le> ?hi"
      using False mono by (simp_all del: of_nat_unat)
    have s: "0 \<le> 1 - ewma_slack" "0 \<le> 1 + ewma_slack" by (simp_all add: ewma_slack_def)
    have lo': "?lo * (1 - ewma_slack) \<le> ewma"
      using mult_right_mono [OF lo(2) s(1)] IH(3) by linarith
    have hi': "ewma \<le> ?hi * (1 + ewma_slack)"
      using mult_right_mono [OF hi(2) s(2)] IH(4) by linarith
    have "0 \<le> of_nat (unat (Min (set rtts))) * (1 - ewma_slack)"
      by (rule mult_nonneg_nonneg [OF of_nat_0_le_iff s(1)])
    then have pos: "0 \<le> ewma" using IH(3) by linarith
    have "?lo * (1 - ewma_slack) \<le> ewma_step (Some ewma) r"
      "ewma_step (Some ewma) r \<le> ?hi * (1 + ewma_slack)"
      unfolding ewma_step_some
      by (rule ewma_step_lower [OF of_nat_0_le_iff lo(1) lo'],
          rule ewma_step_upper [OF of_nat_0_le_iff hi(1) pos hi'])
    moreover have "(if r < Min (set rtts) then Some r else Some (Min (set rtts))) =
        Some (Min (set (rtts @ [r])))"
    proof -
      have "Min (set (rtts @ [r])) = min r (Min (set rtts))" using False by simp
      then show ?thesis by (simp only: min_def) (auto simp: not_less not_le order.order_iff_strict simp del: Min_le_iff Min_ge_iff Min_gr_iff)
    qed
    ultimately show ?thesis
      by (simp add: rtt_samples_def add_rtt_sample_def IH(1,2) [unfolded rtt_samples_def] del: set_append)
  qed
qed simp

text \<open>
  C35: after any non-empty sequence of RTT samples, \<open>min_rtt_us_\<close> is their minimum, and
  \<open>ewma_rtt_us_\<close>, computed in IEEE double arithmetic, stays between their minimum and their maximum up
  to a relative slack of \<open>2 ^ -48\<close> for all the rounding errors, however long the sequence is.
\<close>

theorem rtt_estimates_bounded:
  assumes "rtts \<noteq> []" and "enc_min_rtt_us e = None" and "enc_ewma_rtt_us e = None"
  shows "enc_min_rtt_us (fold add_rtt_sample rtts e) = Some (Min (set rtts)) \<and>
    (case enc_ewma_rtt_us (fold add_rtt_sample rtts e) of
       None \<Rightarrow> False
     | Some ewma \<Rightarrow> of_nat (unat (Min (set rtts))) * (1 - 1 / 2 ^ 48) \<le> ewma \<and>
         ewma \<le> of_nat (unat (Max (set rtts))) * (1 + 1 / 2 ^ 48))"
  using rtt_samples_state [OF assms] by (auto simp: rtt_samples_def ewma_slack_def)

theorem rtt_estimates_bounded_witness:
  "enc_min_rtt_us (fold add_rtt_sample [300, 200, 700] (scripted_encoder [])) = Some 200"
  using rtt_estimates_bounded [of "[300, 200, 700]" "scripted_encoder []"]
  by (simp add: scripted_encoder_def min_def word_le_nat_alt)

end
