(* ===== verification/Retransmission.thy ===== *)
theory Retransmission
  imports Encoder
begin

text \<open>
  What the encoder's handling of acknowledgements and of the unacknowledged datagrams computes:
  a specification of \<open>handle_ack\<close> without its loops, the recovery by a forced key frame, and the
  invariant that ties the queue of datagrams to send to the map of unacknowledged ones.
\<close>

section \<open>Specification of an acknowledgement\<close>

definition rtx_wanted :: "u64 \<Rightarrow> double \<Rightarrow> datagram \<Rightarrow> bool" where
  "rtx_wanted now rtt d =
     (dg_num_rtx d < MAX_NUM_RTX \<and>
      (dg_num_rtx d = 0 \<or> rtt < double_of_nat (unat (now - dg_last_send_ts d))))"

definition rtx_copy :: "u64 \<Rightarrow> datagram \<Rightarrow> datagram" where
  "rtx_copy now d = d\<lparr>dg_num_rtx := dg_num_rtx d + 1, dg_last_send_ts := now\<rparr>"

text \<open>The datagrams sent again on an acknowledgement, and an entry of the map after it.\<close>

definition retransmissions :: "u64 \<Rightarrow> double \<Rightarrow> SeqNum \<Rightarrow> (SeqNum, datagram) omap \<Rightarrow> datagram list" where
  "retransmissions now rtt acked m =
     map (rtx_copy now) (filter (rtx_wanted now rtt) (map snd (filter (\<lambda>(k, d). k < acked) m)))"

definition touch_entry :: "u64 \<Rightarrow> double \<Rightarrow> SeqNum \<Rightarrow> SeqNum \<times> datagram \<Rightarrow> SeqNum \<times> datagram" where
  "touch_entry now rtt acked = (\<lambda>(k, d).
     (k, if k < acked \<and> rtx_wanted now rtt d then rtx_copy now d else d))"

lemma rtx_due_some: "rtx_due now (Some rtt) d = Inr (rtx_wanted now rtt d)"
  by (auto simp: rtx_due_def rtx_wanted_def not_le)

lemma rtx_loop_spec:
  "rtx_loop now (Some rtt) rev_range buf =
     (Inr (), map (\<lambda>(k, d). (k, if rtx_wanted now rtt d then rtx_copy now d else d)) rev_range,
      rev (map (rtx_copy now) (filter (rtx_wanted now rtt) (map snd rev_range))) @ buf)"
proof (induction rev_range arbitrary: buf)
  case (Cons p rev_range)
  obtain k d where "p = (k, d)" by (cases p)
  with Cons show ?case by (simp add: rtx_due_some rtx_copy_def Let_def)
qed simp

lemma handle_ack_result:
  assumes "om_wf (enc_unacked e)"
  shows "handle_ack now ack e =
    (let e1 = add_rtt_sample (ucast (now - ack_send_ts ack)) e;
         rtt = ewma_step (enc_ewma_rtt_us e) (ucast (now - ack_send_ts ack));
         acked = SeqNum (ack_frame_id ack) (ack_frag_id ack)
     in if om_find (enc_unacked e) acked = None then (Inr (), e1)
        else (Inr (), e1
          \<lparr>enc_unacked := map (touch_entry now rtt acked) (om_erase acked (enc_unacked e)),
           enc_send_buf := retransmissions now rtt acked (enc_unacked e) @ enc_send_buf e\<rparr>))"
proof -
  let ?m = "enc_unacked e" and ?acked = "SeqNum (ack_frame_id ack) (ack_frag_id ack)"
  let ?rtt = "ewma_step (enc_ewma_rtt_us e) (ucast (now - ack_send_ts ack))"
  show ?thesis
  proof (cases "om_find ?m ?acked")
    case (Some d)
    have e1: "enc_unacked (add_rtt_sample r e) = ?m" "enc_send_buf (add_rtt_sample r e) = enc_send_buf e"
      "enc_ewma_rtt_us (add_rtt_sample r e) = Some (ewma_step (enc_ewma_rtt_us e) r)" for r
      by (simp_all add: add_rtt_sample_def)
    have before: "om_before ?acked ?m = filter (\<lambda>(k, d). k < ?acked) ?m"
      by (rule om_before_filter [OF assms])
    let ?f = "\<lambda>(k, d). (k, if rtx_wanted now ?rtt d then rtx_copy now d else d)"
    have "map (touch_entry now ?rtt ?acked) (om_before ?acked ?m) = map ?f (om_before ?acked ?m)"
      by (rule map_cong) (auto simp: touch_entry_def dest: om_before_less)
    moreover have "map (touch_entry now ?rtt ?acked) (filter (\<lambda>(k, d). ?acked < k) ?m) =
        filter (\<lambda>(k, d). ?acked < k) ?m"
      by (rule map_idI) (auto simp: touch_entry_def)
    moreover have "om_erase ?acked (map ?f (om_before ?acked ?m) @ om_from ?acked ?m) =
        map ?f (om_before ?acked ?m) @ filter (\<lambda>(k, d). ?acked < k) ?m"
      by (rule om_erase_update_before [OF assms]) (simp add: case_prod_unfold)
    ultimately have erase: "om_erase ?acked (map ?f (om_before ?acked ?m) @ om_from ?acked ?m) =
        map (touch_entry now ?rtt ?acked) (om_erase ?acked ?m)"
      by (simp add: om_erase_split [OF assms])
    show ?thesis
      unfolding handle_ack_def Let_def e1 rtx_loop_spec
      using Some erase
      by (simp add: retransmissions_def before [symmetric] rev_map rev_filter)
  qed (simp add: handle_ack_def Let_def add_rtt_sample_def)
qed

section \<open>The invariant of the encoder\<close>

text \<open>
  The map of unacknowledged datagrams is sorted by the sequence numbers of its entries; no datagram
  was retransmitted more than \<open>MAX_NUM_RTX\<close> times; all belong to frames encoded before; and the
  datagrams queued for their first transmission are pairwise distinct and not in the map yet, so
  that \<open>add_unacked\<close> can take them over.
\<close>

definition fresh :: "datagram list \<Rightarrow> datagram list" where
  "fresh ds = filter (\<lambda>d. dg_num_rtx d = 0) ds"

definition tracked :: "u32 \<Rightarrow> datagram \<Rightarrow> bool" where
  "tracked frame_id d = (dg_frame_id d < frame_id \<and> dg_num_rtx d \<le> MAX_NUM_RTX)"

definition encoder_inv :: "'c encoder \<Rightarrow> bool" where
  "encoder_inv e =
     (om_wf (enc_unacked e) \<and>
      (\<forall>(k, d) \<in> set (enc_unacked e). k = seq_num d \<and> tracked (enc_frame_id e) d) \<and>
      (\<forall>d \<in> set (enc_send_buf e). tracked (enc_frame_id e) d) \<and>
      distinct (map seq_num (fresh (enc_send_buf e))) \<and>
      set (map seq_num (fresh (enc_send_buf e))) \<inter> set (map fst (enc_unacked e)) = {})"

lemma fresh_append [simp]: "fresh (xs @ ys) = fresh xs @ fresh ys"
  by (simp add: fresh_def)

lemma fresh_simps [simp]:
  "fresh [] = []"
  "fresh (d # ds) = (if dg_num_rtx d = 0 then d # fresh ds else fresh ds)"
  by (simp_all add: fresh_def)

lemma set_fresh: "set (fresh ds) = {d \<in> set ds. dg_num_rtx d = 0}"
  by (simp add: fresh_def)

lemma disjoint_subset: "A \<inter> B = {} \<Longrightarrow> C \<subseteq> B \<Longrightarrow> A \<inter> C = {}"
  by blast

lemma rtx_copy_facts:
  assumes "rtx_wanted now rtt d"
  shows "dg_num_rtx (rtx_copy now d) \<noteq> 0" and "tracked f d \<Longrightarrow> tracked f (rtx_copy now d)"
    and "seq_num (rtx_copy now d) = seq_num d"
proof -
  have "dg_num_rtx d < 3" using assms by (simp add: rtx_wanted_def MAX_NUM_RTX_def)
  then have "unat (dg_num_rtx d + 1) = unat (dg_num_rtx d) + 1" by (rule unat_suc_no_wrap)
  with \<open>dg_num_rtx d < 3\<close> have "0 < dg_num_rtx d + 1" "dg_num_rtx d + 1 \<le> 3"
    by (simp_all add: word_less_nat_alt word_le_nat_alt)
  then show "dg_num_rtx (rtx_copy now d) \<noteq> 0" "tracked f d \<Longrightarrow> tracked f (rtx_copy now d)"
    by (simp_all add: rtx_copy_def tracked_def MAX_NUM_RTX_def)
  show "seq_num (rtx_copy now d) = seq_num d" by (simp add: rtx_copy_def seq_num_def)
qed

lemma retransmissions_not_fresh: "fresh (retransmissions now rtt acked m) = []"
  by (auto simp: fresh_def retransmissions_def filter_empty_conv dest: rtx_copy_facts(1))

lemma retransmissions_tracked:
  assumes "\<forall>(k, d) \<in> set m. k = seq_num d \<and> tracked f d" and "d \<in> set (retransmissions now rtt acked m)"
  shows "tracked f d"
  using assms by (auto simp: retransmissions_def intro!: rtx_copy_facts(2))

lemma fst_touch_entry [simp]: "fst (touch_entry now rtt acked p) = fst p"
  by (simp add: touch_entry_def case_prod_unfold)

lemma touch_entry_tracked:
  assumes "case p of (k, d) \<Rightarrow> k = seq_num d \<and> tracked f d"
  shows "case touch_entry now rtt acked p of (k, d) \<Rightarrow> k = seq_num d \<and> tracked f d"
  using assms by (auto simp: touch_entry_def rtx_copy_facts split: prod.splits)

lemma encoder_inv_cong:
  "enc_unacked e = enc_unacked e' \<Longrightarrow> enc_send_buf e = enc_send_buf e' \<Longrightarrow>
    enc_frame_id e = enc_frame_id e' \<Longrightarrow> encoder_inv e = encoder_inv e'"
  by (simp add: encoder_inv_def)

lemma add_rtt_sample_inv [inv_intros]: "encoder_inv e \<Longrightarrow> encoder_inv (add_rtt_sample rtt e)"
  by (simp add: encoder_inv_def add_rtt_sample_def)

lemma handle_ack_inv [inv_intros]:
  assumes "encoder_inv e"
  shows "encoder_inv (snd (handle_ack now ack e))" and "fst (handle_ack now ack e) = Inr ()"
proof -
  have wf: "om_wf (enc_unacked e)" using assms by (simp add: encoder_inv_def)
  show "fst (handle_ack now ack e) = Inr ()"
    by (simp add: handle_ack_result [OF wf] Let_def)
  let ?acked = "SeqNum (ack_frame_id ack) (ack_frag_id ack)"
  let ?rtt = "ewma_step (enc_ewma_rtt_us e) (ucast (now - ack_send_ts ack))"
  let ?m = "map (touch_entry now ?rtt ?acked) (om_erase ?acked (enc_unacked e))"
  have m_wf: "om_wf ?m"
    using om.wf_erase [OF wf, of ?acked]
    by (subst om_wf_map_values [of _ "om_erase ?acked (enc_unacked e)"]) (simp_all add: comp_def)
  have m_keys: "set (map fst ?m) \<subseteq> set (map fst (enc_unacked e))"
    by (auto simp: om_erase_def)
  have m_tracked: "\<forall>(k, d) \<in> set ?m. k = seq_num d \<and> tracked (enc_frame_id e) d"
  proof
    fix p assume "p \<in> set ?m"
    then obtain q where "q \<in> set (enc_unacked e)" and p: "p = touch_entry now ?rtt ?acked q"
      by (auto simp: om_erase_def)
    then have "case q of (k, d) \<Rightarrow> k = seq_num d \<and> tracked (enc_frame_id e) d"
      using assms by (simp add: encoder_inv_def)
    then show "case p of (k, d) \<Rightarrow> k = seq_num d \<and> tracked (enc_frame_id e) d"
      unfolding p by (rule touch_entry_tracked)
  qed
  let ?e' = "e\<lparr>enc_unacked := ?m,
      enc_send_buf := retransmissions now ?rtt ?acked (enc_unacked e) @ enc_send_buf e\<rparr>"
  have "encoder_inv ?e'"
    unfolding encoder_inv_def
  proof (intro conjI)
    have "\<forall>d \<in> set (retransmissions now ?rtt ?acked (enc_unacked e)). tracked (enc_frame_id e) d"
      using assms retransmissions_tracked unfolding encoder_inv_def by blast
    then show "\<forall>d \<in> set (enc_send_buf (?e')). tracked (enc_frame_id ?e') d"
      using assms by (auto simp: encoder_inv_def)
    show "set (map seq_num (fresh (enc_send_buf ?e'))) \<inter> set (map fst (enc_unacked ?e')) = {}"
    proof -
      have "fresh (enc_send_buf ?e') = fresh (enc_send_buf e)" "enc_unacked ?e' = ?m"
        by (simp_all add: retransmissions_not_fresh)
      moreover have "set (map seq_num (fresh (enc_send_buf e))) \<inter> set (map fst (enc_unacked e)) = {}"
        using assms by (simp add: encoder_inv_def)
      ultimately show ?thesis using disjoint_subset [OF _ m_keys] by (simp only:)
    qed
  qed (use assms m_wf m_tracked in \<open>simp_all add: encoder_inv_def retransmissions_not_fresh\<close>)
  moreover have "encoder_inv (snd (handle_ack now ack e)) =
      encoder_inv (if om_find (enc_unacked e) ?acked = None then e else ?e')"
    by (rule encoder_inv_cong) (simp_all add: handle_ack_result [OF wf] Let_def add_rtt_sample_def)
  ultimately show "encoder_inv (snd (handle_ack now ack e))" using assms by simp
qed

section \<open>Sending\<close>

lemma pop_front_inv [inv_intros]:
  "encoder_inv e \<Longrightarrow> enc_send_buf e = d # rest \<Longrightarrow> encoder_inv (e\<lparr>enc_send_buf := rest\<rparr>)"
  by (auto simp: encoder_inv_def split: if_splits)

text \<open>The record \<open>add_unacked\<close> keeps of a datagram that was just sent.\<close>

definition sent_at :: "u64 \<Rightarrow> datagram \<Rightarrow> datagram" where
  "sent_at now d = d\<lparr>dg_send_ts := now, dg_last_send_ts := now\<rparr>"

lemma sent_at_simps [simp]:
  "seq_num (sent_at now d) = seq_num d" "tracked f (sent_at now d) = tracked f d"
  by (simp_all add: sent_at_def seq_num_def tracked_def)

lemma add_unacked_front:
  assumes "encoder_inv e" and "enc_send_buf e = d # rest" and "dg_num_rtx d = 0"
  shows "add_unacked (d\<lparr>dg_send_ts := now\<rparr>) e =
      (Inr (), e\<lparr>enc_unacked := om_insert (seq_num d) (sent_at now d) (enc_unacked e)\<rparr>)"
    and "encoder_inv (e\<lparr>enc_unacked := om_insert (seq_num d) (sent_at now d) (enc_unacked e),
      enc_send_buf := rest\<rparr>)"
proof -
  let ?m = "om_insert (seq_num d) (sent_at now d) (enc_unacked e)"
  have wf: "om_wf (enc_unacked e)" and new: "seq_num d \<notin> fst ` set (enc_unacked e)"
    using assms by (auto simp: encoder_inv_def)
  then have absent: "om_find (enc_unacked e) (seq_num d) = None"
    by (simp add: om.find_None_iff)
  have seq: "seq_num (d\<lparr>dg_send_ts := now\<rparr>) = seq_num d" by (simp add: seq_num_def)
  show "add_unacked (d\<lparr>dg_send_ts := now\<rparr>) e = (Inr (), e\<lparr>enc_unacked := ?m\<rparr>)"
    unfolding add_unacked_def seq using absent by (simp add: om_emplace_def sent_at_def)
  have wf': "om_wf ?m" by (rule om_wf_insert [OF wf])
  have entries: "set ?m = insert (seq_num d, sent_at now d) (set (enc_unacked e))"
    by (rule set_om_insert [OF wf absent])
  have "tracked (enc_frame_id e) d" "distinct (map seq_num (d # fresh rest))"
    "set (map seq_num (fresh rest)) \<inter> fst ` set (enc_unacked e) = {}"
    using assms by (auto simp: encoder_inv_def)
  then show "encoder_inv (e\<lparr>enc_unacked := ?m, enc_send_buf := rest\<rparr>)"
    using assms wf' unfolding encoder_inv_def by (simp add: entries)
qed

section \<open>Compressing a frame\<close>

lemma frag_loop_fresh:
  assumes "frag_loop M f t cnt frag_id buf send_buf = (r, send_buf')"
  shows "\<exists>ds. send_buf' = send_buf @ ds \<and> distinct (map seq_num ds) \<and>
    (\<forall>d \<in> set ds. dg_frame_id d = f \<and> dg_num_rtx d = 0 \<and> unat frag_id \<le> unat (dg_frag_id d))"
  using assms
proof (induction M f t cnt frag_id buf send_buf rule: frag_loop.induct)
  case (1 M f t cnt frag_id buf send_buf)
  let ?size = "if int (unat frag_id) < int (unat cnt) - 1 then M else length buf"
  let ?d = "make_datagram f t frag_id cnt (take ?size buf)"
  consider (stop) "send_buf' = send_buf"
    | (step) "frag_id < cnt" "\<not> ?size > length buf"
      "frag_loop M f t cnt (frag_id + 1) (drop ?size buf) (send_buf @ [?d]) = (r, send_buf')"
    using "1.prems" unfolding frag_loop.simps [of M f t cnt frag_id]
    by (auto simp: Let_def split: if_splits)
  then show ?case
  proof cases
    case step
    from "1.IH" [OF step(1) refl step(2) step(3)] obtain ds where ds: "send_buf' = (send_buf @ [?d]) @ ds"
      "distinct (map seq_num ds)"
      "\<forall>d \<in> set ds. dg_frame_id d = f \<and> dg_num_rtx d = 0 \<and> unat (frag_id + 1) \<le> unat (dg_frag_id d)"
      by blast
    have suc: "unat (frag_id + 1) = unat frag_id + 1" by (rule unat_suc_no_wrap [OF step(1)])
    have "seq_num ?d \<notin> seq_num ` set ds"
      using ds(3) by (auto simp: suc seq_num_def make_datagram_def)
    with ds suc show ?thesis
      by (intro exI [of _ "?d # ds"]) (auto simp: make_datagram_def new_datagram_def)
  qed auto
qed

definition frame_queue :: "u32 \<Rightarrow> datagram list \<Rightarrow> bool" where
  "frame_queue f ds = (distinct (map seq_num ds) \<and> (\<forall>d \<in> set ds. dg_frame_id d = f \<and> dg_num_rtx d = 0))"

lemma packetize_appends:
  assumes "packetize_encoded_frame vpx M e = (Inr n, e')"
  shows "\<exists>ds. e' = e\<lparr>enc_send_buf := enc_send_buf e @ ds\<rparr> \<and> frame_queue (enc_frame_id e) ds"
proof (cases "frame_pkts (vpx_get_cx_data vpx (enc_context e))")
  case Nil
  then show ?thesis using assms by (auto simp: packetize_first frame_queue_def intro: exI [of _ "[]"])
next
  case (Cons p rest)
  obtain data is_key where p: "p = (data, is_key)" by (cases p)
  let ?t = "if is_key then KEY else NONKEY"
  obtain cnt buf where "frag_loop M (enc_frame_id e) ?t cnt 0 data (enc_send_buf e) = (Inr (), buf)"
    and e': "e' = e\<lparr>enc_send_buf := buf\<rparr>"
    using assms unfolding packetize_first Cons p
    by (auto simp: Let_def split: if_splits sum.splits prod.splits)
  from frag_loop_fresh [OF this(1)] show ?thesis
    unfolding e' frame_queue_def by auto
qed

lemma append_frame_inv:
  assumes "encoder_inv e" and "frame_queue (enc_frame_id e) ds" and "unat (enc_frame_id e) + 1 < 2 ^ 32"
  shows "encoder_inv (e\<lparr>enc_send_buf := enc_send_buf e @ ds, enc_frame_id := enc_frame_id e + 1\<rparr>)"
proof -
  have suc: "unat (enc_frame_id e + 1) = unat (enc_frame_id e) + 1"
    using unat_add_no_wrap [of "enc_frame_id e" 1] assms(3) by simp
  have mono: "tracked (enc_frame_id e) d \<Longrightarrow> tracked (enc_frame_id e + 1) d" for d
    by (auto simp: tracked_def word_less_nat_alt suc)
  have new: "d \<in> set ds \<Longrightarrow> tracked (enc_frame_id e + 1) d" for d
    using assms(2) by (auto simp: frame_queue_def tracked_def word_less_nat_alt suc)
  have fresh: "fresh ds = ds" using assms(2) by (simp add: fresh_def frame_queue_def filter_id_conv)
  have old: "dg_frame_id d \<noteq> enc_frame_id e" if "tracked (enc_frame_id e) d" for d
    using that by (auto simp: tracked_def)
  have apart: "seq_num d \<notin> seq_num ` set ds" if "tracked (enc_frame_id e) d" for d
    using old [OF that] assms(2) by (auto simp: frame_queue_def seq_num_def)
  have "set (map seq_num (fresh (enc_send_buf e))) \<inter> set (map seq_num ds) = {}"
    using assms(1) apart by (auto simp: encoder_inv_def set_fresh)
  moreover have "set (map seq_num ds) \<inter> set (map fst (enc_unacked e)) = {}"
  proof (intro Int_emptyI)
    fix k assume "k \<in> set (map seq_num ds)" and "k \<in> set (map fst (enc_unacked e))"
    then obtain d where "(k, d) \<in> set (enc_unacked e)" by auto
    then have "k = seq_num d" "tracked (enc_frame_id e) d"
      using assms(1) by (auto simp: encoder_inv_def)
    with apart \<open>k \<in> set (map seq_num ds)\<close> show False by auto
  qed
  ultimately show ?thesis
    using assms(1,2) mono new unfolding encoder_inv_def frame_queue_def
    by (auto simp: fresh Int_Un_distrib2)
qed

lemma encode_frame_queues:
  "enc_frame_id (snd (encode_frame vpx now ms img e)) = enc_frame_id e \<and>
   (enc_send_buf (snd (encode_frame vpx now ms img e)) = enc_send_buf e \<and>
    enc_unacked (snd (encode_frame vpx now ms img e)) = enc_unacked e \<or>
    enc_send_buf (snd (encode_frame vpx now ms img e)) = [] \<and>
    enc_unacked (snd (encode_frame vpx now ms img e)) = [])"
  by (auto simp: encode_frame_def Let_def split: prod.split sum.split)

lemma encode_frame_inv [inv_intros]:
  assumes "encoder_inv e"
  shows "encoder_inv (snd (encode_frame vpx now ms img e))"
proof -
  let ?e' = "snd (encode_frame vpx now ms img e)"
  from encode_frame_queues [of vpx now ms img e]
  show ?thesis
  proof (elim conjE disjE)
    assume "enc_frame_id ?e' = enc_frame_id e" "enc_send_buf ?e' = enc_send_buf e"
      "enc_unacked ?e' = enc_unacked e"
    with assms show ?thesis using encoder_inv_cong by metis
  qed (simp add: encoder_inv_def)
qed

lemma compress_frame_inv [inv_intros]:
  assumes "encoder_inv e" and "unat (enc_frame_id e) + 1 < 2 ^ 32"
    and "compress_frame vpx os M ts img (e, w) = (Inr (), e', w')"
  shows "encoder_inv e'" and "enc_frame_id e' = enc_frame_id e + 1"
proof -
  obtain e1 where e1: "encode_frame vpx (ts_now ts) (ts_encode_ms ts) img e = (Inr (), e1)"
    using assms(3)
    by (cases "encode_frame vpx (ts_now ts) (ts_encode_ms ts) img e" rule: prod.exhaust)
      (auto simp: compress_frame_def bind_action_def split: sum.splits)
  obtain n e2 where e2: "packetize_encoded_frame vpx M e1 = (Inr n, e2)"
    using assms(3) e1
    by (cases "packetize_encoded_frame vpx M e1" rule: prod.exhaust)
      (auto simp: compress_frame_def bind_action_def split: sum.splits)
  obtain ds where ds: "e2 = e1\<lparr>enc_send_buf := enc_send_buf e1 @ ds\<rparr>" "frame_queue (enc_frame_id e1) ds"
    using packetize_appends [OF e2] by blast
  have e1_facts: "encoder_inv e1" "enc_frame_id e1 = enc_frame_id e"
    using encode_frame_inv [OF assms(1), of vpx "ts_now ts" "ts_encode_ms ts" img]
      encode_frame_queues [of vpx "ts_now ts" "ts_encode_ms ts" img e] by (simp_all add: e1)
  then have "encoder_inv (e1\<lparr>enc_send_buf := enc_send_buf e1 @ ds, enc_frame_id := enc_frame_id e1 + 1\<rparr>)"
    using append_frame_inv [OF e1_facts(1) ds(2)] assms(2) by simp
  moreover have "enc_send_buf e' = enc_send_buf e1 @ ds \<and> enc_unacked e' = enc_unacked e1 \<and>
      enc_frame_id e' = enc_frame_id e1 + 1"
    using assms(3) e1 e2 unfolding compress_frame_def ds(1)
    by (auto simp: bind_action_def Let_def split: option.splits sum.splits prod.splits)
  ultimately show "encoder_inv e'" "enc_frame_id e' = enc_frame_id e + 1"
    using e1_facts(2) by (simp_all add: encoder_inv_def)
qed

section \<open>Properties\<close>

text \<open>
  C5: an acknowledgement never fails. It always feeds the RTT estimators; when it names no
  unacknowledged datagram, it does nothing else. Otherwise, of the unacknowledged datagrams before
  it in \<open>(frame, fragment)\<close> order, those that were retransmitted less than \<open>MAX_NUM_RTX\<close> times and are
  due (never retransmitted, or more than one smoothed RTT ago) get their count and time updated, and
  copies of them are queued before everything else, oldest first; the acknowledged one leaves the
  map, and the later ones are untouched.
\<close>

theorem handle_ack_spec:
  assumes "om_wf (enc_unacked e)"
  shows "handle_ack now ack e =
    (let e1 = add_rtt_sample (ucast (now - ack_send_ts ack)) e;
         rtt = ewma_step (enc_ewma_rtt_us e) (ucast (now - ack_send_ts ack));
         acked = SeqNum (ack_frame_id ack) (ack_frag_id ack);
         again = (\<lambda>(k, d). k < acked \<and> dg_num_rtx d < MAX_NUM_RTX \<and>
           (dg_num_rtx d = 0 \<or> rtt < double_of_nat (unat (now - dg_last_send_ts d))));
         touch = (\<lambda>d. d\<lparr>dg_num_rtx := dg_num_rtx d + 1, dg_last_send_ts := now\<rparr>)
     in if om_find (enc_unacked e) acked = None then (Inr (), e1)
        else (Inr (), e1
          \<lparr>enc_unacked := map (\<lambda>(k, d). (k, if again (k, d) then touch d else d))
             (om_erase acked (enc_unacked e)),
           enc_send_buf := map (\<lambda>(k, d). touch d) (filter again (enc_unacked e)) @ enc_send_buf e\<rparr>))"
proof -
  have "retransmissions now rtt acked m = map (\<lambda>(k, d). rtx_copy now d)
      (filter (\<lambda>(k, d). k < acked \<and> rtx_wanted now rtt d) m)" for rtt acked m
    by (induction m) (auto simp: retransmissions_def)
  then show ?thesis
    unfolding handle_ack_result [OF assms] Let_def touch_entry_def rtx_wanted_def rtx_copy_def
    by (simp add: case_prod_unfold)
qed

text \<open>Two unacknowledged datagrams: one to be retransmitted by the acknowledgement of the other.\<close>

definition two_unacked :: "cx_packet list encoder" where
  "two_unacked = (scripted_encoder [])\<lparr>enc_unacked :=
     [(SeqNum 5 0, make_datagram 5 KEY 0 2 [1, 2]), (SeqNum 5 1, make_datagram 5 KEY 1 2 [3])]\<rparr>"

theorem handle_ack_spec_witness:
  "om_wf (enc_unacked two_unacked) \<and>
   enc_send_buf (snd (handle_ack 900 \<lparr>ack_frame_id = 5, ack_frag_id = 1, ack_send_ts = 400\<rparr> two_unacked)) =
     [(make_datagram 5 KEY 0 2 [1, 2])\<lparr>dg_num_rtx := 1, dg_last_send_ts := 900\<rparr>] \<and>
   map fst (enc_unacked (snd (handle_ack 900 \<lparr>ack_frame_id = 5, ack_frag_id = 1, ack_send_ts = 400\<rparr>
     two_unacked))) = [SeqNum 5 0]"
proof -
  have wf: "om_wf (enc_unacked two_unacked)"
    by (simp add: two_unacked_def om_wf_def less_SeqNum_def)
  show ?thesis
    unfolding handle_ack_spec [OF wf, of 900 "\<lparr>ack_frame_id = 5, ack_frag_id = 1, ack_send_ts = 400\<rparr>"]
    using wf
    by (simp add: Let_def two_unacked_def scripted_encoder_def om_find_def om_erase_def less_SeqNum_def
        make_datagram_def new_datagram_def MAX_NUM_RTX_def)
qed

text \<open>
  C24: retransmission is abandoned, and a key frame forced, exactly when the oldest unacknowledged
  datagram was first sent more than one second before the clock reading, or when the clock was set
  back below its send time (the unsigned difference wraps) by less than 2^64 - 1,000,000
  microseconds; then both queues are emptied, and otherwise both are kept.
\<close>

theorem recovery_condition:
  assumes "enc_unacked e = (k, d) # rest"
    and "raw_display_width img = enc_display_width e" and "raw_display_height img = enc_display_height e"
  shows "let s = unat (dg_send_ts d); n = unat now;
      give_up = (s + 1000000 < n \<or> n < s \<and> s < n + (2 ^ 64 - 1000000));
      e' = snd (encode_frame vpx now ms img e)
    in enc_send_buf e' = (if give_up then [] else enc_send_buf e) \<and>
       enc_unacked e' = (if give_up then [] else enc_unacked e) \<and>
       enc_context e' = snd (vpx_encode vpx (enc_context e) (raw_vpx_img img) (enc_frame_id e)
         (if give_up then [''VPX_EFLAG_FORCE_KF''] else []))"
proof -
  have "unat (now - dg_send_ts d) = (if unat (dg_send_ts d) \<le> unat now
      then unat now - unat (dg_send_ts d) else unat now + 2 ^ 64 - unat (dg_send_ts d))"
    using unat_sub_if' [of now "dg_send_ts d"] by simp
  moreover have "unat (dg_send_ts d) < 2 ^ 64" using unsigned_less [of "dg_send_ts d"] by simp
  ultimately have "gives_up now e \<longleftrightarrow> unat (dg_send_ts d) + 1000000 < unat now \<or>
      unat now < unat (dg_send_ts d) \<and> unat (dg_send_ts d) < unat now + (2 ^ 64 - 1000000)"
    by (auto simp: gives_up_def assms(1) MAX_UNACKED_US_def word_less_nat_alt)
  then show ?thesis
    using assms(2,3) by (simp add: Let_def encode_frame_def split: prod.split sum.split)
qed

theorem recovery_condition_witness:
  "enc_unacked (snd (encode_frame scripted_vpx 1000001 1
     \<lparr>raw_vpx_img = \<lparr>vpx_fmt = 0, vpx_d_w = 4, vpx_d_h = 2, vpx_plane_y = [], vpx_plane_u = [],
        vpx_plane_v = []\<rparr>, raw_own_vpx_img = True, raw_display_width = 4, raw_display_height = 2\<rparr>
     two_unacked)) = []"
  using recovery_condition [of two_unacked "SeqNum 5 0" "make_datagram 5 KEY 0 2 [1, 2]"
      "[(SeqNum 5 1, make_datagram 5 KEY 1 2 [3])]"
      "\<lparr>raw_vpx_img = \<lparr>vpx_fmt = 0, vpx_d_w = 4, vpx_d_h = 2, vpx_plane_y = [], vpx_plane_u = [],
        vpx_plane_v = []\<rparr>, raw_own_vpx_img = True, raw_display_width = 4, raw_display_height = 2\<rparr>"
      1000001 scripted_vpx 1]
  by (simp add: Let_def two_unacked_def scripted_encoder_def make_datagram_def new_datagram_def)

end
