(* ===== verification/Event_Registry.thy ===== *)
theory Event_Registry
  imports Exceptions
begin

text \<open>
  What \<open>Poller\<close> (\<open>src/util/poller.hh\<close>) and \<open>Epoller\<close> (\<open>src/util/epoller.hh\<close>) promise to their
  clients: the flags, the requests a client can make, an abstract registry of events and callbacks
  that says what each request does, and the interface both classes implement.
\<close>

section \<open>Flags\<close>

datatype flag = In | Out

text \<open>\<open>POLLIN = EPOLLIN = 1\<close> and \<open>POLLOUT = EPOLLOUT = 4\<close>, in a mask of the class's own width.\<close>

definition flag_value :: "flag \<Rightarrow> 'a::len word" where
  "flag_value f = (case f of In \<Rightarrow> 1 | Out \<Rightarrow> 4)"

text \<open>\<open>events & flag\<close>, as a condition.\<close>

definition has_flag :: "'a::len word \<Rightarrow> flag \<Rightarrow> bool" where
  "has_flag events f = (events AND flag_value f \<noteq> 0)"

definition flag_index :: "flag \<Rightarrow> nat" where
  "flag_index f = (case f of In \<Rightarrow> 0 | Out \<Rightarrow> 2)"

lemma flag_value_exp: "flag_value f = (2 :: 'a::len word) ^ flag_index f"
  by (simp add: flag_value_def flag_index_def split: flag.split)

lemma has_flag_bit: "has_flag (a :: 'a::len word) f \<longleftrightarrow> bit a (flag_index f)"
  by (simp add: has_flag_def flag_value_exp and_exp_eq_0_iff_not_bit)

lemma flag_index_eq [simp]: "flag_index f = flag_index g \<longleftrightarrow> f = g"
  by (simp add: flag_index_def split: flag.splits)

lemma flag_index_less: "flag_index f < 16"
  by (simp add: flag_index_def split: flag.split)

text \<open>The masks of both classes are wide enough for the two flags.\<close>

lemma has_flag_zero [simp]: "\<not> has_flag (0 :: 'a::len word) g"
  by (simp add: has_flag_def)

lemma has_flag_value:
  "16 \<le> LENGTH('a) \<Longrightarrow> has_flag (flag_value f :: 'a::len word) g \<longleftrightarrow> f = g"
  unfolding has_flag_bit using flag_index_less [of f] by (auto simp: flag_value_exp bit_exp_iff)

lemma has_flag_or:
  "16 \<le> LENGTH('a) \<Longrightarrow> has_flag (a OR flag_value f :: 'a::len word) g \<longleftrightarrow> has_flag a g \<or> f = g"
  unfolding has_flag_bit using flag_index_less [of f] by (auto simp: flag_value_exp bit_exp_iff bit_or_iff)

lemma has_flag_and_not:
  "16 \<le> LENGTH('a) \<Longrightarrow> has_flag (a AND NOT (flag_value f) :: 'a::len word) g \<longleftrightarrow> has_flag a g \<and> f \<noteq> g"
  unfolding has_flag_bit using flag_index_less [of f] flag_index_less [of g]
  by (auto simp: flag_value_exp bit_exp_iff bit_and_iff bit_not_iff)

lemma flag_other: "f \<noteq> In \<longleftrightarrow> f = Out"
  by (cases f) simp_all

section \<open>Requests and what they do\<close>

datatype 'cb request =
    Register int flag 'cb
  | Activate int flag
  | Deactivate int flag
  | Deregister int

text \<open>
  The abstract registry: for each registered event of a descriptor its callback and whether the event
  is currently monitored, and the descriptors whose removal is scheduled.
\<close>

record 'cb registry =
  reg_events :: "int \<times> flag \<Rightarrow> ('cb \<times> bool) option"
  reg_leaving :: "int set"

definition monitor :: "bool \<Rightarrow> int \<times> flag \<Rightarrow> 'cb registry \<Rightarrow> 'cb registry" where
  "monitor b ev r =
     r\<lparr>reg_events := (reg_events r)(ev := map_option (\<lambda>(cb, _). (cb, b)) (reg_events r ev))\<rparr>"

fun registry_request :: "'cb request \<Rightarrow> 'cb registry \<Rightarrow> 'cb registry" where
  "registry_request (Register fd f cb) r = r\<lparr>reg_events := (reg_events r)((fd, f) \<mapsto> (cb, True))\<rparr>"
| "registry_request (Activate fd f) r = monitor True (fd, f) r"
| "registry_request (Deactivate fd f) r = monitor False (fd, f) r"
| "registry_request (Deregister fd) r = r\<lparr>reg_leaving := insert fd (reg_leaving r)\<rparr>"

text \<open>
  The requests a client may make: an event is registered once, and only registered events are
  activated and deactivated.
\<close>

fun request_allowed :: "int set \<Rightarrow> 'cb request \<Rightarrow> 'cb registry \<Rightarrow> bool" where
  "request_allowed valid (Register fd f cb) r = (fd \<in> valid \<and> reg_events r (fd, f) = None)"
| "request_allowed valid (Activate fd f) r = (reg_events r (fd, f) \<noteq> None)"
| "request_allowed valid (Deactivate fd f) r = (reg_events r (fd, f) \<noteq> None)"
| "request_allowed valid (Deregister fd) r = True"

lemma registry_request_allowed:
  "request_allowed valid req r \<Longrightarrow> request_allowed valid' (Activate fd f) r \<Longrightarrow>
   request_allowed valid' (Activate fd f) (registry_request req r)"
  by (cases req) (auto simp: monitor_def)

text \<open>A sequence of requests: the first error ends it.\<close>

definition perform :: "('cb request \<Rightarrow> ('s, unit) action) \<Rightarrow> 'cb request list \<Rightarrow> ('s, unit) action" where
  "perform request reqs = foldr (\<lambda>req k. bind_action (request req) (\<lambda>_. k)) reqs (return_action ())"

lemma perform_Nil [simp]: "perform request [] s = (Inr (), s)"
  by (simp add: perform_def return_action_def)

lemma perform_Cons_bind: "perform request (req # reqs) = bind_action (request req) (\<lambda>_. perform request reqs)"
  by (simp add: perform_def)

lemma perform_Cons: "request req s = (Inr (), t) \<Longrightarrow> perform request (req # reqs) s = perform request reqs t"
  by (simp add: perform_def bind_action_def)

section \<open>The interface\<close>

text \<open>
  \<open>valid\<close> are the descriptors the kernel can monitor. An allowed request succeeds and does what the
  abstract registry says; registering an event twice is refused, and so is a request on a descriptor
  with no registered event, without any change.
\<close>

locale event_registry =
  fixes inv :: "'s \<Rightarrow> bool"
    and abs :: "'s \<Rightarrow> 'cb registry"
    and valid :: "int set"
    and request :: "'cb request \<Rightarrow> ('s, unit) action"
  assumes request_refines: "inv s \<Longrightarrow> request_allowed valid req (abs s) \<Longrightarrow>
      \<exists>t. request req s = (Inr (), t) \<and> inv t \<and> abs t = registry_request req (abs s)"
    and register_twice: "inv s \<Longrightarrow> reg_events (abs s) (fd, f) \<noteq> None \<Longrightarrow>
      request (Register fd f cb) s = (Inl (Runtime_Error ''attempted to register the same event''), s)"
    and unknown_descriptor: "inv s \<Longrightarrow> \<forall>f. reg_events (abs s) (fd, f) = None \<Longrightarrow>
      req = Activate fd f \<or> req = Deactivate fd f \<Longrightarrow>
      request req s = (Inl (Out_Of_Range ''unordered_map::at''), s)"
begin

lemma request_step:
  assumes "inv s" and "request_allowed valid req (abs s)"
  obtains t where "request req s = (Inr (), t)" and "inv t" and "abs t = registry_request req (abs s)"
  using request_refines [OF assms] by blast

lemma requests_refine:
  assumes "inv s"
    and "\<And>i. i < length reqs \<Longrightarrow>
      request_allowed valid (reqs ! i) (fold registry_request (take i reqs) (abs s))"
  shows "\<exists>t. perform request reqs s = (Inr (), t) \<and> inv t \<and> abs t = fold registry_request reqs (abs s)"
  using assms
proof (induction reqs arbitrary: s)
  case (Cons req reqs)
  have "request_allowed valid req (abs s)" using Cons.prems(2) [of 0] by simp
  then obtain t where t: "request req s = (Inr (), t)" "inv t" "abs t = registry_request req (abs s)"
    using request_step [OF Cons.prems(1)] by blast
  have "request_allowed valid (reqs ! i) (fold registry_request (take i reqs) (abs t))"
    if "i < length reqs" for i
    using Cons.prems(2) [of "Suc i"] that by (simp add: t(3))
  from Cons.IH [OF t(2) this] show ?case using t by (simp add: perform_Cons)
qed simp

text \<open>Activating and deactivating may be repeated, and the last one decides.\<close>

lemma last_request_decides:
  assumes "inv s" and "reg_events (abs s) (fd, f) = Some (cb, b)"
    and "\<forall>req \<in> set reqs. req = Activate fd f \<or> req = Deactivate fd f"
  shows "\<exists>t. perform request reqs s = (Inr (), t) \<and> inv t \<and>
    reg_events (abs t) (fd, f) = Some (cb, if reqs = [] then b else last reqs = Activate fd f) \<and>
    (\<forall>ev. ev \<noteq> (fd, f) \<longrightarrow> reg_events (abs t) ev = reg_events (abs s) ev)"
  using assms
proof (induction reqs arbitrary: s b)
  case (Cons req reqs)
  have "request_allowed valid req (abs s)" using Cons.prems(2,3) by auto
  then obtain t where t: "request req s = (Inr (), t)" "inv t" "abs t = registry_request req (abs s)"
    using request_step [OF Cons.prems(1)] by blast
  have ev: "reg_events (abs t) (fd, f) = Some (cb, req = Activate fd f)"
    and rest: "ev \<noteq> (fd, f) \<Longrightarrow> reg_events (abs t) ev = reg_events (abs s) ev" for ev
    using Cons.prems(2,3) by (auto simp: t(3) monitor_def)
  have "\<forall>req \<in> set reqs. req = Activate fd f \<or> req = Deactivate fd f" using Cons.prems(3) by simp
  from Cons.IH [OF t(2) ev this] obtain u where "perform request reqs t = (Inr (), u)" "inv u"
    "reg_events (abs u) (fd, f) =
       Some (cb, if reqs = [] then req = Activate fd f else last reqs = Activate fd f)"
    "\<forall>ev. ev \<noteq> (fd, f) \<longrightarrow> reg_events (abs u) ev = reg_events (abs t) ev" by blast
  then show ?case using rest t(1) by (simp add: perform_Cons)
qed simp

end

end
