(* ===== verification/Dispatch.thy ===== *)
theory Dispatch
  imports Event_Registry
begin

text \<open>
  The loop that \<open>Poller::poll\<close> and \<open>Epoller::poll\<close> have in common: for every descriptor the kernel reports,
  the callbacks of the roster whose flag is reported are executed, while they change the object they
  are registered with. The state \<open>'s\<close> is the object and the world, and \<open>roster\<close> reads \<open>roster_\<close> from it.
  Callbacks are names \<open>'cb\<close> that the parameter \<open>run\<close> executes; one that never returns is the value None.
\<close>

section \<open>The loop\<close>

type_synonym 'cb roster = "int \<Rightarrow> (flag \<Rightarrow> 'cb option) option"
type_synonym ('cb, 's) callbacks = "'cb \<Rightarrow> ('s, unit) process"

text \<open>
  The iteration over the callbacks of one reported descriptor, whose keys it meets in the order of the
  flag list; \<open>asked\<close> is the assertion on the reported flag, where the code has one. Adding a callback to
  the map that is being iterated may invalidate the iterator.
\<close>

definition same_keys :: "(flag \<Rightarrow> 'cb option) option \<Rightarrow> (flag \<Rightarrow> 'cb option) option \<Rightarrow> bool" where
  "same_keys m m' = (case (m, m') of
     (Some c, Some c') \<Rightarrow> (c In = None) = (c' In = None) \<and> (c Out = None) = (c' Out = None)
   | _ \<Rightarrow> False)"

fun dispatch_flags :: "('s \<Rightarrow> 'cb roster) \<Rightarrow> ('cb, 's) callbacks \<Rightarrow> int \<Rightarrow> (flag \<Rightarrow> bool) \<Rightarrow> 'a::len word
    \<Rightarrow> flag list \<Rightarrow> ('s, unit) process" where
  "dispatch_flags roster run fd asked revents [] = total (return_action ())"
| "dispatch_flags roster run fd asked revents (f # fs) = (\<lambda>s.
     case roster s fd of
       None \<Rightarrow> Some (Inl (Undefined_Behaviour ''iterating an erased map''), s)
     | Some callbacks \<Rightarrow>
         case callbacks f of
           None \<Rightarrow> dispatch_flags roster run fd asked revents fs s
         | Some callback \<Rightarrow>
             if \<not> has_flag revents f then dispatch_flags roster run fd asked revents fs s
             else if \<not> asked f then Some (Inl (Assertion_Failed ''it.events & flag''), s)
             else bind_process (run callback) (\<lambda>_ t.
                    if same_keys (roster s fd) (roster t fd)
                    then dispatch_flags roster run fd asked revents fs t
                    else Some (Inl (Undefined_Behaviour ''the map is changed while it is iterated''), t)) s)"

fun dispatch :: "('s \<Rightarrow> 'cb roster) \<Rightarrow> ('cb, 's) callbacks \<Rightarrow> (int \<Rightarrow> flag list)
    \<Rightarrow> (int \<times> (flag \<Rightarrow> bool) \<times> 'a::len word) list \<Rightarrow> ('s, unit) process" where
  "dispatch roster run flag_order [] = total (return_action ())"
| "dispatch roster run flag_order ((fd, asked, revents) # its) = (\<lambda>s.
     if roster s fd = None then Some (Inl (Out_Of_Range ''unordered_map::at''), s)
     else bind_process (dispatch_flags roster run fd asked revents (flag_order fd))
            (\<lambda>_. dispatch roster run flag_order its) s)"

text \<open>What the callbacks keep, the iteration over them keeps.\<close>

lemma keeps_dispatch:
  assumes "\<And>cb. keeps P (exec cb)"
  shows "keeps P (dispatch roster exec flag_order its)"
proof -
  have flags: "keeps P (dispatch_flags roster exec fd asked revents fs)" for fd asked fs
    and revents :: "'len::len word"
  proof (induction fs)
    case (Cons f fs)
    have "P t" if "P s" and step: "dispatch_flags roster exec fd asked revents (f # fs) s = Some (r, t)" for s r t
    proof -
      have rest: "keeps P (bind_process (exec cb) (\<lambda>_ t. if same_keys (roster s fd) (roster t fd)
          then dispatch_flags roster exec fd asked revents fs t
          else Some (Inl (Undefined_Behaviour ''the map is changed while it is iterated''), t)))" for cb
        by (intro keeps_intros assms Cons.IH)
      show ?thesis
        using step keepsD [OF rest] keepsD [OF Cons.IH] \<open>P s\<close>
        by (auto split: option.splits if_splits)
    qed
    then show ?case by (auto simp: keeps_def)
  qed (simp add: keeps_intros return_action_def)
  show ?thesis
  proof (induction its)
    case (Cons it its)
    obtain fd asked revents where it: "it = (fd, asked, revents)" by (cases it)
    have "keeps P (bind_process (dispatch_flags roster exec fd asked revents (flag_order fd))
        (\<lambda>_. dispatch roster exec flag_order its))"
      by (intro keeps_intros flags Cons.IH)
    then have "keeps P (\<lambda>s. if roster s fd = None then Some (Inl (Out_Of_Range ''unordered_map::at''), s)
        else bind_process (dispatch_flags roster exec fd asked revents (flag_order fd))
          (\<lambda>_. dispatch roster exec flag_order its) s)"
      by (rule keeps_cond [OF keeps_result])
    then show ?case by (simp add: it)
  qed (simp add: keeps_intros return_action_def)
qed

section \<open>What it executes\<close>

definition callback_at :: "'cb roster \<Rightarrow> int \<Rightarrow> flag \<Rightarrow> 'cb option" where
  "callback_at m fd f = (case m fd of None \<Rightarrow> None | Some callbacks \<Rightarrow> callbacks f)"

text \<open>The ready events, in the order in which the iterations meet them, and their callbacks.\<close>

definition ready_events :: "'cb roster \<Rightarrow> (int \<Rightarrow> flag list) \<Rightarrow> (int \<times> (flag \<Rightarrow> bool) \<times> 'a::len word) list
    \<Rightarrow> (int \<times> flag) list" where
  "ready_events m flag_order its =
     concat (map (\<lambda>(fd, asked, revents).
       map (Pair fd) (filter (\<lambda>f. has_flag revents f \<and> callback_at m fd f \<noteq> None) (flag_order fd))) its)"

definition callbacks_of :: "'cb roster \<Rightarrow> (int \<times> flag) list \<Rightarrow> 'cb list" where
  "callbacks_of m evs = map (\<lambda>(fd, f). the (callback_at m fd f)) evs"

fun run_callbacks :: "('cb, 's) callbacks \<Rightarrow> 'cb list \<Rightarrow> ('s, unit) process" where
  "run_callbacks run [] = total (return_action ())"
| "run_callbacks run (cb # cbs) = bind_process (run cb) (\<lambda>_. run_callbacks run cbs)"

lemma run_callbacks_append:
  "run_callbacks run (xs @ ys) = bind_process (run_callbacks run xs) (\<lambda>_. run_callbacks run ys)"
  by (induction xs) (simp_all add: bind_process_assoc)

text \<open>Callbacks that leave the descriptors that are in the roster as they are.\<close>

definition keeps_roster :: "('s \<Rightarrow> 'cb roster) \<Rightarrow> ('cb, 's) callbacks \<Rightarrow> bool" where
  "keeps_roster roster run \<longleftrightarrow>
     (\<forall>cb s r t fd. run cb s = Some (r, t) \<longrightarrow> roster s fd \<noteq> None \<longrightarrow> roster t fd = roster s fd)"

text \<open>The roster \<open>m\<close> extends the one the round started with.\<close>

definition keeps_entries :: "'cb roster \<Rightarrow> 'cb roster \<Rightarrow> bool" where
  "keeps_entries m0 m = (\<forall>fd. m0 fd \<noteq> None \<longrightarrow> m fd = m0 fd)"

lemma keeps_entries_refl [simp]: "keeps_entries m m"
  by (simp add: keeps_entries_def)

lemma keeps_entries_run:
  assumes "keeps_roster roster run" and "keeps_entries m0 (roster s)" and "run cb s = Some (r, t)"
  shows "keeps_entries m0 (roster t)"
  using assms by (simp add: keeps_entries_def keeps_roster_def)

lemma keeps_entries_run_callbacks:
  assumes "keeps_roster roster run" and "keeps_entries m0 (roster s)"
    and "run_callbacks run cbs s = Some (r, t)"
  shows "keeps_entries m0 (roster t)"
  using assms(2,3)
proof (induction cbs arbitrary: s)
  case (Cons cb cbs)
  from Cons.prems(2) [unfolded run_callbacks.simps] show ?case
  proof (cases rule: bind_process_cases)
    case 1
    then show ?thesis using keeps_entries_run [OF assms(1) Cons.prems(1)] by simp
  next
    case (2 x u)
    show ?thesis by (rule Cons.IH [OF keeps_entries_run [OF assms(1) Cons.prems(1) 2(1)] 2(2)])
  qed
qed (simp add: total_def return_action_def)

lemma same_keys_refl: "same_keys (Some m) (Some m)"
  by (simp add: same_keys_def)

lemma dispatch_flags_ready:
  assumes "keeps_roster roster run" and "keeps_entries m0 (roster s)" and "m0 fd \<noteq> None"
    and "\<forall>f. has_flag revents f \<longrightarrow> asked f"
  shows "dispatch_flags roster run fd asked revents fs s =
    run_callbacks run (callbacks_of m0 (ready_events m0 (\<lambda>_. fs) [(fd, asked, revents)])) s"
  using assms(2)
proof (induction fs arbitrary: s)
  case Nil
  then show ?case by (simp add: ready_events_def callbacks_of_def)
next
  case (Cons f fs)
  obtain callbacks where cb0: "m0 fd = Some callbacks" using assms(3) by blast
  then have cb: "roster s fd = Some callbacks" using Cons.prems by (simp add: keeps_entries_def)
  have ready: "callbacks_of m0 (ready_events m0 (\<lambda>_. f # fs) [(fd, asked, revents)]) =
    (case callbacks f of Some cb \<Rightarrow> if has_flag revents f then [cb] else [] | None \<Rightarrow> [])
      @ callbacks_of m0 (ready_events m0 (\<lambda>_. fs) [(fd, asked, revents)])"
    using cb0 by (simp add: ready_events_def callbacks_of_def callback_at_def split: option.split)
  show ?case
  proof (cases "callbacks f")
    case None
    then show ?thesis using cb ready Cons.IH [OF Cons.prems] by simp
  next
    case (Some cbk)
    show ?thesis
    proof (cases "has_flag revents f")
      case True
      then have "asked f" using assms(4) by blast
      have next_state: "roster t fd = Some callbacks \<and> keeps_entries m0 (roster t)" if "run cbk s = Some (r, t)"
        for r t
        using keeps_entries_run [OF assms(1) Cons.prems that] cb0 by (simp add: keeps_entries_def)
      have "bind_process (run cbk) (\<lambda>_ t. if same_keys (roster s fd) (roster t fd)
            then dispatch_flags roster run fd asked revents fs t
            else Some (Inl (Undefined_Behaviour ''the map is changed while it is iterated''), t)) s =
          bind_process (run cbk) (\<lambda>_. run_callbacks run
            (callbacks_of m0 (ready_events m0 (\<lambda>_. fs) [(fd, asked, revents)]))) s"
        using next_state cb same_keys_refl [of callbacks] Cons.IH by (intro bind_process_eqI) simp_all
      then show ?thesis using Some True \<open>asked f\<close> cb ready by simp
    next
      case False
      then show ?thesis using Some cb ready Cons.IH [OF Cons.prems] by simp
    qed
  qed
qed

text \<open>
  If the callbacks leave the roster's entries alone, the loop executes the callbacks that were
  registered for the reported events when it started.
\<close>

lemma dispatch_ready:
  assumes "keeps_roster roster run" and "keeps_entries m0 (roster s)"
    and "\<forall>(fd, asked, revents) \<in> set its. m0 fd \<noteq> None \<and> (\<forall>f. has_flag revents f \<longrightarrow> asked f)"
  shows "dispatch roster run flag_order its s =
    run_callbacks run (callbacks_of m0 (ready_events m0 flag_order its)) s"
  using assms(2,3)
proof (induction its arbitrary: s)
  case Nil
  then show ?case by (simp add: ready_events_def callbacks_of_def)
next
  case (Cons it its)
  obtain fd asked revents where it: "it = (fd, asked, revents)" by (metis prod.collapse)
  have fd0: "m0 fd \<noteq> None" and fl: "\<forall>f. has_flag revents f \<longrightarrow> asked f"
    using Cons.prems(2) by (auto simp: it)
  have "roster s fd \<noteq> None" using fd0 Cons.prems(1) by (simp add: keeps_entries_def)
  moreover have rest: "dispatch roster run flag_order its t =
      run_callbacks run (callbacks_of m0 (ready_events m0 flag_order its)) t"
    if "run_callbacks run cbs s = Some (r, t)" for cbs r t
    using Cons.IH [OF keeps_entries_run_callbacks [OF assms(1) Cons.prems(1) that]] Cons.prems(2) by simp
  have "bind_process (dispatch_flags roster run fd asked revents (flag_order fd))
        (\<lambda>_. dispatch roster run flag_order its) s =
      bind_process (run_callbacks run (callbacks_of m0 (ready_events m0 (\<lambda>_. flag_order fd) [it])))
        (\<lambda>_. run_callbacks run (callbacks_of m0 (ready_events m0 flag_order its))) s"
    using dispatch_flags_ready [OF assms(1) Cons.prems(1) fd0 fl, of "flag_order fd"]
    by (intro bind_process_eqI rest) (simp add: it, simp add: it, erule sym)
  moreover have "callbacks_of m0 (ready_events m0 flag_order (it # its)) =
      callbacks_of m0 (ready_events m0 (\<lambda>_. flag_order fd) [it]) @ callbacks_of m0 (ready_events m0 flag_order its)"
    by (simp add: ready_events_def callbacks_of_def it)
  ultimately show ?case by (auto simp: it run_callbacks_append)
qed

text \<open>Each ready event is met once, if the kernel reports each descriptor once.\<close>

lemma distinct_ready_events:
  "distinct (map fst its) \<Longrightarrow> \<forall>fd. distinct (flag_order fd) \<Longrightarrow> distinct (ready_events m flag_order its)"
proof (induction its)
  case (Cons it its)
  obtain fd asked revents where it: "it = (fd, asked, revents)" by (metis prod.collapse)
  have "distinct (ready_events m flag_order its)" using Cons by simp
  moreover have "fd \<notin> fst ` set (ready_events m flag_order its)"
    using Cons.prems(1) by (force simp: it ready_events_def)
  ultimately show ?case
    using Cons.prems(2) by (auto simp: it ready_events_def distinct_map inj_on_def image_iff)
qed (simp add: ready_events_def)

lemma set_ready_events:
  "\<forall>fd. set (flag_order fd) = UNIV \<Longrightarrow>
   set (ready_events m flag_order its) =
     {(fd, f). (\<exists>asked revents. (fd, asked, revents) \<in> set its \<and> has_flag revents f) \<and> callback_at m fd f \<noteq> None}"
  by (auto simp: ready_events_def)

end
