(* ===== verification/Poller.thy ===== *)
theory Poller
  imports Dispatch
begin

text \<open>
  The model of \<open>src/util/poller.hh\<close> and \<open>poller.cc\<close>: the event loop over \<open>poll(2)\<close> that drives the
  sender.
\<close>

section \<open>State and requests\<close>

text \<open>
  \<open>roster_\<close>, \<open>active_events_\<close> (a \<open>short\<close> mask) and \<open>fds_to_deregister_\<close>. The overloads that take a
  \<open>FileDescriptor\<close> call the ones below with its number.
\<close>

record 'cb poller =
  pl_roster :: "'cb roster"
  pl_active :: "int \<Rightarrow> u16 option"
  pl_leaving :: "int set"

definition empty_poller :: "'cb poller" where
  "empty_poller = \<lparr>pl_roster = Map.empty, pl_active = Map.empty, pl_leaving = {}\<rparr>"

text \<open>\<open>'cb\<close> names the callback; what it does is the argument \<open>run\<close> of \<open>poller_poll\<close>.\<close>

definition poller_register :: "int \<Rightarrow> flag \<Rightarrow> 'cb \<Rightarrow> ('cb poller, unit) action" where
  "poller_register fd f callback p =
     (case pl_roster p fd of
        None \<Rightarrow> (Inr (), p\<lparr>pl_roster := (pl_roster p)(fd \<mapsto> [f \<mapsto> callback]),
                        pl_active := (pl_active p)(fd \<mapsto> flag_value f)\<rparr>)
      | Some callbacks \<Rightarrow>
          if callbacks f \<noteq> None
          then (Inl (Runtime_Error ''attempted to register the same event''), p)
          else (Inr (), p\<lparr>pl_roster := (pl_roster p)(fd \<mapsto> callbacks(f \<mapsto> callback)),
                 pl_active := (pl_active p)(fd \<mapsto>
                   (case pl_active p fd of None \<Rightarrow> 0 | Some events \<Rightarrow> events) OR flag_value f)\<rparr>))"

definition poller_activate :: "int \<Rightarrow> flag \<Rightarrow> ('cb poller, unit) action" where
  "poller_activate fd f p =
     (case pl_active p fd of
        None \<Rightarrow> (Inl (Out_Of_Range ''unordered_map::at''), p)
      | Some events \<Rightarrow> (Inr (), p\<lparr>pl_active := (pl_active p)(fd \<mapsto> events OR flag_value f)\<rparr>))"

definition poller_deactivate :: "int \<Rightarrow> flag \<Rightarrow> ('cb poller, unit) action" where
  "poller_deactivate fd f p =
     (case pl_active p fd of
        None \<Rightarrow> (Inl (Out_Of_Range ''unordered_map::at''), p)
      | Some events \<Rightarrow>
          (Inr (), p\<lparr>pl_active := (pl_active p)(fd \<mapsto> events AND NOT (flag_value f))\<rparr>))"

definition poller_deregister :: "int \<Rightarrow> ('cb poller, unit) action" where
  "poller_deregister fd p = (Inr (), p\<lparr>pl_leaving := insert fd (pl_leaving p)\<rparr>)"

fun poller_request :: "'cb request \<Rightarrow> ('cb poller, unit) action" where
  "poller_request (Register fd f callback) = poller_register fd f callback"
| "poller_request (Activate fd f) = poller_activate fd f"
| "poller_request (Deactivate fd f) = poller_deactivate fd f"
| "poller_request (Deregister fd) = poller_deregister fd"

section \<open>Polling\<close>

text \<open>The order in which the set is traversed does not matter: each descriptor is erased on its own.\<close>

definition poller_do_deregister :: "'cb poller \<Rightarrow> 'cb poller" where
  "poller_do_deregister p =
     p\<lparr>pl_roster := (\<lambda>fd. if fd \<in> pl_leaving p then None else pl_roster p fd),
       pl_active := (\<lambda>fd. if fd \<in> pl_leaving p then None else pl_active p fd),
       pl_leaving := {}\<rparr>"

text \<open>
  \<open>order\<close> is the order in which the iteration over \<open>active_events_\<close> meets its keys: an unordered map
  has none of its own.
\<close>

definition fds_to_poll :: "int list \<Rightarrow> 'cb poller \<Rightarrow> (int \<times> u16) list" where
  "fds_to_poll order p =
     concat (map (\<lambda>fd. case pl_active p fd of
       None \<Rightarrow> [] | Some events \<Rightarrow> if events \<noteq> 0 then [(fd, events)] else []) order)"

text \<open>
  \<open>sys_poll\<close> is \<open>poll(2)\<close>: it returns its C result and the \<open>revents\<close> of each polled descriptor.
\<close>

type_synonym 'w sys_poll = "(int \<times> u16) list \<Rightarrow> int \<Rightarrow> 'w \<Rightarrow> (int \<times> u16 list) \<times> 'w"

definition polled :: "(int \<times> u16) list \<Rightarrow> u16 list \<Rightarrow> (int \<times> (flag \<Rightarrow> bool) \<times> u16) list" where
  "polled fds revents = map (\<lambda>((fd, events), re). (fd, has_flag events, re)) (zip fds revents)"

abbreviation poller_roster :: "'cb poller \<times> 'w \<Rightarrow> 'cb roster" where
  "poller_roster s \<equiv> pl_roster (fst s)"

definition poller_poll :: "'w sys_poll \<Rightarrow> ('cb, 'cb poller \<times> 'w) callbacks \<Rightarrow> int list
    \<Rightarrow> (int \<Rightarrow> flag list) \<Rightarrow> int \<Rightarrow> ('cb poller \<times> 'w, unit) process" where
  "poller_poll sys_poll run order flag_order timeout_ms = (\<lambda>(p, w).
     let p1 = poller_do_deregister p;
         fds = fds_to_poll order p1;
         ((r, revents), w1) = sys_poll fds timeout_ms w
     in case check_syscall r of
          Inl e \<Rightarrow> Some (Inl e, p1, w1)
        | Inr _ \<Rightarrow> dispatch poller_roster run flag_order (polled fds revents) (p1, w1))"

lemma keeps_poller_poll:
  assumes "\<And>cb. keeps P (exec cb)"
    and "\<And>p w. P (p, w) \<Longrightarrow> P (poller_do_deregister p, w)"
    and "\<And>p w fds. P (p, w) \<Longrightarrow> P (p, snd (sys_poll fds timeout_ms w))"
  shows "keeps P (poller_poll sys_poll exec order flag_order timeout_ms)"
proof -
  have "P t" if "P (p, w)" and round: "poller_poll sys_poll exec order flag_order timeout_ms (p, w) = Some (r, t)" for p w r t
  proof -
    let ?p = "poller_do_deregister p"
    obtain n revents w' where answer: "sys_poll (fds_to_poll order ?p) timeout_ms w = ((n, revents), w')"
      by (metis prod.collapse)
    then have kept: "P (?p, w')" using assms(2,3) that(1) by (metis snd_conv)
    show ?thesis
    proof (cases "check_syscall n")
      case (Inl e)
      with round answer kept show ?thesis by (simp add: poller_poll_def)
    next
      case (Inr m)
      with round answer have "dispatch poller_roster exec flag_order (polled (fds_to_poll order ?p) revents) (?p, w') =
          Some (r, t)" by (simp add: poller_poll_def Let_def)
      from keepsD [OF keeps_dispatch [OF assms(1)] this kept] show ?thesis .
    qed
  qed
  then show ?thesis by (auto simp: keeps_def)
qed

section \<open>The interface\<close>

text \<open>
  Every descriptor with callbacks has a mask, and the mask names only registered events.
\<close>

definition poller_inv :: "'cb poller \<Rightarrow> bool" where
  "poller_inv p =
     (\<forall>fd. case (pl_roster p fd, pl_active p fd) of
        (None, None) \<Rightarrow> True
      | (Some callbacks, Some events) \<Rightarrow>
          (\<exists>f. callbacks f \<noteq> None) \<and> (\<forall>f. has_flag events f \<longrightarrow> callbacks f \<noteq> None)
      | _ \<Rightarrow> False)"

definition poller_requested :: "'cb poller \<Rightarrow> int \<Rightarrow> flag \<Rightarrow> bool" where
  "poller_requested p fd f = (case pl_active p fd of None \<Rightarrow> False | Some events \<Rightarrow> has_flag events f)"

definition poller_abs :: "'cb poller \<Rightarrow> 'cb registry" where
  "poller_abs p =
     \<lparr>reg_events = (\<lambda>(fd, f). map_option (\<lambda>cb. (cb, poller_requested p fd f)) (callback_at (pl_roster p) fd f)),
      reg_leaving = pl_leaving p\<rparr>"

lemma poller_abs_simps [simp]:
  "reg_events (poller_abs p) (fd, f) =
     map_option (\<lambda>cb. (cb, poller_requested p fd f)) (callback_at (pl_roster p) fd f)"
  "reg_leaving (poller_abs p) = pl_leaving p"
  by (simp_all add: poller_abs_def)

lemma poller_invD:
  assumes "poller_inv p"
  shows "pl_roster p fd = None \<longleftrightarrow> pl_active p fd = None"
    and "pl_roster p fd = Some callbacks \<Longrightarrow> \<exists>f. callbacks f \<noteq> None"
    and "pl_roster p fd = Some callbacks \<Longrightarrow> pl_active p fd = Some events \<Longrightarrow> has_flag events f \<Longrightarrow>
      callbacks f \<noteq> None"
  using spec [OF assms [unfolded poller_inv_def], of fd] by (auto split: option.splits)

lemma poller_invI:
  assumes "\<And>fd. pl_roster p fd = None \<longleftrightarrow> pl_active p fd = None"
    and "\<And>fd callbacks. pl_roster p fd = Some callbacks \<Longrightarrow> \<exists>f. callbacks f \<noteq> None"
    and "\<And>fd callbacks events f. pl_roster p fd = Some callbacks \<Longrightarrow> pl_active p fd = Some events \<Longrightarrow>
      has_flag events f \<Longrightarrow> callbacks f \<noteq> None"
  shows "poller_inv p"
  unfolding poller_inv_def
proof
  fix fd
  show "case (pl_roster p fd, pl_active p fd) of
        (None, None) \<Rightarrow> True
      | (Some callbacks, Some events) \<Rightarrow>
          (\<exists>f. callbacks f \<noteq> None) \<and> (\<forall>f. has_flag events f \<longrightarrow> callbacks f \<noteq> None)
      | _ \<Rightarrow> False"
    using assms(1,2,3) [of fd]
    by (cases "pl_roster p fd"; cases "pl_active p fd") auto
qed

lemma empty_poller_inv: "poller_inv empty_poller"
  by (simp add: poller_inv_def empty_poller_def)

lemma poller_registered_iff:
  "reg_events (poller_abs p) (fd, f) \<noteq> None \<longleftrightarrow>
     (\<exists>callbacks. pl_roster p fd = Some callbacks \<and> callbacks f \<noteq> None)"
  by (auto simp: callback_at_def split: option.splits)

lemma registry_eqI:
  "(\<And>fd f. reg_events r (fd, f) = reg_events r' (fd, f)) \<Longrightarrow> reg_leaving r = reg_leaving r' \<Longrightarrow>
   (r :: 'cb registry) = r'"
  by (cases r; cases r') (auto simp: fun_eq_iff)

lemmas mask_laws = has_flag_value has_flag_or has_flag_and_not

lemma poller_register_refines:
  assumes "poller_inv p" and "reg_events (poller_abs p) (fd, f) = None"
  shows "\<exists>t. poller_register fd f cb p = (Inr (), t) \<and> poller_inv t \<and>
    poller_abs t = registry_request (Register fd f cb) (poller_abs p)"
proof (cases "pl_roster p fd")
  case None
  let ?t = "p\<lparr>pl_roster := (pl_roster p)(fd \<mapsto> [f \<mapsto> cb]), pl_active := (pl_active p)(fd \<mapsto> flag_value f)\<rparr>"
  have "poller_inv ?t"
    by (rule poller_invI) (use poller_invD [OF assms(1)] in \<open>auto simp: mask_laws split: if_splits\<close>)
  moreover have "poller_abs ?t = registry_request (Register fd f cb) (poller_abs p)"
  proof (rule registry_eqI)
    show "reg_events (poller_abs ?t) (fd', f') = reg_events (registry_request (Register fd f cb) (poller_abs p)) (fd', f')"
      for fd' f' using None by (cases "fd' = fd") (simp_all add: callback_at_def poller_requested_def mask_laws)
  qed simp
  ultimately show ?thesis using None by (simp add: poller_register_def)
next
  case (Some callbacks)
  then obtain events where ev: "pl_active p fd = Some events"
    using poller_invD(1) [OF assms(1), of fd] by (cases "pl_active p fd") auto
  have free: "callbacks f = None" using assms(2) Some by (simp add: callback_at_def)
  let ?t = "p\<lparr>pl_roster := (pl_roster p)(fd \<mapsto> callbacks(f \<mapsto> cb)),
    pl_active := (pl_active p)(fd \<mapsto> events OR flag_value f)\<rparr>"
  have "poller_inv ?t"
    by (rule poller_invI)
      (use poller_invD [OF assms(1)] Some ev in \<open>auto simp: mask_laws split: if_splits\<close>)
  moreover have "poller_abs ?t = registry_request (Register fd f cb) (poller_abs p)"
  proof (rule registry_eqI)
    show "reg_events (poller_abs ?t) (fd', f') = reg_events (registry_request (Register fd f cb) (poller_abs p)) (fd', f')"
      for fd' f' using Some ev by (cases "fd' = fd"; cases "f' = f") (simp_all add: callback_at_def poller_requested_def mask_laws)
  qed simp
  ultimately show ?thesis using Some ev free by (simp add: poller_register_def)
qed

lemma poller_mask_refines:
  assumes "poller_inv p" and "reg_events (poller_abs p) (fd, f) \<noteq> None"
    and "\<And>events g. has_flag (m events) g = (if g = f then b else has_flag events g)"
  shows "\<exists>events. pl_active p fd = Some events \<and>
    poller_inv (p\<lparr>pl_active := (pl_active p)(fd \<mapsto> m events)\<rparr>) \<and>
    poller_abs (p\<lparr>pl_active := (pl_active p)(fd \<mapsto> m events)\<rparr>) = monitor b (fd, f) (poller_abs p)"
proof -
  obtain callbacks where cb: "pl_roster p fd = Some callbacks" "callbacks f \<noteq> None"
    using assms(2) [unfolded poller_registered_iff] by (elim exE conjE)
  then obtain events where ev: "pl_active p fd = Some events"
    using poller_invD(1) [OF assms(1), of fd] by (cases "pl_active p fd") auto
  let ?t = "p\<lparr>pl_active := (pl_active p)(fd \<mapsto> m events)\<rparr>"
  have "poller_inv ?t"
  proof (rule poller_invI)
    show "pl_roster ?t fd' = None \<longleftrightarrow> pl_active ?t fd' = None" for fd'
      using poller_invD(1) [OF assms(1), of fd'] ev by simp
    show "\<exists>g. callbacks' g \<noteq> None" if "pl_roster ?t fd' = Some callbacks'" for fd' callbacks'
      using poller_invD(2) [OF assms(1)] that by simp
    show "callbacks' g \<noteq> None"
      if "pl_roster ?t fd' = Some callbacks'" "pl_active ?t fd' = Some events'" "has_flag events' g"
      for fd' callbacks' events' g
    proof (cases "fd' = fd")
      case True
      then have "callbacks' = callbacks" "has_flag (m events) g" using that cb by simp_all
      then show ?thesis using poller_invD(3) [OF assms(1) cb(1) ev] cb(2) assms(3) [of events g]
        by (cases "g = f") simp_all
    next
      case False
      then show ?thesis using poller_invD(3) [OF assms(1), of fd' callbacks' events' g] that by simp
    qed
  qed
  moreover have "poller_abs ?t = monitor b (fd, f) (poller_abs p)"
  proof (rule registry_eqI)
    show "reg_events (poller_abs ?t) (fd', g) = reg_events (monitor b (fd, f) (poller_abs p)) (fd', g)"
      for fd' g using cb ev assms(3) [of events g]
      by (cases "fd' = fd"; cases "g = f") (auto simp: callback_at_def poller_requested_def monitor_def)
  qed (simp add: monitor_def)
  ultimately show ?thesis using ev by blast
qed

lemma poller_request_refines:
  assumes "poller_inv p" and "request_allowed valid req (poller_abs p)"
  shows "\<exists>t. poller_request req p = (Inr (), t) \<and> poller_inv t \<and>
    poller_abs t = registry_request req (poller_abs p)"
proof (cases req)
  case (Register fd f cb)
  then show ?thesis using poller_register_refines [OF assms(1)] assms(2) by simp
next
  case (Activate fd f)
  then have "reg_events (poller_abs p) (fd, f) \<noteq> None" using assms(2) by simp
  moreover have "has_flag (events OR flag_value f) g = (if g = f then True else has_flag events g)"
    for events :: u16 and g by (auto simp: has_flag_or)
  ultimately show ?thesis
    using poller_mask_refines [OF assms(1), of fd f "\<lambda>events. events OR flag_value f" True]
    by (auto simp: Activate poller_activate_def)
next
  case (Deactivate fd f)
  then have "reg_events (poller_abs p) (fd, f) \<noteq> None" using assms(2) by simp
  moreover have "has_flag (events AND NOT (flag_value f)) g = (if g = f then False else has_flag events g)"
    for events :: u16 and g by (auto simp: has_flag_and_not)
  ultimately show ?thesis
    using poller_mask_refines [OF assms(1), of fd f "\<lambda>events. events AND NOT (flag_value f)" False]
    by (auto simp: Deactivate poller_deactivate_def)
next
  case (Deregister fd)
  have "poller_inv (p\<lparr>pl_leaving := insert fd (pl_leaving p)\<rparr>)"
    using assms(1) by (simp add: poller_inv_def)
  moreover have "poller_abs (p\<lparr>pl_leaving := insert fd (pl_leaving p)\<rparr>) = registry_request req (poller_abs p)"
    by (rule registry_eqI) (simp_all add: Deregister callback_at_def poller_requested_def)
  ultimately show ?thesis by (simp add: Deregister poller_deregister_def)
qed

lemma poller_register_twice:
  assumes "reg_events (poller_abs p) (fd, f) \<noteq> None"
  shows "poller_register fd f cb p = (Inl (Runtime_Error ''attempted to register the same event''), p)"
proof -
  obtain callbacks where "pl_roster p fd = Some callbacks" "callbacks f \<noteq> None"
    using assms [unfolded poller_registered_iff] by (elim exE conjE)
  then show ?thesis by (simp add: poller_register_def)
qed

lemma poller_unknown_descriptor:
  assumes "poller_inv p" and "\<forall>f. reg_events (poller_abs p) (fd, f) = None"
  shows "pl_active p fd = None"
proof -
  have "callbacks f = None" if "pl_roster p fd = Some callbacks" for callbacks f
    using spec [OF assms(2), of f] that by (simp add: callback_at_def)
  then have "pl_roster p fd = None" using poller_invD(2) [OF assms(1), of fd] by (cases "pl_roster p fd") auto
  then show ?thesis using poller_invD(1) [OF assms(1), of fd] by simp
qed

lemma poller_unknown_request:
  assumes "poller_inv p" and "\<forall>f. reg_events (poller_abs p) (fd, f) = None"
    and "req = Activate fd f \<or> req = Deactivate fd f"
  shows "poller_request req p = (Inl (Out_Of_Range ''unordered_map::at''), p)"
  using poller_unknown_descriptor [OF assms(1,2)] assms(3)
  by (auto simp: poller_activate_def poller_deactivate_def)

interpretation poller: event_registry poller_inv poller_abs UNIV poller_request
proof unfold_locales
  show "\<exists>t. poller_request req p = (Inr (), t) \<and> poller_inv t \<and>
      poller_abs t = registry_request req (poller_abs p)"
    if "poller_inv p" "request_allowed UNIV req (poller_abs p)" for p :: "'a poller" and req
    using that by (rule poller_request_refines)
  show "poller_request (Register fd f cb) p =
      (Inl (Runtime_Error ''attempted to register the same event''), p)"
    if "reg_events (poller_abs p) (fd, f) \<noteq> None" for p :: "'a poller" and fd f cb
    unfolding poller_request.simps using that by (rule poller_register_twice)
  show "poller_request req p = (Inl (Out_Of_Range ''unordered_map::at''), p)"
    if "poller_inv p" "\<forall>f. reg_events (poller_abs p) (fd, f) = None" "req = Activate fd f \<or> req = Deactivate fd f"
    for p :: "'a poller" and fd f req
    using that by (rule poller_unknown_request)
qed

section \<open>One round of the event loop\<close>

lemma poller_do_deregister_inv: "poller_inv p \<Longrightarrow> poller_inv (poller_do_deregister p)"
  by (simp add: poller_inv_def poller_do_deregister_def)

definition registers_on :: "int \<Rightarrow> 'cb request \<Rightarrow> bool" where
  "registers_on fd req = (case req of Register fd' _ _ \<Rightarrow> fd' = fd | _ \<Rightarrow> False)"

text \<open>
  What the round relies on of the callbacks: they change the poller only by requests, and register
  events only on descriptors that have none yet.
\<close>

definition callbacks_request :: "('cb, 'cb poller \<times> 'w) callbacks \<Rightarrow> bool" where
  "callbacks_request run \<longleftrightarrow>
     (\<forall>cb p w r p' w'. run cb (p, w) = Some (r, p', w') \<longrightarrow>
        (\<exists>reqs. perform poller_request reqs p = (Inr (), p') \<and>
           (\<forall>req \<in> set reqs. \<forall>fd. registers_on fd req \<longrightarrow> pl_roster p fd = None)))"

lemma poller_request_roster:
  assumes "poller_request req p = (Inr (), p')" and "\<not> registers_on fd req"
  shows "pl_roster p' fd = pl_roster p fd"
  using assms
  by (cases req) (auto simp: registers_on_def poller_register_def poller_activate_def
      poller_deactivate_def poller_deregister_def split: option.splits if_splits)

lemma perform_roster:
  assumes "perform poller_request reqs p = (Inr (), p')" and "\<forall>req \<in> set reqs. \<not> registers_on fd req"
  shows "pl_roster p' fd = pl_roster p fd"
  using assms
proof (induction reqs arbitrary: p)
  case (Cons req reqs)
  then obtain t where "poller_request req p = (Inr (), t)" "perform poller_request reqs t = (Inr (), p')"
    by (auto simp: perform_Cons_bind bind_action_def split: prod.splits sum.splits)
  with Cons poller_request_roster [of req p t fd] show ?case by simp
qed simp

lemma callbacks_keep_roster: "callbacks_request run \<Longrightarrow> keeps_roster poller_roster run"
  unfolding keeps_roster_def
proof clarify
  fix cb p w r p' w' fd callbacks
  assume run: "callbacks_request run" "run cb (p, w) = Some (r, p', w')"
    and known: "pl_roster (fst (p, w)) fd = Some callbacks"
  obtain reqs where "perform poller_request reqs p = (Inr (), p')"
    "\<forall>req \<in> set reqs. \<forall>fd. registers_on fd req \<longrightarrow> pl_roster p fd = None"
    using run unfolding callbacks_request_def by blast
  moreover from this have "\<forall>req \<in> set reqs. \<not> registers_on fd req" using known by fastforce
  ultimately show "pl_roster (fst (p', w')) fd = pl_roster (fst (p, w)) fd"
    using perform_roster [of reqs p p' fd] by simp
qed

section \<open>Properties\<close>

text \<open>
  What \<open>poll(2)\<close> returns when it does not fail: one mask for each descriptor, which has a flag of
  \<open>Flag\<close> only if it was asked for.
\<close>

definition poll_answers :: "(int \<times> u16) list \<Rightarrow> int \<times> u16 list \<Rightarrow> bool" where
  "poll_answers fds answer =
     (case answer of (r, revents) \<Rightarrow> 0 \<le> r \<and> r < 2 ^ 31 \<and>
        list_all2 (\<lambda>(fd, events) revents. \<forall>f. has_flag revents f \<longrightarrow> has_flag events f) fds revents)"

lemma fds_to_poll_active: "(fd, events) \<in> set (fds_to_poll order p) \<Longrightarrow> pl_active p fd = Some events"
  by (auto simp: fds_to_poll_def split: option.splits if_splits)

text \<open>The entries the loop goes through belong to monitored descriptors, with flags that were asked for.\<close>

lemma polled_entries:
  assumes "poller_inv p" and "poll_answers (fds_to_poll order p) (r, revents)"
    and "(fd, asked, re) \<in> set (polled (fds_to_poll order p) revents)"
  shows "pl_roster p fd \<noteq> None" and "\<forall>f. has_flag re f \<longrightarrow> asked f"
    and "asked f \<longleftrightarrow> poller_requested p fd f"
proof -
  obtain events where z: "((fd, events), re) \<in> set (zip (fds_to_poll order p) revents)" "asked = has_flag events"
    using assms(3) by (auto simp: polled_def)
  have act: "pl_active p fd = Some events" by (rule fds_to_poll_active [OF set_zip_leftD [OF z(1)]])
  show "pl_roster p fd \<noteq> None" using act poller_invD(1) [OF assms(1), of fd] by simp
  show "\<forall>f. has_flag re f \<longrightarrow> asked f" using assms(2) z by (auto simp: poll_answers_def list_all2_iff)
  show "asked f \<longleftrightarrow> poller_requested p fd f" using act z(2) by (simp add: poller_requested_def)
qed

lemma poller_poll_ready:
  assumes "poller_inv p" and "callbacks_request run"
    and "sys_poll (fds_to_poll order (poller_do_deregister p)) timeout_ms w = ((r, revents), w')"
    and "poll_answers (fds_to_poll order (poller_do_deregister p)) (r, revents)"
  shows "poller_poll sys_poll run order flag_order timeout_ms (p, w) =
    run_callbacks run (callbacks_of (pl_roster (poller_do_deregister p))
      (ready_events (pl_roster (poller_do_deregister p)) flag_order
        (polled (fds_to_poll order (poller_do_deregister p)) revents))) (poller_do_deregister p, w')"
proof -
  let ?p = "poller_do_deregister p" and ?fds = "fds_to_poll order (poller_do_deregister p)"
  have ok: "check_syscall r = Inr r" using assms(4) by (simp add: check_syscall_int poll_answers_def)
  note entries = polled_entries [OF poller_do_deregister_inv [OF assms(1)] assms(4)]
  have "dispatch poller_roster run flag_order (polled ?fds revents) (?p, w') =
      run_callbacks run (callbacks_of (pl_roster ?p) (ready_events (pl_roster ?p) flag_order (polled ?fds revents)))
        (?p, w')"
    by (rule dispatch_ready [OF callbacks_keep_roster [OF assms(2)]]) (use entries(1,2) in blast | simp)+
  then show ?thesis using ok assms(3) by (simp add: poller_poll_def Let_def)
qed

definition reported :: "(int \<times> u16) list \<Rightarrow> u16 list \<Rightarrow> int \<Rightarrow> flag \<Rightarrow> bool" where
  "reported fds revents fd f = (\<exists>((fd', events), re) \<in> set (zip fds revents). fd' = fd \<and> has_flag re f)"

lemma reported_polled:
  "reported fds revents fd f \<longleftrightarrow> (\<exists>asked re. (fd, asked, re) \<in> set (polled fds revents) \<and> has_flag re f)"
  by (force simp: reported_def polled_def)

lemma fds_to_poll_keys:
  "map fst (fds_to_poll order p) = filter (\<lambda>fd. \<exists>events. pl_active p fd = Some events \<and> events \<noteq> 0) order"
  by (induction order) (auto simp: fds_to_poll_def split: option.split)

text \<open>
  C12: one call of \<open>poll\<close> drops the descriptors scheduled to deregister, polls the monitored ones, and
  then runs, each once, the callbacks registered at that moment for the monitored events the kernel
  reports. What the callbacks do to the poller meanwhile (deactivate an event, deregister a descriptor,
  register new ones) neither removes a callback from this round nor adds one, and neither \<open>roster_.at\<close>
  nor the assertion on the returned events fails: an exception comes only from a callback.
\<close>

theorem poll_runs_ready_callbacks:
  assumes "poller_inv p" and "callbacks_request run"
    and "distinct order" and "set order = {fd. pl_active (poller_do_deregister p) fd \<noteq> None}"
    and "\<forall>fd. distinct (flag_order fd) \<and> set (flag_order fd) = UNIV"
    and "sys_poll (fds_to_poll order (poller_do_deregister p)) timeout_ms w = ((r, revents), w')"
    and "poll_answers (fds_to_poll order (poller_do_deregister p)) (r, revents)"
  shows "\<exists>evs. poller_poll sys_poll run order flag_order timeout_ms (p, w) =
      run_callbacks run (callbacks_of (pl_roster (poller_do_deregister p)) evs) (poller_do_deregister p, w') \<and>
    distinct evs \<and>
    set evs = {(fd, f). poller_requested (poller_do_deregister p) fd f \<and> fd \<notin> pl_leaving p \<and>
      reported (fds_to_poll order (poller_do_deregister p)) revents fd f}"
proof -
  let ?p = "poller_do_deregister p" and ?fds = "fds_to_poll order (poller_do_deregister p)"
  let ?evs = "ready_events (pl_roster ?p) flag_order (polled ?fds revents)"
  have inv: "poller_inv ?p" by (rule poller_do_deregister_inv [OF assms(1)])
  have "length ?fds = length revents" using assms(7) by (auto simp: poll_answers_def dest: list_all2_lengthD)
  then have "map fst (polled ?fds revents) = map fst ?fds"
    by (simp add: polled_def o_def split_def flip: map_map [where f = fst and g = fst, unfolded o_def])
  then have "distinct ?evs"
    by (intro distinct_ready_events) (use assms(3,5) in \<open>simp_all add: fds_to_poll_keys\<close>)
  moreover have asked: "poller_requested ?p fd f \<and> fd \<notin> pl_leaving p \<and> callback_at (pl_roster ?p) fd f \<noteq> None"
    if rep: "reported ?fds revents fd f" for fd f
  proof -
    obtain asked re where z: "(fd, asked, re) \<in> set (polled ?fds revents)" "has_flag re f"
      using rep unfolding reported_polled by blast
    note entry = polled_entries [OF inv assms(7) z(1)]
    obtain callbacks where cb: "pl_roster ?p fd = Some callbacks" using entry(1) by blast
    have req: "poller_requested ?p fd f" using entry(2,3) z(2) by blast
    then obtain events where ev: "pl_active ?p fd = Some events" "has_flag events f"
      by (auto simp: poller_requested_def split: option.splits)
    have "fd \<notin> pl_leaving p" using cb by (auto simp: poller_do_deregister_def)
    with req poller_invD(3) [OF inv cb ev] cb show ?thesis by (simp add: callback_at_def)
  qed
  have "set ?evs = {(fd, f). poller_requested ?p fd f \<and> fd \<notin> pl_leaving p \<and> reported ?fds revents fd f}"
    using set_ready_events [of flag_order "pl_roster ?p" "polled ?fds revents"] assms(5) asked
    unfolding reported_polled by blast
  moreover have "poller_poll sys_poll run order flag_order timeout_ms (p, w) =
      run_callbacks run (callbacks_of (pl_roster ?p) ?evs) (?p, w')"
    using assms(1,2,6,7) by (rule poller_poll_ready)
  ultimately show ?thesis by blast
qed

text \<open>
  Two descriptors are ready; the callback of the first deregisters the second, whose callback still runs
  in this round.
\<close>

definition logging :: "(nat, nat poller \<times> nat list) callbacks" where
  "logging cb = (\<lambda>(p, w). let (r, p') = poller_request (Deregister 5) p in Some (r, p', w @ [cb]))"

lemma logging_requests: "callbacks_request logging"
  unfolding callbacks_request_def
proof (intro allI impI)
  fix cb p w r p' w'
  assume "logging cb (p, w) = Some (r, p', w')"
  then have "perform poller_request [Deregister 5] p = (Inr (), p')"
    by (auto simp: logging_def perform_Cons_bind poller_deregister_def bind_action_def)
  then show "\<exists>reqs. perform poller_request reqs p = (Inr (), p') \<and>
      (\<forall>req \<in> set reqs. \<forall>fd. registers_on fd req \<longrightarrow> pl_roster p fd = None)"
    by (intro exI [of _ "[Deregister 5]"]) (simp add: registers_on_def)
qed

definition two_ready :: "nat poller" where
  "two_ready = \<lparr>pl_roster = [4 \<mapsto> [In \<mapsto> 10], 5 \<mapsto> [Out \<mapsto> 20]], pl_active = [4 \<mapsto> 1, 5 \<mapsto> 4], pl_leaving = {}\<rparr>"

definition all_ready :: "nat list sys_poll" where
  "all_ready fds timeout w = ((int (length fds), map snd fds), w)"

lemma two_ready_inv: "poller_inv two_ready"
  by (simp add: poller_inv_def two_ready_def has_flag_def flag_value_def split: flag.split)

lemma two_ready_after [simp]: "poller_do_deregister two_ready = two_ready"
  by (simp add: two_ready_def poller_do_deregister_def fun_eq_iff)

lemma two_ready_fds: "fds_to_poll [4, 5] two_ready = [(4, 1), (5, 4)]"
  by (simp add: fds_to_poll_def two_ready_def)

theorem poll_runs_ready_callbacks_witness:
  "\<exists>evs. poller_poll all_ready logging [4, 5] (\<lambda>_. [In, Out]) (- 1) (two_ready, []) =
     run_callbacks logging (callbacks_of (pl_roster two_ready) evs) (two_ready, []) \<and> distinct evs \<and>
   set evs = {(4, In), (5, Out)}"
proof -
  have answer: "all_ready (fds_to_poll [4, 5] (poller_do_deregister two_ready)) (- 1) [] = ((2, [1, 4]), [])"
    by (simp add: all_ready_def two_ready_fds)
  have answers: "poll_answers (fds_to_poll [4, 5] (poller_do_deregister two_ready)) (2, [1, 4])"
    by (simp add: poll_answers_def two_ready_fds)
  have order: "distinct [4, 5 :: int]"
    "set [4, 5] = {fd. pl_active (poller_do_deregister two_ready) fd \<noteq> None}"
    by (auto simp: two_ready_def poller_do_deregister_def split: if_splits)
  have flags: "\<forall>fd. distinct ((\<lambda>_. [In, Out]) fd) \<and> set ((\<lambda>_. [In, Out]) (fd :: int)) = UNIV"
    using flag.exhaust by auto
  have "{(fd, f). poller_requested two_ready fd f \<and> fd \<notin> pl_leaving two_ready \<and>
      reported [(4, 1), (5, 4)] [1, 4] fd f} = {(4, In), (5, Out)}"
    by (auto simp: poller_requested_def two_ready_def reported_def has_flag_def flag_value_def flag_other
        split: flag.splits)
  with poll_runs_ready_callbacks [where sys_poll = all_ready, OF two_ready_inv logging_requests order flags
      answer answers]
  show ?thesis by (simp add: two_ready_fds)
qed

text \<open>
  C25: repeated activation and deactivation of a registered event is harmless: the requests succeed, the
  last one decides whether the event is monitored, and no other event changes. Registering the event
  again is refused and changes nothing.
\<close>

theorem poller_last_request_decides:
  assumes "poller_inv p" and "callback_at (pl_roster p) fd f = Some cb"
    and "\<forall>req \<in> set reqs. req = Activate fd f \<or> req = Deactivate fd f"
  shows "\<exists>q. perform poller_request reqs p = (Inr (), q) \<and> poller_inv q \<and>
    callback_at (pl_roster q) fd f = Some cb \<and>
    poller_requested q fd f = (if reqs = [] then poller_requested p fd f else last reqs = Activate fd f) \<and>
    (\<forall>ev. ev \<noteq> (fd, f) \<longrightarrow> reg_events (poller_abs q) ev = reg_events (poller_abs p) ev) \<and>
    poller_request (Register fd f cb') q = (Inl (Runtime_Error ''attempted to register the same event''), q)"
proof -
  have "reg_events (poller_abs p) (fd, f) = Some (cb, poller_requested p fd f)" using assms(2) by simp
  from poller.last_request_decides [OF assms(1) this assms(3)] obtain q where
    q: "perform poller_request reqs p = (Inr (), q)" "poller_inv q"
    "reg_events (poller_abs q) (fd, f) =
       Some (cb, if reqs = [] then poller_requested p fd f else last reqs = Activate fd f)"
    "\<forall>ev. ev \<noteq> (fd, f) \<longrightarrow> reg_events (poller_abs q) ev = reg_events (poller_abs p) ev" by blast
  have "reg_events (poller_abs q) (fd, f) \<noteq> None" using q(3) by simp
  from poller.register_twice [OF q(2) this, of cb'] q show ?thesis by auto
qed

theorem poller_last_request_decides_witness:
  "\<exists>q. perform poller_request [Deactivate 4 In, Deactivate 4 In, Activate 4 In] two_ready = (Inr (), q) \<and>
     poller_requested q 4 In"
proof -
  have "callback_at (pl_roster two_ready) 4 In = Some 10" by (simp add: two_ready_def callback_at_def)
  from poller_last_request_decides [OF two_ready_inv this, of "[Deactivate 4 In, Deactivate 4 In, Activate 4 In]" 0]
  show ?thesis by auto
qed

text \<open>
  C33: removal is by descriptor number and deferred to the next \<open>poll\<close>: an event registered for a number
  whose removal is scheduled (a new descriptor that got the number of a closed one) is refused if the old
  one had the same flag, and otherwise accepted but silently dropped by the next \<open>poll\<close>.
\<close>

theorem reused_descriptor_dropped:
  assumes "poller_inv p" and "fd \<in> pl_leaving p"
  shows "case poller_request (Register fd f cb) p of
      (Inr _, q) \<Rightarrow> poller_requested q fd f \<and> callback_at (pl_roster q) fd f = Some cb \<and>
        (\<forall>g. callback_at (pl_roster (poller_do_deregister q)) fd g = None)
    | (Inl e, q) \<Rightarrow> e = Runtime_Error ''attempted to register the same event'' \<and> q = p \<and>
        callback_at (pl_roster p) fd f \<noteq> None"
proof (cases "callback_at (pl_roster p) fd f")
  case None
  then have "reg_events (poller_abs p) (fd, f) = None" by simp
  from poller_register_refines [OF assms(1) this, of cb] obtain q where
    q: "poller_register fd f cb p = (Inr (), q)"
    "poller_abs q = registry_request (Register fd f cb) (poller_abs p)" by blast
  have "reg_events (poller_abs q) (fd, f) = Some (cb, True)" by (simp add: q(2) del: poller_abs_simps)
  moreover have "pl_leaving q = pl_leaving p"
    using arg_cong [OF q(2), of reg_leaving] by simp
  ultimately show ?thesis
    using q(1) assms(2) by (auto simp: callback_at_def poller_do_deregister_def)
next
  case (Some cb')
  then have "reg_events (poller_abs p) (fd, f) \<noteq> None" by simp
  from poller_register_twice [OF this, of cb] Some show ?thesis by simp
qed

theorem reused_descriptor_dropped_witness:
  "poller_inv (two_ready\<lparr>pl_leaving := {4}\<rparr>) \<and>
   fst (poller_request (Register 4 Out 30) (two_ready\<lparr>pl_leaving := {4}\<rparr>)) = Inr () \<and>
   callback_at (pl_roster (poller_do_deregister (snd (poller_request (Register 4 Out 30)
     (two_ready\<lparr>pl_leaving := {4}\<rparr>))))) 4 Out = None"
proof -
  let ?p = "two_ready\<lparr>pl_leaving := {4}\<rparr>"
  have "poller_inv ?p" using two_ready_inv by (simp add: poller_inv_def)
  moreover have "4 \<in> pl_leaving ?p" by simp
  moreover obtain q where "poller_request (Register 4 Out 30) ?p = (Inr (), q)"
    by (simp add: poller_register_def two_ready_def)
  ultimately show ?thesis using reused_descriptor_dropped [of ?p 4 Out 30] by simp
qed

end
