(* ===== verification/Timers.thy ===== *)
theory Timers
  imports File_Descriptor Conversion Serialization "HOL-Library.Signed_Division"
begin

text \<open>
  The model of \<open>src/util/timerfd.hh\<close>, \<open>timerfd.cc\<close>, \<open>timestamp.hh\<close> and \<open>timestamp.cc\<close>: timers that are
  read through a descriptor, and the clock. The timer calls of the kernel and \<open>system_clock::now\<close> are
  parameters.
\<close>

section \<open>Timers\<close>

record timespec =
  tv_sec :: int
  tv_nsec :: int

record 'w timers =
  tm_create :: "string \<Rightarrow> string \<Rightarrow> 'w \<Rightarrow> int \<times> 'w"
  tm_settime :: "int \<Rightarrow> timespec \<Rightarrow> timespec \<Rightarrow> 'w \<Rightarrow> int \<times> 'w"

definition timerfd_open :: "'w timers \<Rightarrow> 'w os \<Rightarrow> string \<Rightarrow> string \<Rightarrow> 'w \<Rightarrow> file_descriptor result \<times> 'w" where
  "timerfd_open tm os clockid flags w =
     (let (r, w') = tm_create tm clockid flags w
      in case check_syscall r of Inl e \<Rightarrow> (Inl e, w') | Inr fd \<Rightarrow> fd_open os fd w')"

definition timerfd_set_time :: "'w timers \<Rightarrow> file_descriptor \<Rightarrow> timespec \<Rightarrow> timespec \<Rightarrow> ('w, unit) action" where
  "timerfd_set_time tm f initial_expiration interval w =
     (let (r, w') = tm_settime tm (fd_num f) initial_expiration interval w
      in (bind_result (check_syscall r) (\<lambda>_. Inr ()), w'))"

text \<open>
  The eight bytes that \<open>read\<close> stores are the counter in the byte order of the host; a shorter result
  is an exception of its own.
\<close>

definition read_expirations :: "'w os \<Rightarrow> file_descriptor \<Rightarrow> ('w, u32) action" where
  "read_expirations os f w =
     (let ((r, data), w') = sys_read os (fd_num f) 8 w
      in (bind_result (check_syscall r) (\<lambda>n.
            if n \<noteq> 8 then Inl (Runtime_Error ''read error in timerfd'')
            else bind_result (narrow_cast unsigned_t uint64_t
                   (uint (mem_word host_little_endian (take 8 (data @ replicate (8 - length data) 0)) :: u64)))
                 (\<lambda>v. Inr (word_of_int v))), w'))"

lemma quiet_expirations:
  assumes "quiet_os os g"
  shows "g (snd (read_expirations os f w)) = g w"
  using assms by (simp add: quiet_os_def read_expirations_def case_prod_unfold Let_def)

section \<open>The clock\<close>

text \<open>
  \<open>now\<close> is the time since the epoch in nanoseconds, the unit of \<open>system_clock\<close>, as a signed 64-bit count;
  the quotient truncates towards zero and is converted to \<open>uint64_t\<close>.
\<close>

definition timestamp_ns :: "int \<Rightarrow> u64" where
  "timestamp_ns now = word_of_int now"

definition timestamp_us :: "int \<Rightarrow> u64" where
  "timestamp_us now = word_of_int (now sdiv 1000)"

definition timestamp_ms :: "int \<Rightarrow> u64" where
  "timestamp_ms now = word_of_int (now sdiv 1000000)"

section \<open>Properties\<close>

text \<open>
  The contract of reading an expired timer: the number of expirations as a 64-bit integer in the byte
  order of the host.
\<close>

definition expired :: "'w os \<Rightarrow> int \<Rightarrow> u64 \<Rightarrow> 'w \<Rightarrow> 'w \<Rightarrow> bool" where
  "expired os fd count w w' = (sys_read os fd 8 w = ((8, mem_bytes host_little_endian count), w'))"

lemma sizeof_u64 [simp]: "sizeof (w :: u64) = 8"
  by (simp add: sizeof_def)

lemma mem_word_bytes_u64: "mem_word host_little_endian (mem_bytes host_little_endian (count :: u64)) = count"
proof -
  have "unat count < 18446744073709551616" using unsigned_less [of count] by simp
  then show ?thesis by (simp add: mem_word_def mem_bytes_def Let_def le_join_split)
qed

lemma length_mem_bytes_u64: "length (mem_bytes host_little_endian (count :: u64)) = 8"
  by (simp add: mem_bytes_def Let_def)

lemma read_expired:
  assumes "expired os (fd_num f) count w w'"
  shows "read_expirations os f w =
    (if uint count < 2 ^ 32 then Inr (word_of_int (uint count)) else Inl (Runtime_Error ''narrow_cast''), w')"
proof -
  have read: "sys_read os (fd_num f) 8 w = ((8, mem_bytes host_little_endian count), w')"
    using assms by (simp add: expired_def)
  have "in_range uint64_t (uint count)" using uint_bounded [of count] by (simp add: in_range_def)
  from narrow_cast_narrower [OF this, of unsigned_t]
  have "narrow_cast unsigned_t uint64_t (uint count) =
      (if uint count < 2 ^ 32 then Inr (uint count) else Inl (Runtime_Error ''narrow_cast''))"
    by (simp add: in_range_def)
  then show ?thesis
    using length_mem_bytes_u64 [of count]
    by (simp add: read_expirations_def read check_syscall_int mem_word_bytes_u64)
qed

text \<open>
  The number of expirations of a timer is returned exactly, and a number that does not fit the result
  type is an exception.
\<close>

lemma read_expirations_exact:
  assumes "expired os (fd_num f) count w w'"
  shows "read_expirations os f w =
    (if uint count < 2 ^ 32 then Inr (word_of_int (uint count)) else Inl (Runtime_Error ''narrow_cast''), w')"
  using assms by (rule read_expired)

lemma read_expirations_exact_witness:
  "read_expirations (stream_os 8) \<lparr>fd_num = 3, fd_eof = False\<rparr> (mem_bytes host_little_endian (2 :: u64), []) =
     (Inr 2, [], [])"
proof -
  have "expired (stream_os 8) 3 2 (mem_bytes host_little_endian (2 :: u64), []) ([], [])"
    using length_mem_bytes_u64 [of 2] by (simp add: expired_def stream_os_def)
  from read_expirations_exact [where f = "\<lparr>fd_num = 3, fd_eof = False\<rparr>", simplified, OF this]
  show ?thesis by simp
qed

text \<open>Times between the epoch and the end of the 64-bit count are neither negative nor reduced.\<close>

lemma timestamp_us_exact: "0 \<le> now \<Longrightarrow> now < 2 ^ 63 \<Longrightarrow> uint (timestamp_us now) = now div 1000"
  by (simp add: timestamp_us_def signed_divide_int_def uint_word_of_int sgn_if take_bit_int_eq_self)

end
