(* ===== verification/Split.thy ===== *)
theory Split
  imports Prelude
begin

text \<open>
  The model of \<open>src/util/split.cc\<close>, which splits the header line of a video file into its tokens,
  with \<open>std::string::find\<close> and \<open>substr\<close> as it uses them.
\<close>

section \<open>Operations\<close>

definition starts_with :: "bytes \<Rightarrow> bytes \<Rightarrow> bool" where
  "starts_with sep s = (take (length sep) s = sep)"

text \<open>The offset of the first occurrence of the separator, None for \<open>string::npos\<close>.\<close>

fun find_sub :: "bytes \<Rightarrow> bytes \<Rightarrow> nat option" where
  "find_sub sep [] = (if sep = [] then Some 0 else None)"
| "find_sub sep (c # s) =
     (if starts_with sep (c # s) then Some 0 else map_option Suc (find_sub sep s))"

definition str_find :: "bytes \<Rightarrow> bytes \<Rightarrow> nat \<Rightarrow> nat option" where
  "str_find str separator pos = map_option (\<lambda>i. pos + i) (find_sub separator (drop pos str))"

text \<open>
  The loop of \<open>split\<close>. It is entered only with a non-empty separator, which makes every round
  advance; the test for the empty one, which \<open>split\<close> has rejected before, keeps the function total.
\<close>

function split_loop :: "bytes \<Rightarrow> bytes \<Rightarrow> nat \<Rightarrow> bytes list \<Rightarrow> bytes list" where
  "split_loop str separator curr_pos ret =
     (if curr_pos < length str \<and> separator \<noteq> [] then
        (case str_find str separator curr_pos of
           None \<Rightarrow> ret @ [drop curr_pos str]
         | Some next_pos \<Rightarrow>
             split_loop str separator (next_pos + length separator)
               (ret @ [take (next_pos - curr_pos) (drop curr_pos str)]))
      else ret)"
  by pat_completeness auto
termination
  by (relation "measure (\<lambda>(str, separator, curr_pos, ret). length str - curr_pos)")
    (auto simp: str_find_def intro!: diff_less_mono2)

declare split_loop.simps [simp del]

definition split_string :: "bytes \<Rightarrow> bytes \<Rightarrow> bytes list result" where
  "split_string str separator =
     (if separator = [] then Inl (Runtime_Error ''empty separator'')
      else Inr (split_loop str separator 0 []))"

section \<open>Finding the separator\<close>

lemma starts_with_take: "starts_with sep (take n s) \<Longrightarrow> starts_with sep s"
  by (metis append_take_drop_id starts_with_def take_add take_all_iff append_eq_conv_conj
      length_take min.cobounded1 min_def take_take)

lemma find_sub_Some:
  assumes "find_sub sep s = Some n" and "sep \<noteq> []"
  shows "s = take n s @ sep @ drop (n + length sep) s \<and> find_sub sep (take n s) = None"
  using assms
proof (induction s arbitrary: n)
  case (Cons c s)
  show ?case
  proof (cases "starts_with sep (c # s)")
    case True
    with Cons.prems show ?thesis
      by (auto simp: starts_with_def intro: append_take_drop_id [symmetric, THEN trans])
  next
    case False
    with Cons.prems obtain m where m: "find_sub sep s = Some m" "n = Suc m" by auto
    have "\<not> starts_with sep (c # take m s)"
      using False starts_with_take [of sep "Suc m" "c # s"] by auto
    with Cons.IH [OF m(1) Cons.prems(2)] m(2) show ?thesis by simp
  qed
qed simp

section \<open>Properties\<close>

text \<open>Putting the separator back between the tokens.\<close>

fun join :: "bytes \<Rightarrow> bytes list \<Rightarrow> bytes" where
  "join sep [] = []"
| "join sep [t] = t"
| "join sep (t # u # ts) = t @ sep @ join sep (u # ts)"

lemma join_Cons: "ts \<noteq> [] \<Longrightarrow> join sep (t # ts) = t @ sep @ join sep ts"
  by (cases ts) simp_all

lemma split_loop_tokens:
  assumes "sep \<noteq> []"
  shows "\<exists>ts. split_loop str sep pos ret = ret @ ts \<and>
    (\<forall>t \<in> set ts. find_sub sep t = None) \<and>
    (drop pos str = join sep ts \<or> drop pos str = join sep ts @ sep \<and> ts \<noteq> [])"
  using assms
proof (induction str sep pos ret rule: split_loop.induct)
  case (1 str sep pos ret)
  show ?case
  proof (cases "pos < length str")
    case False
    then show ?thesis by (subst split_loop.simps) (auto intro: exI [of _ "[]"])
  next
    case more: True
    show ?thesis
    proof (cases "find_sub sep (drop pos str)")
      case None
      with more "1.prems" show ?thesis
        by (subst split_loop.simps) (auto simp: str_find_def intro!: exI [of _ "[drop pos str]"])
    next
      case (Some n)
      let ?t = "take n (drop pos str)"
      have found: "str_find str sep pos = Some (pos + n)" using Some by (simp add: str_find_def)
      have loop: "split_loop str sep pos ret =
          split_loop str sep (pos + n + length sep) (ret @ [?t])"
        using more "1.prems" found by (subst split_loop.simps) simp
      obtain ts where ts: "split_loop str sep (pos + n + length sep) (ret @ [?t]) = (ret @ [?t]) @ ts"
          "\<forall>t \<in> set ts. find_sub sep t = None"
          "drop (pos + n + length sep) str = join sep ts \<or>
           drop (pos + n + length sep) str = join sep ts @ sep \<and> ts \<noteq> []"
        using "1.IH" [OF _ found] more "1.prems" by auto
      have cut: "drop pos str = ?t @ sep @ drop (pos + n + length sep) str"
        and "find_sub sep ?t = None"
        using find_sub_Some [OF Some "1.prems"] by (simp_all add: ac_simps)
      moreover have "drop pos str = join sep (?t # ts) \<or> drop pos str = join sep (?t # ts) @ sep"
      proof (cases ts)
        case Nil
        with ts(3) cut show ?thesis by (metis append_Nil2 join.simps(1,2))
      next
        case (Cons u us)
        with ts(3) cut show ?thesis by (metis append.assoc join.simps(3))
      qed
      ultimately show ?thesis
        using loop ts by (intro exI [of _ "?t # ts"]) auto
    qed
  qed
qed

text \<open>
  For a non-empty separator \<open>split\<close> returns tokens that do not contain it, and putting it back
  between them gives the string again, up to one separator at the end, which leaves no empty token.
\<close>

lemma split_join:
  assumes "separator \<noteq> []"
  shows "\<exists>ts. split_string str separator = Inr ts \<and>
    (\<forall>t \<in> set ts. find_sub separator t = None) \<and>
    (str = join separator ts \<or> str = join separator ts @ separator)"
  using split_loop_tokens [OF assms, of str 0 "[]"] assms by (auto simp: split_string_def)

lemma split_join_witness:
  "\<exists>ts. split_string (ascii '' W704  H576 '') (ascii '' '') = Inr ts \<and>
    (\<forall>t \<in> set ts. find_sub (ascii '' '') t = None) \<and>
    (ascii '' W704  H576 '' = join (ascii '' '') ts \<or>
     ascii '' W704  H576 '' = join (ascii '' '') ts @ ascii '' '')"
  by (rule split_join) (simp add: ascii_def)

end
