(* ===== verification/Yuv4mpeg.thy ===== *)
theory Yuv4mpeg
  imports File_Descriptor Conversion Split Image
begin

text \<open>
  The model of \<open>src/video/yuv4mpeg.hh\<close> and \<open>yuv4mpeg.cc\<close>: reading raw frames from a YUV4MPEG2 file, over
  and over if it is opened in loop mode. Its operations are processes, since \<open>getline\<close> need not return.
\<close>

section \<open>The header\<close>

record yuv4mpeg =
  y4m_fd :: file_descriptor
  y4m_width :: u16
  y4m_height :: u16
  y4m_loop :: bool

text \<open>The case of one token: \<open>token.substr(1)\<close> is what follows its first character.\<close>

fun check_token :: "u16 \<Rightarrow> u16 \<Rightarrow> bytes \<Rightarrow> unit result" where
  "check_token width height [] = Inr ()"
| "check_token width height (c # rest) =
     (if [c] = ascii ''W'' then
        bind_result (strict_stoi rest 10) (\<lambda>v.
          if v \<noteq> uint width then Inl (Runtime_Error ''wrong YUV4MPEG2 frame width'') else Inr ())
      else if [c] = ascii ''H'' then
        bind_result (strict_stoi rest 10) (\<lambda>v.
          if v \<noteq> uint height then Inl (Runtime_Error ''wrong YUV4MPEG2 frame height'') else Inr ())
      else if [c] = ascii ''C'' then
        (if take 4 (c # rest) \<noteq> ascii ''C420''
         then Inl (Runtime_Error ''only YUV420 color space is supported'') else Inr ())
      else Inr ())"

fun check_tokens :: "u16 \<Rightarrow> u16 \<Rightarrow> bytes list \<Rightarrow> unit result" where
  "check_tokens width height [] = Inr ()"
| "check_tokens width height (t # ts) = bind_result (check_token width height t) (\<lambda>_. check_tokens width height ts)"

text \<open>What the constructor does once the file is open.\<close>

definition y4m_header :: "'w os \<Rightarrow> u16 \<Rightarrow> u16 \<Rightarrow> (file_descriptor \<times> 'w, unit) process" where
  "y4m_header os width height =
     bind_process (total (fd_readn os (length (ascii ''YUV4MPEG2'')) False)) (\<lambda>signature.
       if signature \<noteq> ascii ''YUV4MPEG2''
       then total (throw_action (Runtime_Error ''invalid YUV4MPEG2 file signature''))
       else bind_process (fd_getline os) (\<lambda>header.
         total (\<lambda>s. (bind_result (split_string header (ascii '' '')) (check_tokens width height), s))))"

text \<open>
  An exception in the body of the constructor destroys the member \<open>fd_\<close>, which closes the file.
\<close>

definition y4m_open :: "'w os \<Rightarrow> bytes \<Rightarrow> u16 \<Rightarrow> u16 \<Rightarrow> bool \<Rightarrow> ('w, yuv4mpeg) process" where
  "y4m_open os path display_width display_height loop w =
     (case open_file os path [''O_RDONLY''] w of
        (Inl e, w') \<Rightarrow> Some (Inl e, w')
      | (Inr f, w') \<Rightarrow>
          (case y4m_header os display_width display_height (f, w') of
             None \<Rightarrow> None
           | Some (Inl e, f', w'') \<Rightarrow> Some (Inl e, fd_destroy os f' w'')
           | Some (Inr _, f', w'') \<Rightarrow>
               Some (Inr \<lparr>y4m_fd = f', y4m_width = display_width, y4m_height = display_height,
                          y4m_loop = loop\<rparr>, w'')))"

section \<open>Reading a frame\<close>

type_synonym 'w y4m_state = "yuv4mpeg \<times> raw_image \<times> 'w"

definition on_fd :: "(file_descriptor \<times> 'w, 'a) process \<Rightarrow> ('w y4m_state, 'a) process" where
  "on_fd m = (\<lambda>(v, img, w). map_option (\<lambda>(r, f, w'). (r, v\<lparr>y4m_fd := f\<rparr>, img, w')) (m (y4m_fd v, w)))"

definition on_img :: "(raw_image, 'a) action \<Rightarrow> ('w y4m_state, 'a) process" where
  "on_img m = (\<lambda>(v, img, w). let (r, img') = m img in Some (r, v, img', w))"

text \<open>\<open>raw_img.copy_?_from(fd_.readn(?_size()))\<close>.\<close>

definition read_plane :: "'w os \<Rightarrow> (u16 \<Rightarrow> u16 \<Rightarrow> nat result) \<Rightarrow> (bytes \<Rightarrow> (raw_image, unit) action)
    \<Rightarrow> ('w y4m_state, unit) process" where
  "read_plane os plane_size copy_from = (\<lambda>(v, img, w).
     case plane_size (y4m_width v) (y4m_height v) of
       Inl e \<Rightarrow> Some (Inl e, v, img, w)
     | Inr n \<Rightarrow> bind_process (on_fd (total (fd_readn os n False))) (\<lambda>data. on_img (copy_from data)) (v, img, w))"

definition read_planes :: "'w os \<Rightarrow> ('w y4m_state, bool) process" where
  "read_planes os =
     bind_process (read_plane os y_size copy_y_from) (\<lambda>_.
     bind_process (read_plane os uv_size copy_u_from) (\<lambda>_.
     bind_process (read_plane os uv_size copy_v_from) (\<lambda>_.
     total (return_action True))))"

definition read_after_header :: "'w os \<Rightarrow> bytes \<Rightarrow> ('w y4m_state, bool) process" where
  "read_after_header os frame_header =
     (if take 5 frame_header \<noteq> ascii ''FRAME''
      then total (throw_action (Runtime_Error ''invalid YUV4MPEG2 input format''))
      else read_planes os)"

definition read_frame :: "'w os \<Rightarrow> ('w y4m_state, bool) process" where
  "read_frame os = (\<lambda>(v, img, w).
     if raw_display_width img \<noteq> y4m_width v \<or> raw_display_height img \<noteq> y4m_height v
     then Some (Inl (Runtime_Error ''YUV4MPEG: image dimensions don't match''), v, img, w)
     else bind_process (on_fd (fd_getline os)) (\<lambda>frame_header (v', img', w').
            if fd_eof (y4m_fd v') \<and> frame_header = [] then
              (if y4m_loop v' then
                 bind_process (on_fd (total (fd_reset_offset os))) (\<lambda>_.
                 bind_process (on_fd (fd_getline os)) (\<lambda>_.
                 bind_process (on_fd (fd_getline os)) (read_after_header os))) (v', img', w')
               else Some (Inr False, v', img', w'))
            else read_after_header os frame_header (v', img', w'))
          (v, img, w))"

section \<open>Frames of a file\<close>

text \<open>A frame in a file: the parameters after \<open>FRAME\<close> and the three planes.\<close>

record y4m_frame =
  fr_params :: bytes
  fr_y :: bytes
  fr_u :: bytes
  fr_v :: bytes

definition frame_bytes_y4m :: "y4m_frame \<Rightarrow> bytes" where
  "frame_bytes_y4m fr = ascii ''FRAME'' @ fr_params fr @ [10] @ fr_y fr @ fr_u fr @ fr_v fr"

definition frame_fits :: "u16 \<Rightarrow> u16 \<Rightarrow> y4m_frame \<Rightarrow> bool" where
  "frame_fits width height fr =
     (10 \<notin> set (fr_params fr) \<and> length (fr_y fr) = unat width * unat height \<and>
      length (fr_u fr) = unat width * unat height div 4 \<and> length (fr_v fr) = unat width * unat height div 4)"

text \<open>The image after the planes of a frame were copied, and images with room for them.\<close>

definition filled :: "y4m_frame \<Rightarrow> raw_image \<Rightarrow> raw_image" where
  "filled fr img = img\<lparr>raw_vpx_img := (raw_vpx_img img)
     \<lparr>vpx_plane_y := blit (vpx_plane_y (raw_vpx_img img)) 0 (fr_y fr),
      vpx_plane_u := blit (vpx_plane_u (raw_vpx_img img)) 0 (fr_u fr),
      vpx_plane_v := blit (vpx_plane_v (raw_vpx_img img)) 0 (fr_v fr)\<rparr>\<rparr>"

definition image_ready :: "u16 \<Rightarrow> u16 \<Rightarrow> raw_image \<Rightarrow> bool" where
  "image_ready width height img =
     (raw_display_width img = width \<and> raw_display_height img = height \<and>
      4 \<le> unat width * unat height \<and> unat width * unat height < 2 ^ 31 \<and>
      unat width * unat height \<le> length (vpx_plane_y (raw_vpx_img img)) \<and>
      unat width * unat height div 4 \<le> length (vpx_plane_u (raw_vpx_img img)) \<and>
      unat width * unat height div 4 \<le> length (vpx_plane_v (raw_vpx_img img)))"

lemma image_ready_filled:
  "image_ready width height img \<Longrightarrow> frame_fits width height fr \<Longrightarrow> image_ready width height (filled fr img)"
  by (simp add: image_ready_def frame_fits_def filled_def length_blit)

lemma y_size_ready: "image_ready width height img \<Longrightarrow> y_size width height = Inr (unat width * unat height)"
  by (simp add: image_ready_def y_size_def)

lemma uv_size_ready: "image_ready width height img \<Longrightarrow> uv_size width height = Inr (unat width * unat height div 4)"
  by (simp add: uv_size_def y_size_ready)

lemma on_fd_readn:
  assumes "regular_file os (fd_num (y4m_fd v)) rest" and "rest w = data @ tail" and "length data = n" and "0 < n"
  shows "\<exists>w'. on_fd (total (fd_readn os n False)) (v, img, w) = Some (Inr data, v, img, w') \<and> rest w' = tail"
proof -
  have "n \<le> length (rest w)" using assms(2,3) by simp
  then obtain w' where "fd_readn os n False (y4m_fd v, w) = (Inr (take n (rest w)), y4m_fd v, w')"
    "rest w' = drop n (rest w)"
    using readn_loop_regular [OF assms(1), of n w False "[]"] assms(4) by (auto simp: fd_readn_def)
  then show ?thesis using assms(2,3) by (simp add: on_fd_def total_def)
qed

lemma read_plane_ready:
  assumes "regular_file os (fd_num (y4m_fd v)) rest" and "rest w = data @ tail" and "length data = n" and "0 < n"
    and "plane_size (y4m_width v) (y4m_height v) = Inr n" and "copy_from data img = (Inr (), img')"
  shows "\<exists>w'. read_plane os plane_size copy_from (v, img, w) = Some (Inr (), v, img', w') \<and> rest w' = tail"
  using on_fd_readn [OF assms(1-4), of img] assms(5,6)
  by (auto simp: read_plane_def bind_process_def on_img_def)

text \<open>Reading the planes of the next frame of a regular file.\<close>

lemma read_planes_ready:
  assumes "regular_file os (fd_num (y4m_fd v)) rest"
    and "rest w = fr_y fr @ fr_u fr @ fr_v fr @ tail"
    and "frame_fits (y4m_width v) (y4m_height v) fr" and "image_ready (y4m_width v) (y4m_height v) img"
  shows "\<exists>w'. read_planes os (v, img, w) = Some (Inr True, v, filled fr img, w') \<and> rest w' = tail"
proof -
  let ?n = "unat (y4m_width v) * unat (y4m_height v)"
  have "4 \<le> ?n" using assms(4) by (simp add: image_ready_def)
  then have pos: "0 < ?n" "0 < ?n div 4" by linarith+
  have lens: "length (fr_y fr) = ?n" "length (fr_u fr) = ?n div 4"
    "length (fr_v fr) = ?n div 4"
    using assms(3) by (simp_all add: frame_fits_def)
  note sizes = y_size_ready [OF assms(4)] uv_size_ready [OF assms(4)]
  let ?v1 = "(raw_vpx_img img)\<lparr>vpx_plane_y := blit (vpx_plane_y (raw_vpx_img img)) 0 (fr_y fr)\<rparr>"
  let ?i1 = "img\<lparr>raw_vpx_img := ?v1\<rparr>"
  let ?v2 = "?v1\<lparr>vpx_plane_u := blit (vpx_plane_u (raw_vpx_img img)) 0 (fr_u fr)\<rparr>"
  let ?i2 = "img\<lparr>raw_vpx_img := ?v2\<rparr>"
  have dims: "raw_display_width img = y4m_width v" "raw_display_height img = y4m_height v"
    using assms(4) by (simp_all add: image_ready_def)
  have room: "?n \<le> length (vpx_plane_y (raw_vpx_img img))" "?n div 4 \<le> length (vpx_plane_u (raw_vpx_img img))"
    "?n div 4 \<le> length (vpx_plane_v (raw_vpx_img img))"
    using assms(4) by (simp_all add: image_ready_def)
  have c1: "copy_y_from (fr_y fr) img = (Inr (), ?i1)"
    using sizes(1) lens(1) room(1) by (simp add: copy_y_from_def copy_plane_from_def memcpy_plane_def dims)
  have c2: "copy_u_from (fr_u fr) ?i1 = (Inr (), ?i2)"
    using sizes(2) lens(2) room(2) by (simp add: copy_u_from_def copy_plane_from_def memcpy_plane_def dims)
  have c3: "copy_v_from (fr_v fr) ?i2 = (Inr (), filled fr img)"
    using sizes(2) lens(3) room(3)
    by (simp add: copy_v_from_def copy_plane_from_def memcpy_plane_def filled_def dims)
  obtain w1 where w1: "read_plane os y_size copy_y_from (v, img, w) = Some (Inr (), v, ?i1, w1)"
    "rest w1 = fr_u fr @ fr_v fr @ tail"
    using read_plane_ready [where rest = rest and w = w and plane_size = y_size and copy_from = copy_y_from and
        img = img, OF assms(1,2) lens(1) pos(1) sizes(1) c1] by blast
  obtain w2 where w2: "read_plane os uv_size copy_u_from (v, ?i1, w1) = Some (Inr (), v, ?i2, w2)"
    "rest w2 = fr_v fr @ tail"
    using read_plane_ready [where rest = rest and w = w1 and plane_size = uv_size and copy_from = copy_u_from and
        img = ?i1, OF assms(1) w1(2) lens(2) pos(2) sizes(2) c2] by blast
  obtain w3 where w3: "read_plane os uv_size copy_v_from (v, ?i2, w2) = Some (Inr (), v, filled fr img, w3)"
    "rest w3 = tail"
    using read_plane_ready [where rest = rest and w = w2 and plane_size = uv_size and copy_from = copy_v_from and
        img = ?i2, OF assms(1) w2(2) lens(3) pos(2) sizes(2) c3] by blast
  show ?thesis
    using w3(2) by (simp add: read_planes_def bind_process_def w1(1) w2(1) w3(1) total_def return_action_def)
qed

section \<open>Lines of a file\<close>

lemma line_split:
  assumes "l @ c # t = l' @ c # t'" and "c \<notin> set l" and "c \<notin> set l'"
  shows "l = l'" and "t = t'"
proof -
  have "takeWhile (\<lambda>x. x \<noteq> c) (l @ c # t) = l" if "c \<notin> set l" for l t :: "'a list"
    using that by (induction l) auto
  with assms show "l = l'" by metis
  with assms(1) show "t = t'" by simp
qed

lemma getline_line:
  assumes "regular_file os (fd_num f) rest" and "\<not> fd_eof f" and "rest w = l @ 10 # t" and "10 \<notin> set l"
  shows "\<exists>w'. fd_getline os (f, w) = Some (Inr l, f, w') \<and> rest w' = t"
proof -
  have "10 \<in> set (rest w)" using assms(3) by simp
  then obtain line w' where line: "getline_loop os [] f w = Some (Inr line, f, w')" "10 \<notin> set line"
    "rest w = line @ 10 # rest w'"
    using getline_loop_regular [OF assms(1,2), of "[]" w] by auto
  from line_split [OF _ assms(4) line(2), of t "rest w'"] line(3) assms(3)
  have "l = line" "t = rest w'" by simp_all
  with line(1) show ?thesis by (simp add: fd_getline_def)
qed

lemma getline_end:
  assumes "regular_file os (fd_num f) rest" and "\<not> fd_eof f" and "rest w = []"
  shows "\<exists>w'. fd_getline os (f, w) = Some (Inr [], f\<lparr>fd_eof := True\<rparr>, w') \<and> rest w' = []"
  using getline_loop_regular [OF assms(1,2), of "[]" w] assms(3) by (auto simp: fd_getline_def)

lemma length_FRAME: "length (ascii ''FRAME'') = 5"
  by (simp add: ascii_def)

lemma newline_not_FRAME: "10 \<notin> set (ascii ''FRAME'')"
  by (simp add: ascii_def)

lemma read_after_header_ready:
  assumes "regular_file os (fd_num (y4m_fd v)) rest"
    and "rest w = fr_y fr @ fr_u fr @ fr_v fr @ tail"
    and "frame_fits (y4m_width v) (y4m_height v) fr" and "image_ready (y4m_width v) (y4m_height v) img"
  shows "\<exists>w'. read_after_header os (ascii ''FRAME'' @ fr_params fr) (v, img, w) =
      Some (Inr True, v, filled fr img, w') \<and> rest w' = tail"
  using read_planes_ready [OF assms] by (simp add: read_after_header_def length_FRAME [symmetric])

text \<open>The next frame of the file is read into the image.\<close>

lemma frame_line:
  "frame_fits width height fr \<Longrightarrow> 10 \<notin> set (ascii ''FRAME'' @ fr_params fr)"
  by (simp add: frame_fits_def newline_not_FRAME)

lemma read_frame_next:
  assumes "regular_file os (fd_num (y4m_fd v)) rest" and "\<not> fd_eof (y4m_fd v)"
    and "rest w = frame_bytes_y4m fr @ tail"
    and "frame_fits (y4m_width v) (y4m_height v) fr" and "image_ready (y4m_width v) (y4m_height v) img"
  shows "\<exists>w'. read_frame os (v, img, w) = Some (Inr True, v, filled fr img, w') \<and> rest w' = tail"
proof -
  let ?l = "ascii ''FRAME'' @ fr_params fr"
  have "rest w = ?l @ 10 # fr_y fr @ fr_u fr @ fr_v fr @ tail"
    using assms(3) by (simp add: frame_bytes_y4m_def)
  from getline_line [OF assms(1,2) this frame_line [OF assms(4)]] obtain w1 where
    w1: "fd_getline os (y4m_fd v, w) = Some (Inr ?l, y4m_fd v, w1)"
    "rest w1 = fr_y fr @ fr_u fr @ fr_v fr @ tail" by blast
  have line: "on_fd (fd_getline os) (v, img, w) = Some (Inr ?l, v, img, w1)"
    using w1(1) by (simp add: on_fd_def)
  have "raw_display_width img = y4m_width v" "raw_display_height img = y4m_height v"
    using assms(5) by (simp_all add: image_ready_def)
  then show ?thesis
    using read_after_header_ready [OF assms(1) w1(2) assms(4,5)] assms(2)
    by (simp add: read_frame_def bind_process_def line)
qed

section \<open>Starting over\<close>

text \<open>A file that can be repositioned to its beginning, where its content is \<open>content\<close>.\<close>

definition rewindable :: "'w os \<Rightarrow> int \<Rightarrow> ('w \<Rightarrow> bytes) \<Rightarrow> bytes \<Rightarrow> bool" where
  "rewindable os fd rest content \<longleftrightarrow>
     (\<forall>w. \<exists>w'. sys_lseek os fd 0 SEEK_SET w = (0, w') \<and> rest w' = content)"

lemma reset_rewinds:
  assumes "rewindable os (fd_num f) rest content"
  shows "\<exists>w'. fd_reset_offset os (f, w) = (Inr (), f\<lparr>fd_eof := False\<rparr>, w') \<and> rest w' = content"
proof -
  obtain w' where "sys_lseek os (fd_num f) 0 SEEK_SET w = (0, w')" "rest w' = content"
    using assms unfolding rewindable_def by blast
  then show ?thesis
    by (simp add: fd_reset_offset_def fd_seek_def bind_action_def check_syscall_int)
qed

lemma read_frame_restart:
  assumes "regular_file os (fd_num (y4m_fd v)) rest" and "\<not> fd_eof (y4m_fd v)" and "rest w = []"
    and "rewindable os (fd_num (y4m_fd v)) rest (header @ 10 # frame_bytes_y4m fr @ tail)"
    and "10 \<notin> set header" and "y4m_loop v"
    and "frame_fits (y4m_width v) (y4m_height v) fr" and "image_ready (y4m_width v) (y4m_height v) img"
  shows "\<exists>w'. read_frame os (v, img, w) = Some (Inr True, v, filled fr img, w') \<and> rest w' = tail"
proof -
  let ?f = "y4m_fd v" and ?l = "ascii ''FRAME'' @ fr_params fr"
  let ?v = "v\<lparr>y4m_fd := ?f\<lparr>fd_eof := True\<rparr>\<rparr>"
  obtain w1 where w1: "fd_getline os (?f, w) = Some (Inr [], ?f\<lparr>fd_eof := True\<rparr>, w1)"
    using getline_end [OF assms(1,2,3)] by blast
  have "fd_num (?f\<lparr>fd_eof := True\<rparr>) = fd_num ?f" by simp
  with reset_rewinds [of os "?f\<lparr>fd_eof := True\<rparr>" rest _ w1] assms(4) obtain w2 where
    w2: "fd_reset_offset os (?f\<lparr>fd_eof := True\<rparr>, w1) = (Inr (), ?f, w2)"
    "rest w2 = header @ 10 # frame_bytes_y4m fr @ tail"
    using assms(2) by fastforce
  obtain w3 where w3: "fd_getline os (?f, w2) = Some (Inr header, ?f, w3)" "rest w3 = frame_bytes_y4m fr @ tail"
    using getline_line [OF assms(1,2) w2(2) assms(5)] by blast
  have "rest w3 = ?l @ 10 # fr_y fr @ fr_u fr @ fr_v fr @ tail"
    using w3(2) by (simp add: frame_bytes_y4m_def)
  from getline_line [OF assms(1,2) this frame_line [OF assms(7)]] obtain w4 where
    w4: "fd_getline os (?f, w3) = Some (Inr ?l, ?f, w4)" "rest w4 = fr_y fr @ fr_u fr @ fr_v fr @ tail" by blast
  have s1: "on_fd (fd_getline os) (v, img, w) = Some (Inr [], ?v, img, w1)" using w1 by (simp add: on_fd_def)
  have s2: "on_fd (total (fd_reset_offset os)) (?v, img, w1) = Some (Inr (), v, img, w2)"
    using w2(1) by (simp add: on_fd_def total_def)
  have s3: "on_fd (fd_getline os) (v, img, w2) = Some (Inr header, v, img, w3)" using w3(1) by (simp add: on_fd_def)
  have s4: "on_fd (fd_getline os) (v, img, w3) = Some (Inr ?l, v, img, w4)" using w4(1) by (simp add: on_fd_def)
  have "raw_display_width img = y4m_width v" "raw_display_height img = y4m_height v"
    using assms(8) by (simp_all add: image_ready_def)
  then show ?thesis
    using read_after_header_ready [OF assms(1) w4(2) assms(7,8)] assms(6)
    by (simp add: read_frame_def bind_process_def s1 s2 s3 s4)
qed

section \<open>Reading many frames\<close>

text \<open>
  The loop of the sender's frame timer: one frame is read for each expiration, the last one stays in the
  image, and the end of the input is an exception.
\<close>

fun fetch_frames :: "'w os \<Rightarrow> nat \<Rightarrow> ('w y4m_state, unit) process" where
  "fetch_frames os 0 = total (return_action ())"
| "fetch_frames os (Suc n) =
     bind_process (read_frame os) (\<lambda>ok.
       if \<not> ok then total (throw_action (Runtime_Error ''Reached the end of video input''))
       else fetch_frames os n)"

text \<open>Reading frames keeps what reading, seeking and copying into the image keep.\<close>

lemma keeps_on_img:
  assumes "\<And>v img w. P (v, img, w) \<Longrightarrow> P (v, snd (m img), w)"
  shows "keeps P (on_img m)"
  using assms by (fastforce simp: keeps_def on_img_def split: prod.splits)

lemma keeps_fetch:
  fixes P :: "'w y4m_state \<Rightarrow> bool"
  assumes readn: "\<And>n. keeps P (on_fd (total (fd_readn os n False)))"
    and line: "keeps P (on_fd (fd_getline os))" and reset: "keeps P (on_fd (total (fd_reset_offset os)))"
    and copy: "\<And>copy data v img w. copy \<in> {copy_y_from, copy_u_from, copy_v_from} \<Longrightarrow> P (v, img, w) \<Longrightarrow>
      P (v, snd (copy data img), w)"
  shows "keeps P (fetch_frames os n)"
proof -
  have plane: "keeps P (read_plane os plane_size copy)" if "copy \<in> {copy_y_from, copy_u_from, copy_v_from}"
    for plane_size copy
  proof -
    have "keeps P (bind_process (on_fd (total (fd_readn os n False))) (\<lambda>data. on_img (copy data)))" for n
      by (intro keeps_bind readn keeps_on_img assms(4) [OF that])
    then show ?thesis by (auto simp: keeps_def read_plane_def split: sum.splits)
  qed
  have planes: "keeps P (read_planes os)"
    unfolding read_planes_def by (intro keeps_intros plane) (simp_all add: return_action_def)
  then have after: "keeps P (read_after_header os header)" for header
    unfolding read_after_header_def by (intro keeps_intros) (simp_all add: throw_action_def)
  let ?restart = "bind_process (on_fd (total (fd_reset_offset os))) (\<lambda>_.
      bind_process (on_fd (fd_getline os)) (\<lambda>_. bind_process (on_fd (fd_getline os)) (read_after_header os)))"
  let ?body = "bind_process (on_fd (fd_getline os)) (\<lambda>header s.
      if fd_eof (y4m_fd (fst s)) \<and> header = []
      then (if y4m_loop (fst s) then ?restart s else Some (Inr False, s)) else read_after_header os header s)"
  have "keeps P ?body" by (intro keeps_intros after line reset)
  moreover have "read_frame os s = (if raw_display_width (fst (snd s)) \<noteq> y4m_width (fst s) \<or>
      raw_display_height (fst (snd s)) \<noteq> y4m_height (fst s)
    then Some (Inl (Runtime_Error ''YUV4MPEG: image dimensions don't match''), s) else ?body s)" for s
    by (simp add: read_frame_def case_prod_unfold cong: if_cong)
  ultimately have frame: "keeps P (read_frame os)" by (auto simp: keeps_def)
  show ?thesis
  proof (induction n)
    case 0
    show ?case by (simp add: keeps_intros return_action_def)
  next
    case (Suc n)
    then show ?case
      by (simp del: if_split) (intro keeps_intros frame, simp_all add: throw_action_def)
  qed
qed

lemma quiet_fetch:
  assumes "quiet_os os g" and "fetch_frames os n (v, img, w) = Some (r, v', img', w')"
  shows "g w' = g w"
proof -
  let ?P = "\<lambda>(v, img, x). g x = g w"
  have on_fd: "keeps ?P (on_fd m)" if "\<And>f x r f' x'. m (f, x) = Some (r, f', x') \<Longrightarrow> g x' = g x"
    for m :: "(file_descriptor \<times> 'a, 'd) process"
    using that by (auto simp: keeps_def on_fd_def)
  have "keeps ?P (fetch_frames os n)"
  proof (rule keeps_fetch)
    show "keeps ?P (on_fd (total (fd_readn os m False)))" for m
      by (rule on_fd) (metis total_def option.inject quiet_readn [OF assms(1)] snd_conv)
    show "keeps ?P (on_fd (fd_getline os))" by (rule on_fd) (rule quiet_getline [OF assms(1)])
    show "keeps ?P (on_fd (total (fd_reset_offset os)))"
      by (rule on_fd) (metis total_def option.inject quiet_seek [OF assms(1)] snd_conv)
  qed simp
  from keepsD [OF this assms(2)] show ?thesis by simp
qed

lemma blit_again: "length xs = length ys \<Longrightarrow> length xs \<le> length buf \<Longrightarrow> blit (blit buf 0 xs) 0 ys = blit buf 0 ys"
  by (simp add: blit_def)

lemma filled_again:
  "image_ready width height img \<Longrightarrow> frame_fits width height fr \<Longrightarrow> frame_fits width height fr' \<Longrightarrow>
   filled fr' (filled fr img) = filled fr' img"
  by (simp add: image_ready_def frame_fits_def filled_def blit_again)

text \<open>The file is between two frames: \<open>i\<close> of them lie before the offset.\<close>

definition at_frame :: "('w \<Rightarrow> bytes) \<Rightarrow> y4m_frame list \<Rightarrow> nat \<Rightarrow> 'w \<Rightarrow> bool" where
  "at_frame rest frames i w = (i \<le> length frames \<and> rest w = concat (map frame_bytes_y4m (drop i frames)))"

definition y4m_file :: "bytes \<Rightarrow> y4m_frame list \<Rightarrow> bytes" where
  "y4m_file header frames = header @ 10 # concat (map frame_bytes_y4m frames)"

lemma read_frame_cyclic:
  assumes "regular_file os (fd_num (y4m_fd v)) rest" and "\<not> fd_eof (y4m_fd v)" and "y4m_loop v"
    and "rewindable os (fd_num (y4m_fd v)) rest (y4m_file header frames)" and "10 \<notin> set header"
    and "frames \<noteq> []" and "\<forall>fr \<in> set frames. frame_fits (y4m_width v) (y4m_height v) fr"
    and "image_ready (y4m_width v) (y4m_height v) img" and "at_frame rest frames i w"
  shows "\<exists>w'. read_frame os (v, img, w) = Some (Inr True, v, filled (frames ! (i mod length frames)) img, w') \<and>
    at_frame rest frames (Suc (i mod length frames)) w'"
proof (cases "i < length frames")
  case True
  then have "rest w = frame_bytes_y4m (frames ! i) @ concat (map frame_bytes_y4m (drop (Suc i) frames))"
    using assms(9) by (simp add: at_frame_def Cons_nth_drop_Suc [symmetric])
  from read_frame_next [OF assms(1,2) this] show ?thesis
    using True assms(7,8) by (simp add: at_frame_def)
next
  case False
  then have i: "i mod length frames = 0" and "rest w = []"
    using assms(9) by (auto simp: at_frame_def)
  obtain fr frs where frs: "frames = fr # frs" using assms(6) by (cases frames) auto
  have "rewindable os (fd_num (y4m_fd v)) rest (header @ 10 # frame_bytes_y4m fr @ concat (map frame_bytes_y4m frs))"
    using assms(4) by (simp add: y4m_file_def frs)
  from read_frame_restart [OF assms(1,2) \<open>rest w = []\<close> this assms(5,3)] show ?thesis
    using assms(7,8) unfolding i by (simp add: frs at_frame_def)
qed

lemma fetch_frames_cyclic:
  assumes "regular_file os (fd_num (y4m_fd v)) rest" and "\<not> fd_eof (y4m_fd v)" and "y4m_loop v"
    and "rewindable os (fd_num (y4m_fd v)) rest (y4m_file header frames)" and "10 \<notin> set header"
    and "frames \<noteq> []" and "\<forall>fr \<in> set frames. frame_fits (y4m_width v) (y4m_height v) fr"
    and "image_ready (y4m_width v) (y4m_height v) img" and "at_frame rest frames i w"
  shows "\<exists>w' j. fetch_frames os n (v, img, w) = Some (Inr (), v,
      if n = 0 then img else filled (frames ! ((i + n - 1) mod length frames)) img, w') \<and>
    at_frame rest frames j w' \<and> j mod length frames = (i + n) mod length frames"
  using assms(8,9)
proof (induction n arbitrary: i img w)
  case 0
  then show ?case by (auto simp: total_def return_action_def)
next
  case (Suc n)
  let ?N = "length frames" let ?fr = "frames ! (i mod ?N)"
  obtain w1 where w1: "read_frame os (v, img, w) = Some (Inr True, v, filled ?fr img, w1)"
    "at_frame rest frames (Suc (i mod ?N)) w1"
    using read_frame_cyclic [OF assms(1-7) Suc.prems] by blast
  have fits: "frame_fits (y4m_width v) (y4m_height v) (frames ! (k mod ?N))" for k
    using assms(6,7) by simp
  have ready: "image_ready (y4m_width v) (y4m_height v) (filled ?fr img)"
    by (rule image_ready_filled [OF Suc.prems(1) fits])
  obtain w' j where w': "fetch_frames os n (v, filled ?fr img, w1) = Some (Inr (), v,
      if n = 0 then filled ?fr img
      else filled (frames ! ((Suc (i mod ?N) + n - 1) mod ?N)) (filled ?fr img), w')"
    "at_frame rest frames j w'" "j mod ?N = (Suc (i mod ?N) + n) mod ?N"
    using Suc.IH [OF ready w1(2)] by blast
  have "(Suc (i mod ?N) + n - 1) mod ?N = (i + n) mod ?N" "(Suc (i mod ?N) + n) mod ?N = (i + Suc n) mod ?N"
    by (simp_all add: mod_simps flip: add_Suc_right)
  moreover have "(Suc (i mod ?N) + n) mod ?N = (i + Suc n) mod ?N" by (metis add_Suc add_Suc_right mod_add_left_eq)
  moreover have "filled (frames ! (k mod ?N)) (filled ?fr img) = filled (frames ! (k mod ?N)) img" for k
    by (rule filled_again [OF Suc.prems(1) fits fits])
  ultimately show ?case
    using w' w1(1) by (cases "n = 0") (auto simp: bind_process_def)
qed

section \<open>Properties\<close>

text \<open>
  C26: reading from a well-formed file in loop mode never ends and never fails: from any position between
  two of its \<open>N\<close> frames, \<open>n\<close> reads leave in the image the planes of frame \<open>i + n - 1\<close> modulo \<open>N\<close>, that is, the
  frames come in order and the first follows the last, with the file again between two frames.
\<close>

theorem y4m_loops_over_file:
  assumes "regular_file os (fd_num (y4m_fd v)) rest" and "\<not> fd_eof (y4m_fd v)" and "y4m_loop v"
    and "rewindable os (fd_num (y4m_fd v)) rest (y4m_file header frames)" and "10 \<notin> set header"
    and "frames \<noteq> []" and "\<forall>fr \<in> set frames. frame_fits (y4m_width v) (y4m_height v) fr"
    and "image_ready (y4m_width v) (y4m_height v) img" and "at_frame rest frames i w" and "0 < n"
  shows "\<exists>w' j. fetch_frames os n (v, img, w) =
      Some (Inr (), v, filled (frames ! ((i + n - 1) mod length frames)) img, w') \<and>
    at_frame rest frames j w' \<and> j mod length frames = (i + n) mod length frames"
  using fetch_frames_cyclic [OF assms(1-9), of n] assms(10) by simp

text \<open>A seekable file: the world is what follows the offset, and what was written to other files.\<close>

definition file_os :: "bytes \<Rightarrow> nat \<Rightarrow> (bytes \<times> bytes) os" where
  "file_os content chunk =
     (stream_os chunk)\<lparr>sys_lseek := (\<lambda>_ offset whence (inp, outp). (offset, drop (nat offset) content, outp))\<rparr>"

lemma file_os_regular: "0 < chunk \<Longrightarrow> chunk < 2 ^ 31 \<Longrightarrow> regular_file (file_os content chunk) fd fst"
  by (auto simp: regular_file_def file_os_def stream_os_def split: prod.splits)

lemma file_os_rewindable: "rewindable (file_os content chunk) fd fst content"
  by (simp add: rewindable_def file_os_def)

definition tiny_frame :: "u8 \<Rightarrow> y4m_frame" where
  "tiny_frame c = \<lparr>fr_params = [], fr_y = [c, c, c, c], fr_u = [c], fr_v = [c]\<rparr>"

definition tiny_image :: raw_image where
  "tiny_image = \<lparr>raw_vpx_img = \<lparr>vpx_fmt = VPX_IMG_FMT_I420, vpx_d_w = 2, vpx_d_h = 2, vpx_plane_y = [0, 0, 0, 0],
     vpx_plane_u = [0], vpx_plane_v = [0]\<rparr>, raw_own_vpx_img = True, raw_display_width = 2,
     raw_display_height = 2\<rparr>"

definition tiny_video :: yuv4mpeg where
  "tiny_video = \<lparr>y4m_fd = \<lparr>fd_num = 3, fd_eof = False\<rparr>, y4m_width = 2, y4m_height = 2, y4m_loop = True\<rparr>"

definition tiny_file :: bytes where
  "tiny_file = y4m_file (ascii ''YUV4MPEG2 W2 H2'') [tiny_frame 1, tiny_frame 2]"

text \<open>Two frames, three reads: the first frame again.\<close>

theorem y4m_loops_over_file_witness:
  "\<exists>w'. fetch_frames (file_os tiny_file 4) 3
      (tiny_video, tiny_image, concat (map frame_bytes_y4m [tiny_frame 1, tiny_frame 2]), []) =
    Some (Inr (), tiny_video, filled (tiny_frame 1) tiny_image, w')"
proof -
  let ?frames = "[tiny_frame 1, tiny_frame 2]"
  let ?w = "(concat (map frame_bytes_y4m ?frames), [] :: bytes)"
  have reg: "regular_file (file_os tiny_file 4) (fd_num (y4m_fd tiny_video)) fst"
    by (rule file_os_regular) simp_all
  have vid: "\<not> fd_eof (y4m_fd tiny_video)" "y4m_loop tiny_video" by (simp_all add: tiny_video_def)
  have rew: "rewindable (file_os tiny_file 4) (fd_num (y4m_fd tiny_video)) fst
      (y4m_file (ascii ''YUV4MPEG2 W2 H2'') ?frames)"
    using file_os_rewindable [of tiny_file 4] by (simp add: tiny_file_def)
  have hdr: "10 \<notin> set (ascii ''YUV4MPEG2 W2 H2'')" by (simp add: ascii_def)
  have fits: "\<forall>fr \<in> set ?frames. frame_fits (y4m_width tiny_video) (y4m_height tiny_video) fr"
    by (simp add: frame_fits_def tiny_frame_def tiny_video_def)
  have img: "image_ready (y4m_width tiny_video) (y4m_height tiny_video) tiny_image"
    by (simp add: image_ready_def tiny_image_def tiny_video_def)
  have pos: "at_frame fst ?frames 0 ?w" by (simp add: at_frame_def)
  have "(2 :: nat) mod Suc (Suc 0) = 0" by (simp add: numeral_2_eq_2)
  with y4m_loops_over_file [OF reg vid rew hdr _ fits img pos, of 3] show ?thesis by auto
qed

lemma check_tokens_iff:
  "check_tokens width height ts = Inr () \<longleftrightarrow> (\<forall>t \<in> set ts. check_token width height t = Inr ())"
  by (induction ts) (auto simp: bind_result_def split: sum.splits)

text \<open>What a token of the header must be to be accepted.\<close>

definition token_accepted :: "u16 \<Rightarrow> u16 \<Rightarrow> bytes \<Rightarrow> bool" where
  "token_accepted width height t =
     ((\<forall>r. t = ascii ''W'' @ r \<longrightarrow> strict_stoi r 10 = Inr (uint width)) \<and>
      (\<forall>r. t = ascii ''H'' @ r \<longrightarrow> strict_stoi r 10 = Inr (uint height)) \<and>
      (\<forall>r. t = ascii ''C'' @ r \<longrightarrow> take 4 t = ascii ''C420''))"

lemma check_token_iff: "check_token width height t = Inr () \<longleftrightarrow> token_accepted width height t"
proof (cases t)
  case Nil
  then show ?thesis by (simp add: token_accepted_def ascii_def)
next
  case (Cons c r)
  have "bind_result (strict_stoi r 10) (\<lambda>v. if v \<noteq> n then Inl e else Inr ()) = Inr () \<longleftrightarrow>
      strict_stoi r 10 = Inr n" for n e
    by (cases "strict_stoi r 10") auto
  then show ?thesis by (auto simp: Cons token_accepted_def ascii_def)
qed

text \<open>What the constructor does after a header line it could read.\<close>

lemma y4m_open_after_header:
  assumes "open_file os path [''O_RDONLY''] w = (Inr f, w1)" and "0 \<le> fd_num f"
    and "y4m_header os width height (f, w1) = Some (r, f', w2)" and "fd_num f' = fd_num f"
  shows "y4m_open os path width height loop w =
    (case r of
       Inl e \<Rightarrow> Some (Inl e, snd (sys_close os (fd_num f) w2))
     | Inr _ \<Rightarrow> Some (Inr \<lparr>y4m_fd = f', y4m_width = width, y4m_height = height, y4m_loop = loop\<rparr>, w2))"
  using assms by (cases r) (simp_all add: y4m_open_def fd_destroy_def)

lemma fd_getline_line:
  assumes "regular_file os (fd_num f) rest" and "\<not> fd_eof f"
  obtains w' where "fd_getline os (f, w) =
      Some (Inr (takeWhile (\<lambda>c. c \<noteq> 10) (rest w)), f\<lparr>fd_eof := 10 \<notin> set (rest w)\<rparr>, w')"
    and "rest w' = drop 1 (dropWhile (\<lambda>c. c \<noteq> 10) (rest w))"
proof -
  obtain line f' w' where line: "fd_getline os (f, w) = Some (Inr line, f', w')" "10 \<notin> set line"
    "if 10 \<in> set (rest w) then rest w = line @ 10 # rest w' \<and> f' = f
     else rest w = line \<and> rest w' = [] \<and> f' = f\<lparr>fd_eof := True\<rparr>"
    using fd_getline_regular [OF assms, of w] by (elim exE conjE)
  have plain: "\<And>c. c \<in> set line \<Longrightarrow> c \<noteq> 10" using line(2) by blast
  show ?thesis
  proof (cases "10 \<in> set (rest w)")
    case True
    then have "rest w = line @ 10 # rest w'" "f' = f" using line(3) by simp_all
    then show ?thesis
      using that line(1) True assms(2) plain by (simp add: takeWhile_append2 dropWhile_append2)
  next
    case False
    then have "rest w = line" "rest w' = []" "f' = f\<lparr>fd_eof := True\<rparr>" using line(3) by simp_all
    moreover have "takeWhile (\<lambda>c. c \<noteq> 10) line = line" "dropWhile (\<lambda>c. c \<noteq> 10) line = []"
      using plain by (simp_all add: takeWhile_eq_all_conv)
    ultimately show ?thesis by (intro that [of w']) (simp_all only: line(1) line(2) not_False_eq_True drop_Nil)
  qed
qed

text \<open>
  C34: opening a file checks the signature and the tokens of the header line, whatever the file holds: one that is
  shorter than the signature or begins otherwise makes the constructor throw; so does a header line, up to the
  first newline or the end of the file, with a token of a width or a height that is not the display's, or of a
  colour space that does not start with \<open>C420\<close>. All other files are accepted, also those without such tokens, and the
  file is then positioned after the header line, at its first frame. When the constructor throws, the file is closed.
\<close>

theorem y4m_open_checks:
  assumes "open_file os path [''O_RDONLY''] w = (Inr f, w1)" and "regular_file os (fd_num f) rest"
    and "\<not> fd_eof f" and "0 \<le> fd_num f"
  shows "\<exists>tokens w2. split_string (takeWhile (\<lambda>c. c \<noteq> 10) (drop 9 (rest w1))) (ascii '' '') = Inr tokens \<and>
    (if length (rest w1) < 9 then
       y4m_open os path width height loop w = Some (Inl (Runtime_Error ''FileDescriptor::readn(): unexpected EOF''),
         snd (sys_close os (fd_num f) w2))
     else if take 9 (rest w1) \<noteq> ascii ''YUV4MPEG2'' then
       y4m_open os path width height loop w = Some (Inl (Runtime_Error ''invalid YUV4MPEG2 file signature''),
         snd (sys_close os (fd_num f) w2))
     else if \<forall>t \<in> set tokens. token_accepted width height t then
       y4m_open os path width height loop w =
         Some (Inr \<lparr>y4m_fd = f\<lparr>fd_eof := 10 \<notin> set (drop 9 (rest w1))\<rparr>, y4m_width = width, y4m_height = height,
           y4m_loop = loop\<rparr>, w2) \<and>
       rest w2 = drop 1 (dropWhile (\<lambda>c. c \<noteq> 10) (drop 9 (rest w1)))
     else \<exists>e. y4m_open os path width height loop w = Some (Inl e, snd (sys_close os (fd_num f) w2)))"
proof -
  let ?line = "takeWhile (\<lambda>c. c \<noteq> 10) (drop 9 (rest w1))"
  obtain tokens where tokens: "split_string ?line (ascii '' '') = Inr tokens"
    by (simp add: split_string_def ascii_def)
  have nine: "length (ascii ''YUV4MPEG2'') = 9" by (simp add: ascii_def)
  note finish = y4m_open_after_header [OF assms(1,4)]
  show ?thesis
  proof (cases "length (rest w1) < 9")
    case True
    then obtain w' where "fd_readn os 9 False (f, w1) =
        (Inl (Runtime_Error ''FileDescriptor::readn(): unexpected EOF''), f\<lparr>fd_eof := True\<rparr>, w')"
      using readn_loop_regular [OF assms(2), of 9 w1 False "[]"] by (auto simp: fd_readn_def)
    then have "y4m_header os width height (f, w1) =
        Some (Inl (Runtime_Error ''FileDescriptor::readn(): unexpected EOF''), f\<lparr>fd_eof := True\<rparr>, w')"
      by (simp add: y4m_header_def bind_process_def total_def nine)
    from finish [OF this] tokens True show ?thesis by auto
  next
    case False
    then obtain w' where sig: "fd_readn os 9 False (f, w1) = (Inr (take 9 (rest w1)), f, w')" "rest w' = drop 9 (rest w1)"
      using readn_loop_regular [OF assms(2), of 9 w1 False "[]"] by (auto simp: fd_readn_def)
    show ?thesis
    proof (cases "take 9 (rest w1) = ascii ''YUV4MPEG2''")
      case False
      then have "y4m_header os width height (f, w1) =
          Some (Inl (Runtime_Error ''invalid YUV4MPEG2 file signature''), f, w')"
        using sig(1) by (simp add: y4m_header_def bind_process_def total_def throw_action_def nine)
      from finish [OF this] tokens False \<open>\<not> length (rest w1) < 9\<close> show ?thesis by auto
    next
      case True
      let ?f = "f\<lparr>fd_eof := 10 \<notin> set (drop 9 (rest w1))\<rparr>"
      obtain w2 where line: "fd_getline os (f, w') = Some (Inr ?line, ?f, w2)"
        "rest w2 = drop 1 (dropWhile (\<lambda>c. c \<noteq> 10) (drop 9 (rest w1)))"
        using fd_getline_line [OF assms(2,3), of w'] unfolding sig(2) .
      have "y4m_header os width height (f, w1) = Some (check_tokens width height tokens, ?f, w2)"
        using sig(1) line(1) tokens True by (simp add: y4m_header_def bind_process_def total_def nine)
      from finish [OF this] have opened: "y4m_open os path width height loop w =
          (case check_tokens width height tokens of
             Inl e \<Rightarrow> Some (Inl e, snd (sys_close os (fd_num f) w2))
           | Inr _ \<Rightarrow> Some (Inr \<lparr>y4m_fd = ?f, y4m_width = width, y4m_height = height, y4m_loop = loop\<rparr>, w2))"
        by simp
      have "check_tokens width height tokens = Inr () \<longleftrightarrow> (\<forall>t \<in> set tokens. token_accepted width height t)"
        by (simp add: check_tokens_iff check_token_iff)
      with opened tokens True line(2) \<open>\<not> length (rest w1) < 9\<close> show ?thesis
        by (intro exI [of _ tokens] exI [of _ w2]) (cases "check_tokens width height tokens"; auto)
    qed
  qed
qed

text \<open>
  A file with a header of high bit depth, whose planes have two bytes for each sample, is accepted; a file of another
  format is not.
\<close>

theorem y4m_open_checks_witness:
  "(\<exists>w2. y4m_open (stream_os 4) (ascii ''v.y4m'') 704 576 True (ascii ''YUV4MPEG2'' @ ascii ''C420p10'' @ [10, 7], []) =
      Some (Inr \<lparr>y4m_fd = \<lparr>fd_num = 3, fd_eof = False\<rparr>, y4m_width = 704, y4m_height = 576, y4m_loop = True\<rparr>, w2) \<and>
    fst w2 = [7]) \<and>
   (\<exists>w2. y4m_open (stream_os 4) (ascii ''v.y4m'') 704 576 True (ascii ''RIFF1234AVI LIST'', []) =
      Some (Inl (Runtime_Error ''invalid YUV4MPEG2 file signature''), w2))"
proof -
  have opened: "open_file (stream_os 4) (ascii ''v.y4m'') [''O_RDONLY''] w = (Inr \<lparr>fd_num = 3, fd_eof = False\<rparr>, w)" for w
    by (simp add: open_file_def fd_open_def stream_os_def check_syscall_int)
  have reg: "regular_file (stream_os 4) (fd_num \<lparr>fd_num = 3, fd_eof = False\<rparr>) fst"
    by (rule stream_regular) simp_all
  have one: "split_string (ascii ''C420p10'') (ascii '' '') = Inr [ascii ''C420p10'']"
    by (simp add: split_string_def split_loop.simps str_find_def starts_with_def ascii_def)
  have "token_accepted 704 576 (ascii ''C420p10'')" by (simp add: token_accepted_def ascii_def)
  with one y4m_open_checks [OF opened reg, of "(ascii ''YUV4MPEG2'' @ ascii ''C420p10'' @ [10, 7], [])" 704 576 True]
  have "\<exists>w2. y4m_open (stream_os 4) (ascii ''v.y4m'') 704 576 True (ascii ''YUV4MPEG2'' @ ascii ''C420p10'' @ [10, 7], []) =
      Some (Inr \<lparr>y4m_fd = \<lparr>fd_num = 3, fd_eof = False\<rparr>, y4m_width = 704, y4m_height = 576, y4m_loop = True\<rparr>, w2) \<and>
    fst w2 = [7]"
    by (auto simp: ascii_def)
  moreover have "\<exists>w2. y4m_open (stream_os 4) (ascii ''v.y4m'') 704 576 True (ascii ''RIFF1234AVI LIST'', []) =
      Some (Inl (Runtime_Error ''invalid YUV4MPEG2 file signature''), w2)"
    using y4m_open_checks [OF opened reg, of "(ascii ''RIFF1234AVI LIST'', [])" 704 576 True] by (auto simp: ascii_def)
  ultimately show ?thesis by blast
qed

end
