(* ===== verification/Sockets.thy ===== *)
theory Sockets
  imports File_Descriptor Conversion
begin

text \<open>
  The model of \<open>src/util/address.hh\<close>, \<open>address.cc\<close>, \<open>socket.hh\<close>, \<open>socket.cc\<close>, \<open>udp_socket.hh\<close> and
  \<open>udp_socket.cc\<close>: network addresses and UDP sockets. The socket calls of the kernel and the resolver
  are parameters, like the system calls of the file descriptors.
\<close>

section \<open>Addresses\<close>

text \<open>\<open>addr_\<close> is a \<open>sockaddr\<close> of 16 bytes, of which \<open>size_\<close> are used.\<close>

record address =
  addr_bytes :: bytes
  addr_size :: nat

definition SOCKADDR_SIZE :: nat where
  "SOCKADDR_SIZE = 16"

text \<open>
  The resolver returns a code and the socket address of its first result; one that does not fit would
  be copied past the end of the member.
\<close>

definition address_resolve :: "(bytes \<Rightarrow> bytes \<Rightarrow> int \<times> bytes) \<Rightarrow> bytes \<Rightarrow> u16 \<Rightarrow> address result" where
  "address_resolve getaddrinfo ip port =
     (let (ret_code, ai_addr) = getaddrinfo ip (to_string (unat port))
      in if ret_code \<noteq> 0 then Inl (Runtime_Error ''gai_strerror'')
         else if length ai_addr > SOCKADDR_SIZE then Inl (Undefined_Behaviour ''memcpy past the end of addr_'')
         else Inr \<lparr>addr_bytes = blit (replicate SOCKADDR_SIZE 0) 0 ai_addr, addr_size = length ai_addr\<rparr>)"

definition address_copy :: "bytes \<Rightarrow> nat \<Rightarrow> address result" where
  "address_copy addr sz =
     (if sz > SOCKADDR_SIZE then Inl (Runtime_Error ''invalid sockaddr size'')
      else Inr \<lparr>addr_bytes = blit (replicate SOCKADDR_SIZE 0) 0 (take sz addr), addr_size = sz\<rparr>)"

definition address_eq :: "address \<Rightarrow> address \<Rightarrow> bool" where
  "address_eq a b =
     (addr_size a = addr_size b \<and> take (addr_size a) (addr_bytes a) = take (addr_size a) (addr_bytes b))"

text \<open>\<open>getnameinfo\<close> returns a code, the host and the service as numeric strings.\<close>

definition address_ip_port :: "(address \<Rightarrow> int \<times> bytes \<times> bytes) \<Rightarrow> address \<Rightarrow> (bytes \<times> u16) result" where
  "address_ip_port getnameinfo a =
     (let (ret_code, ip, port) = getnameinfo a
      in if ret_code \<noteq> 0 then Inl (Runtime_Error ''gai_strerror'')
         else bind_result (std_stoi int_t ''stoi'' port 10) (\<lambda>(v, idx). Inr (ip, word_of_int v)))"

definition address_str :: "(address \<Rightarrow> int \<times> bytes \<times> bytes) \<Rightarrow> address \<Rightarrow> bytes result" where
  "address_str getnameinfo a =
     bind_result (address_ip_port getnameinfo a) (\<lambda>(ip, port).
       Inr (ip @ ascii '':'' @ to_string (unat port)))"

section \<open>Sockets\<close>

record 'w net =
  net_socket :: "string \<Rightarrow> string \<Rightarrow> 'w \<Rightarrow> int \<times> 'w"
  net_getsockopt :: "int \<Rightarrow> string \<Rightarrow> 'w \<Rightarrow> (int \<times> nat \<times> string) \<times> 'w"
  net_setsockopt :: "int \<Rightarrow> string \<Rightarrow> int \<Rightarrow> 'w \<Rightarrow> int \<times> 'w"
  net_bind :: "int \<Rightarrow> address \<Rightarrow> 'w \<Rightarrow> int \<times> 'w"
  net_connect :: "int \<Rightarrow> address \<Rightarrow> 'w \<Rightarrow> int \<times> 'w"
  net_listen :: "int \<Rightarrow> int \<Rightarrow> 'w \<Rightarrow> int \<times> 'w"
  net_accept :: "int \<Rightarrow> 'w \<Rightarrow> int \<times> 'w"
  net_getsockname :: "int \<Rightarrow> 'w \<Rightarrow> (int \<times> bytes \<times> nat) \<times> 'w"
  net_getpeername :: "int \<Rightarrow> 'w \<Rightarrow> (int \<times> bytes \<times> nat) \<times> 'w"
  net_send :: "int \<Rightarrow> bytes \<Rightarrow> 'w \<Rightarrow> int \<times> 'w"
  net_sendto :: "int \<Rightarrow> address \<Rightarrow> bytes \<Rightarrow> 'w \<Rightarrow> int \<times> 'w"
  net_recv :: "int \<Rightarrow> nat \<Rightarrow> 'w \<Rightarrow> (int \<times> bytes) \<times> 'w"
  net_recvfrom :: "int \<Rightarrow> nat \<Rightarrow> 'w \<Rightarrow> (int \<times> bytes \<times> bytes \<times> nat) \<times> 'w"
  net_errno :: "'w \<Rightarrow> int"

definition socket_open :: "'w net \<Rightarrow> 'w os \<Rightarrow> string \<Rightarrow> string \<Rightarrow> 'w \<Rightarrow> file_descriptor result \<times> 'w" where
  "socket_open net os domain type w =
     (let (r, w') = net_socket net domain type w
      in case check_syscall r of Inl e \<Rightarrow> (Inl e, w') | Inr fd \<Rightarrow> fd_open os fd w')"

text \<open>The options that are read and written are of type \<open>int\<close>, of four bytes; constants are named.\<close>

definition socket_getsockopt :: "'w net \<Rightarrow> file_descriptor \<Rightarrow> string \<Rightarrow> ('w, nat \<times> string) action" where
  "socket_getsockopt net f option_name w =
     (let ((r, option_len, option_value), w') = net_getsockopt net (fd_num f) option_name w
      in (bind_result (check_syscall r) (\<lambda>_. Inr (option_len, option_value)), w'))"

definition socket_setsockopt :: "'w net \<Rightarrow> file_descriptor \<Rightarrow> string \<Rightarrow> int \<Rightarrow> ('w, unit) action" where
  "socket_setsockopt net f option_name option_value w =
     (let (r, w') = net_setsockopt net (fd_num f) option_name option_value w
      in (bind_result (check_syscall r) (\<lambda>_. Inr ()), w'))"

text \<open>The constructor from a descriptor verifies its domain and its type.\<close>

definition check_sockopt :: "'w net \<Rightarrow> file_descriptor \<Rightarrow> string \<Rightarrow> string \<Rightarrow> string \<Rightarrow> ('w, unit) action" where
  "check_sockopt net f option_name expected msg =
     bind_action (socket_getsockopt net f option_name) (\<lambda>(len, actual_value).
       if len \<noteq> 4 \<or> actual_value \<noteq> expected then throw_action (Runtime_Error msg) else return_action ())"

text \<open>An exception in its body destroys the base class, which closes the descriptor.\<close>

definition socket_adopt :: "'w net \<Rightarrow> 'w os \<Rightarrow> file_descriptor \<Rightarrow> string \<Rightarrow> string \<Rightarrow> ('w, file_descriptor) action" where
  "socket_adopt net os fd domain type w =
     (let (f, fd') = fd_move fd in
      case bind_action (check_sockopt net f ''SO_DOMAIN'' domain ''socket domain mismatch'') (\<lambda>_.
             check_sockopt net f ''SO_TYPE'' type ''socket type mismatch'') w of
        (Inl e, w') \<Rightarrow> (Inl e, fd_destroy os f w')
      | (Inr _, w') \<Rightarrow> (Inr f, w'))"

definition socket_bind :: "'w net \<Rightarrow> file_descriptor \<Rightarrow> address \<Rightarrow> ('w, unit) action" where
  "socket_bind net f local_addr w =
     (let (r, w') = net_bind net (fd_num f) local_addr w in (bind_result (check_syscall r) (\<lambda>_. Inr ()), w'))"

definition socket_connect :: "'w net \<Rightarrow> file_descriptor \<Rightarrow> address \<Rightarrow> ('w, unit) action" where
  "socket_connect net f peer_addr w =
     (let (r, w') = net_connect net (fd_num f) peer_addr w in (bind_result (check_syscall r) (\<lambda>_. Inr ()), w'))"

definition local_address :: "'w net \<Rightarrow> file_descriptor \<Rightarrow> ('w, address) action" where
  "local_address net f w =
     (let ((r, addr, sz), w') = net_getsockname net (fd_num f) w
      in (bind_result (check_syscall r) (\<lambda>_. address_copy addr sz), w'))"

definition peer_address :: "'w net \<Rightarrow> file_descriptor \<Rightarrow> ('w, address) action" where
  "peer_address net f w =
     (let ((r, addr, sz), w') = net_getpeername net (fd_num f) w
      in (bind_result (check_syscall r) (\<lambda>_. address_copy addr sz), w'))"

definition set_reuseaddr :: "'w net \<Rightarrow> file_descriptor \<Rightarrow> ('w, unit) action" where
  "set_reuseaddr net f = socket_setsockopt net f ''SO_REUSEADDR'' 1"

section \<open>UDP\<close>

definition UDP_MTU :: nat where
  "UDP_MTU = 65536"

definition check_bytes_sent :: "int \<Rightarrow> nat \<Rightarrow> int \<Rightarrow> bool result" where
  "check_bytes_sent bytes_sent target errno =
     (if bytes_sent \<le> 0 then
        (if bytes_sent = -1 \<and> errno = EWOULDBLOCK then Inr False
         else Inl (Unix_Error ''UDPSocket:send()/sendto()''))
      else if nat bytes_sent \<noteq> target
      then Inl (Runtime_Error ''UDPSocket failed to deliver target number of bytes'')
      else Inr True)"

definition udp_send :: "'w net \<Rightarrow> file_descriptor \<Rightarrow> bytes \<Rightarrow> ('w, bool) action" where
  "udp_send net f data w =
     (if data = [] then (Inl (Runtime_Error ''attempted to send empty data''), w)
      else let (bytes_sent, w') = net_send net (fd_num f) data w
           in (check_bytes_sent bytes_sent (length data) (net_errno net w'), w'))"

definition udp_sendto :: "'w net \<Rightarrow> file_descriptor \<Rightarrow> address \<Rightarrow> bytes \<Rightarrow> ('w, bool) action" where
  "udp_sendto net f dst_addr data w =
     (if data = [] then (Inl (Runtime_Error ''attempted to send empty data''), w)
      else let (bytes_sent, w') = net_sendto net (fd_num f) dst_addr data w
           in (check_bytes_sent bytes_sent (length data) (net_errno net w'), w'))"

definition check_bytes_received :: "int \<Rightarrow> int \<Rightarrow> bool result" where
  "check_bytes_received bytes_received errno =
     (if bytes_received < 0 then
        (if bytes_received = -1 \<and> errno = EWOULDBLOCK then Inr False
         else Inl (Unix_Error ''UDPSocket:recv()/recvfrom()''))
      else if nat bytes_received > UDP_MTU
      then Inl (Runtime_Error ''UDPSocket::recv()/recvfrom(): datagram truncated'')
      else Inr True)"

text \<open>The string made of the first bytes of the buffer, whose rest is the zeros it was created with.\<close>

definition received_string :: "bytes \<Rightarrow> int \<Rightarrow> bytes" where
  "received_string stored bytes_received = take (nat bytes_received) (blit (replicate UDP_MTU 0) 0 stored)"

definition udp_recv :: "'w net \<Rightarrow> file_descriptor \<Rightarrow> ('w, bytes option) action" where
  "udp_recv net f w =
     (let ((bytes_received, stored), w') = net_recv net (fd_num f) UDP_MTU w
      in (bind_result (check_bytes_received bytes_received (net_errno net w')) (\<lambda>ok.
            Inr (if ok then Some (received_string stored bytes_received) else None)), w'))"

definition udp_recvfrom :: "'w net \<Rightarrow> file_descriptor \<Rightarrow> ('w, address \<times> bytes option) action" where
  "udp_recvfrom net f w =
     (let ((bytes_received, stored, src_addr, src_addr_len), w') = net_recvfrom net (fd_num f) UDP_MTU w
      in (bind_result (check_bytes_received bytes_received (net_errno net w')) (\<lambda>ok.
          bind_result (address_copy src_addr src_addr_len) (\<lambda>a.
            Inr (a, if ok then Some (received_string stored bytes_received) else None))), w'))"

section \<open>Properties\<close>

text \<open>
  The contract of \<open>recv\<close> with \<open>MSG_TRUNC\<close> for a pending datagram: its real length, and as many of its
  bytes as fit the buffer.
\<close>

definition pending_datagram :: "'w net \<Rightarrow> int \<Rightarrow> bytes \<Rightarrow> 'w \<Rightarrow> 'w \<Rightarrow> bool" where
  "pending_datagram net fd data w w' =
     (net_recv net fd UDP_MTU w = ((int (length data), take UDP_MTU data), w'))"

lemma udp_recv_pending:
  assumes "pending_datagram net (fd_num f) data w w'"
  shows "udp_recv net f w =
    (if length data \<le> 65536 then Inr (Some data)
     else Inl (Runtime_Error ''UDPSocket::recv()/recvfrom(): datagram truncated''), w')"
proof -
  have "net_recv net (fd_num f) UDP_MTU w = ((int (length data), take UDP_MTU data), w')"
    using assms by (simp add: pending_datagram_def)
  moreover have "received_string (take UDP_MTU data) (int (length data)) = data"
    if "length data \<le> 65536"
    using that by (simp add: received_string_def blit_def UDP_MTU_def)
  ultimately show ?thesis
    by (simp add: udp_recv_def check_bytes_received_def UDP_MTU_def)
qed

text \<open>
  A pending datagram, an empty one included, is returned whole when it has at most 65,536 bytes,
  and a longer one is an exception, never a silently truncated string.
\<close>

lemma udp_recv_whole:
  assumes "pending_datagram net (fd_num f) data w w'"
  shows "udp_recv net f w =
    (if length data \<le> 65536 then Inr (Some data)
     else Inl (Runtime_Error ''UDPSocket::recv()/recvfrom(): datagram truncated''), w')"
  using assms by (rule udp_recv_pending)

text \<open>A network that delivers the datagrams of a list, one per call, and records what is sent.\<close>

definition list_net :: "(bytes list \<times> bytes list) net" where
  "list_net = \<lparr>net_socket = (\<lambda>_ _ w. (3, w)), net_getsockopt = (\<lambda>_ _ w. ((0, 4, ''AF_INET''), w)),
     net_setsockopt = (\<lambda>_ _ _ w. (0, w)), net_bind = (\<lambda>_ _ w. (0, w)), net_connect = (\<lambda>_ _ w. (0, w)), net_listen = (\<lambda>_ _ w. (0, w)), net_accept = (\<lambda>_ w. (3, w)),
     net_getsockname = (\<lambda>_ w. ((0, [], 0), w)), net_getpeername = (\<lambda>_ w. ((0, [], 0), w)),
     net_send = (\<lambda>_ data (inp, outp). (int (length data), inp, outp @ [data])),
     net_sendto = (\<lambda>_ _ data (inp, outp). (int (length data), inp, outp @ [data])),
     net_recv = (\<lambda>_ n (inp, outp). (case inp of [] \<Rightarrow> ((- 1, []), inp, outp)
       | data # rest \<Rightarrow> ((int (length data), take n data), rest, outp))),
     net_recvfrom = (\<lambda>_ n (inp, outp). (case inp of [] \<Rightarrow> ((- 1, [], [], 0), inp, outp)
       | data # rest \<Rightarrow> ((int (length data), take n data, [2], 1), rest, outp))),
     net_errno = (\<lambda>_. EWOULDBLOCK)\<rparr>"

lemma udp_recv_whole_witness:
  "udp_recv list_net \<lparr>fd_num = 3, fd_eof = False\<rparr> ([[1, 2], [3]], []) = (Inr (Some [1, 2]), [[3]], [])"
proof -
  have "pending_datagram list_net 3 [1, 2] ([[1, 2], [3]], []) ([[3]], [])"
    by (simp add: pending_datagram_def list_net_def UDP_MTU_def)
  then show ?thesis
    using udp_recv_whole [of list_net "\<lparr>fd_num = 3, fd_eof = False\<rparr>" "[1, 2]" "([[1, 2], [3]], [])"
        "([[3]], [])"] by simp
qed

text \<open>
  The result of \<open>send\<close> is \<open>true\<close> exactly when the kernel accepted every byte, \<open>false\<close> exactly when it
  would block, and an exception otherwise; empty data never reaches the kernel.
\<close>

lemma udp_send_outcome:
  "let (n, w') = net_send net (fd_num f) data w in
   (udp_send net f data w = (Inr True, w'')) = (data \<noteq> [] \<and> n = int (length data) \<and> w'' = w') \<and>
   (udp_send net f data w = (Inr False, w'')) =
     (data \<noteq> [] \<and> n = - 1 \<and> net_errno net w' = EWOULDBLOCK \<and> w'' = w') \<and>
   snd (udp_send net f data w) = (if data = [] then w else w')"
proof (cases "net_send net (fd_num f) data w")
  case (Pair n w')
  have "0 < length data" if "data \<noteq> []" using that by simp
  then show ?thesis
    using Pair by (cases "n \<le> 0") (auto simp: udp_send_def check_bytes_sent_def Let_def)
qed

end
