(* ===== verification/Transition_System.thy ===== *)
theory Transition_System
  imports Prelude
begin

text \<open>
  Labelled transition systems for the parts of the program that run for ever: the event loop of the
  sender and the two threads of the receiver. A run is a finite sequence of steps; the locale turns
  preservation by one step into an invariant of every run.
\<close>

inductive run :: "('ev \<Rightarrow> 's \<Rightarrow> 's \<Rightarrow> bool) \<Rightarrow> 'ev list \<Rightarrow> 's \<Rightarrow> 's \<Rightarrow> bool" for step where
  run_Nil: "run step [] s s"
| run_Cons: "step ev s t \<Longrightarrow> run step evs t u \<Longrightarrow> run step (ev # evs) s u"

inductive_cases run_NilE: "run step [] s t"
inductive_cases run_ConsE: "run step (ev # evs) s t"

inductive_simps run_Nil_iff [simp]: "run step [] s t"
inductive_simps run_Cons_iff: "run step (ev # evs) s t"

lemma run_append_iff: "run step (xs @ ys) s u \<longleftrightarrow> (\<exists>t. run step xs s t \<and> run step ys t u)"
  by (induction xs arbitrary: s) (auto simp: run_Cons_iff)

lemma run_snoc: "run step evs s t \<Longrightarrow> step ev t u \<Longrightarrow> run step (evs @ [ev]) s u"
  by (auto simp: run_append_iff run_Cons_iff)

text \<open>
  \<open>inv\<close> is preserved by the steps whose label is allowed by \<open>guard\<close>, a condition on the inputs from
  the outside that may depend on the state.
\<close>

locale step_invariant =
  fixes step :: "'ev \<Rightarrow> 's \<Rightarrow> 's \<Rightarrow> bool"
    and inv :: "'s \<Rightarrow> bool"
    and guard :: "'ev \<Rightarrow> bool"
  assumes step_preserves: "step ev s t \<Longrightarrow> inv s \<Longrightarrow> guard ev \<Longrightarrow> inv t"
begin

lemma run_preserves: "run step evs s t \<Longrightarrow> inv s \<Longrightarrow> \<forall>ev \<in> set evs. guard ev \<Longrightarrow> inv t"
  by (induction rule: run.induct) (auto intro: step_preserves)

text \<open>The labels of the steps of a run.\<close>

lemma run_labels:
  assumes "\<And>ev s t. step ev s t \<Longrightarrow> inv s \<Longrightarrow> ok ev"
    and "run step evs s t" and "inv s" and "\<forall>ev \<in> set evs. guard ev"
  shows "\<forall>ev \<in> set evs. ok ev"
  using assms(2,3,4)
proof (induction rule: run.induct)
  case (run_Cons ev s t evs u)
  then have "ok ev" "inv t" using assms(1) step_preserves by auto
  with run_Cons show ?case by simp
qed simp

text \<open>Every state passed on the way satisfies the invariant.\<close>

lemma run_prefix_preserves:
  assumes "run step (xs @ ys) s u" and "inv s" and "\<forall>ev \<in> set xs. guard ev"
  shows "\<exists>t. run step xs s t \<and> run step ys t u \<and> inv t"
  using assms run_preserves by (auto simp: run_append_iff)

text \<open>A measure that no allowed step decreases does not decrease along a run.\<close>

lemma run_monotone:
  assumes "\<And>ev s t. step ev s t \<Longrightarrow> inv s \<Longrightarrow> guard ev \<Longrightarrow> (m s :: 'b :: preorder) \<le> m t"
    and "run step evs s t" and "inv s" and "\<forall>ev \<in> set evs. guard ev"
  shows "m s \<le> m t"
  using assms(2,3,4)
proof (induction rule: run.induct)
  case (run_Cons ev s t evs u)
  then have "m s \<le> m t" "inv t" using assms(1) step_preserves by auto
  with run_Cons show ?case by (auto intro: order_trans)
qed simp

end

end
