(* ===== verification/Video_Sender.thy ===== *)
theory Video_Sender
  imports Retransmission Poller Timers Yuv4mpeg Sockets Transition_System
begin

text \<open>
  The model of \<open>src/app/video_sender.cc\<close>: the command line, the wait for a configuration, and the event
  loop that reads and compresses frames at the frame rate, sends datagrams when the socket is writable
  and handles acknowledgements when it is readable.
\<close>

section \<open>Command line\<close>

text \<open>
  \<open>--mtu\<close> sets the static member \<open>Datagram::max_payload\<close>; any character that is not an option prints the
  usage and exits (\<open>None\<close>).
\<close>

record sender_config =
  sc_max_payload :: nat
  sc_output_path :: bytes
  sc_verbose :: bool

definition sender_defaults :: sender_config where
  "sender_defaults = \<lparr>sc_max_payload = default_max_payload, sc_output_path = [], sc_verbose = False\<rparr>"

fun sender_options :: "(char \<times> bytes) list \<Rightarrow> sender_config \<Rightarrow> sender_config option result" where
  "sender_options [] cfg = Inr (Some cfg)"
| "sender_options ((opt, optarg) # opts) cfg =
     (if opt = CHR ''M'' then
        bind_result (strict_stoi optarg 10) (\<lambda>v.
        bind_result (set_mtu (word_of_int v)) (\<lambda>m. sender_options opts (cfg\<lparr>sc_max_payload := m\<rparr>)))
      else if opt = CHR ''o'' then sender_options opts (cfg\<lparr>sc_output_path := optarg\<rparr>)
      else if opt = CHR ''v'' then sender_options opts (cfg\<lparr>sc_verbose := True\<rparr>)
      else Inr None)"

text \<open>The port and the path of the video file.\<close>

definition sender_positional :: "bytes list \<Rightarrow> (u16 \<times> bytes) option result" where
  "sender_positional args =
     (case args of
        [port, y4m_path] \<Rightarrow>
          bind_result (strict_stoi port 10) (\<lambda>v.
          bind_result (narrow_cast uint16_t int_t v) (\<lambda>p. Inr (Some (word_of_int p, y4m_path))))
      | _ \<Rightarrow> Inr None)"

section \<open>Waiting for the configuration\<close>

partial_function (option) recv_config_msg ::
  "'w net \<Rightarrow> file_descriptor \<Rightarrow> 'w \<Rightarrow> ((address \<times> config_msg) result \<times> 'w) option" where
  "recv_config_msg net udp_sock w =
     (case udp_recvfrom net udp_sock w of
        (Inl e, w') \<Rightarrow> Some (Inl e, w')
      | (Inr (peer_addr, None), w') \<Rightarrow> Some (Inl Bad_Optional_Access, w')
      | (Inr (peer_addr, Some raw_data), w') \<Rightarrow>
          (case msg_parse_from_string raw_data of
             Inl e \<Rightarrow> Some (Inl e, w')
           | Inr None \<Rightarrow> recv_config_msg net udp_sock w'
           | Inr (Some m) \<Rightarrow>
               if msg_type m \<noteq> MSG_CONFIG then recv_config_msg net udp_sock w'
               else (case m of
                       ConfigMsg config \<Rightarrow> Some (Inr (peer_addr, config), w')
                     | _ \<Rightarrow> recv_config_msg net udp_sock w')))"

text \<open>The period of the frame timer: \<open>BILLION\<close> nanoseconds divided by the requested frame rate.\<close>

definition frame_interval :: "u16 \<Rightarrow> timespec result" where
  "frame_interval frame_rate =
     (if frame_rate = 0 then Inl (Undefined_Behaviour ''division by zero'')
      else Inr \<lparr>tv_sec = 0, tv_nsec = 1000 * 1000 * 1000 div uint frame_rate\<rparr>)"

section \<open>The event loop\<close>

text \<open>
  What the callbacks capture and do not change: the codec, the kernel, the descriptors of the two timers and
  of the socket, and the readings of the clock, which are calls on the world.
\<close>

record ('c, 'w) sender_env =
  env_vpx :: "'c vpx_encoder"
  env_os :: "'w os"
  env_net :: "'w net"
  env_poll :: "'w sys_poll"
  env_max_payload :: nat
  env_fps_timer :: file_descriptor
  env_udp_sock :: file_descriptor
  env_stats_timer :: file_descriptor
  env_now :: "'w \<Rightarrow> int \<times> 'w"
  env_encode_times :: "'w \<Rightarrow> encode_times \<times> 'w"

text \<open>What they change, besides the poller and the world.\<close>

record 'c sender =
  snd_encoder :: "'c encoder"
  snd_input :: yuv4mpeg
  snd_image :: raw_image

datatype sender_callback = Fps_Timer | Socket_Writable | Socket_Readable | Stats_Timer

type_synonym ('c, 'w) sender_state = "sender_callback poller \<times> 'c sender \<times> 'w"

text \<open>\<open>if (not encoder.send_buf().empty()) poller.activate(udp_sock, Poller::Out);\<close>\<close>

definition want_writable :: "('c, 'w) sender_env \<Rightarrow> (('c, 'w) sender_state, unit) action" where
  "want_writable env = (\<lambda>(p, s, w).
     if enc_send_buf (snd_encoder s) = [] then (Inr (), p, s, w)
     else let (r, p') = poller_activate (fd_num (env_udp_sock env)) Out p in (r, p', s, w))"

text \<open>The frame timer.\<close>

definition on_fps_timer :: "('c, 'w) sender_env \<Rightarrow> (('c, 'w) sender_state, unit) process" where
  "on_fps_timer env = (\<lambda>(p, s, w).
     case read_expirations (env_os env) (env_fps_timer env) w of
       (Inl e, w1) \<Rightarrow> Some (Inl e, p, s, w1)
     | (Inr num_exp, w1) \<Rightarrow>
         (case fetch_frames (env_os env) (unat num_exp) (snd_input s, snd_image s, w1) of
            None \<Rightarrow> None
          | Some (r, v, img, w2) \<Rightarrow>
              let s' = s\<lparr>snd_input := v, snd_image := img\<rparr> in
              (case r of
                 Inl e \<Rightarrow> Some (Inl e, p, s', w2)
               | Inr _ \<Rightarrow>
                   let (ts, w3) = env_encode_times env w2 in
                   (case compress_frame (env_vpx env) (env_os env) (env_max_payload env) ts img
                      (snd_encoder s', w3) of
                      (Inl e, enc, w4) \<Rightarrow> Some (Inl e, p, s'\<lparr>snd_encoder := enc\<rparr>, w4)
                    | (Inr _, enc, w4) \<Rightarrow>
                        Some (want_writable env (p, s'\<lparr>snd_encoder := enc\<rparr>, w4))))))"

text \<open>
  The loop of the writable socket over \<open>send_buf\<close>, which is the list. A datagram that would block stays at
  the front with its time reset.
\<close>

fun send_loop :: "('c, 'w) sender_env \<Rightarrow> datagram list \<Rightarrow> ('c encoder \<times> 'w, unit) action" where
  "send_loop env [] = return_action ()"
| "send_loop env (d # send_buf) = (\<lambda>(e, w).
     let (now, w1) = env_now env w;
         datagram = d\<lparr>dg_send_ts := timestamp_us now\<rparr>;
         e1 = e\<lparr>enc_send_buf := datagram # send_buf\<rparr>
     in case udp_send (env_net env) (env_udp_sock env) (datagram_serialize_to_string datagram) w1 of
          (Inl er, w2) \<Rightarrow> (Inl er, e1, w2)
        | (Inr True, w2) \<Rightarrow>
            (case if dg_num_rtx datagram = 0 then add_unacked datagram e1 else (Inr (), e1) of
               (Inl er, e2) \<Rightarrow> (Inl er, e2, w2)
             | (Inr _, e2) \<Rightarrow> send_loop env send_buf (e2\<lparr>enc_send_buf := send_buf\<rparr>, w2))
        | (Inr False, w2) \<Rightarrow> (Inr (), e\<lparr>enc_send_buf := datagram\<lparr>dg_send_ts := 0\<rparr> # send_buf\<rparr>, w2))"

definition on_writable :: "('c, 'w) sender_env \<Rightarrow> (('c, 'w) sender_state, unit) process" where
  "on_writable env = (\<lambda>(p, s, w).
     case send_loop env (enc_send_buf (snd_encoder s)) (snd_encoder s, w) of
       (Inl e, enc, w') \<Rightarrow> Some (Inl e, p, s\<lparr>snd_encoder := enc\<rparr>, w')
     | (Inr _, enc, w') \<Rightarrow>
         if enc_send_buf enc = [] then
           let (r, p') = poller_deactivate (fd_num (env_udp_sock env)) Out p
           in Some (r, p', s\<lparr>snd_encoder := enc\<rparr>, w')
         else Some (Inr (), p, s\<lparr>snd_encoder := enc\<rparr>, w'))"

text \<open>
  The readable socket: acknowledgements are handled until the socket would block; a message that is not one
  ends the callback.
\<close>

partial_function (option) on_readable ::
  "('c, 'w) sender_env \<Rightarrow> ('c, 'w) sender_state \<Rightarrow> (unit result \<times> ('c, 'w) sender_state) option" where
  "on_readable env st =
     (case st of (p, s, w) \<Rightarrow>
      case udp_recv (env_net env) (env_udp_sock env) w of
        (Inl e, w') \<Rightarrow> Some (Inl e, p, s, w')
      | (Inr None, w') \<Rightarrow> Some (Inr (), p, s, w')
      | (Inr (Some raw_data), w') \<Rightarrow>
          (case msg_parse_from_string raw_data of
             Inl e \<Rightarrow> Some (Inl e, p, s, w')
           | Inr None \<Rightarrow> Some (Inr (), p, s, w')
           | Inr (Some m) \<Rightarrow>
               if msg_type m \<noteq> MSG_ACK then Some (Inr (), p, s, w')
               else (case m of
                       AckMsg ack \<Rightarrow>
                         (let (now, w1) = env_now env w';
                              (r, enc) = handle_ack (timestamp_us now) ack (snd_encoder s)
                          in case r of
                               Inl e \<Rightarrow> Some (Inl e, p, s\<lparr>snd_encoder := enc\<rparr>, w1)
                             | Inr _ \<Rightarrow>
                                 (case want_writable env (p, s\<lparr>snd_encoder := enc\<rparr>, w1) of
                                    (Inl e, st') \<Rightarrow> Some (Inl e, st')
                                  | (Inr _, st') \<Rightarrow> on_readable env st'))
                     | _ \<Rightarrow> Some (Inl (Undefined_Behaviour ''null pointer''), p, s, w'))))"

text \<open>The statistics timer.\<close>

definition on_stats_timer :: "('c, 'w) sender_env \<Rightarrow> (('c, 'w) sender_state, unit) process" where
  "on_stats_timer env = (\<lambda>(p, s, w).
     case read_expirations (env_os env) (env_stats_timer env) w of
       (Inl e, w') \<Rightarrow> Some (Inl e, p, s, w')
     | (Inr num_exp, w') \<Rightarrow>
         Some (Inr (), p,
           if num_exp = 0 then s else s\<lparr>snd_encoder := output_periodic_stats (snd_encoder s)\<rparr>, w'))"

definition run_sender :: "('c, 'w) sender_env \<Rightarrow> (sender_callback, ('c, 'w) sender_state) callbacks" where
  "run_sender env cb =
     (case cb of
        Fps_Timer \<Rightarrow> on_fps_timer env
      | Socket_Writable \<Rightarrow> on_writable env
      | Socket_Readable \<Rightarrow> on_readable env
      | Stats_Timer \<Rightarrow> on_stats_timer env)"

text \<open>
  What \<open>main\<close> does between receiving the configuration and the first registration: the socket becomes
  non-blocking, the video file, the image, the encoder and the timers are set up. (In the code the statistics
  timer is created after the first registrations, which do not depend on it.)
\<close>

definition sender_setup :: "'w os \<Rightarrow> 'w timers \<Rightarrow> 'c vpx_encoder \<Rightarrow> int \<Rightarrow> (u32 \<Rightarrow> u32 \<Rightarrow> vpx_image)
    \<Rightarrow> sender_config \<Rightarrow> bytes \<Rightarrow> config_msg \<Rightarrow> file_descriptor
    \<Rightarrow> ('w, 'c sender \<times> file_descriptor \<times> file_descriptor) process" where
  "sender_setup os tm vpx nprocs img_alloc cfg y4m_path config udp_sock =
     bind_process (total (\<lambda>w. case fd_set_blocking os False (udp_sock, w) of (r, _, w') \<Rightarrow> (r, w'))) (\<lambda>_.
     bind_process (y4m_open os y4m_path (cfg_width config) (cfg_height config) True) (\<lambda>video_input.
     bind_process (total (encoder_init vpx os nprocs (cfg_width config) (cfg_height config)
       (cfg_frame_rate config) (sc_output_path cfg))) (\<lambda>encoder.
     bind_process (total (\<lambda>w. case set_target_bitrate vpx (cfg_target_bitrate config) encoder of
       (r, e) \<Rightarrow> (bind_result r (\<lambda>_. Inr (set_verbose (sc_verbose cfg) e)), w))) (\<lambda>encoder.
     bind_process (total (timerfd_open tm os ''CLOCK_MONOTONIC'' ''TFD_NONBLOCK'')) (\<lambda>fps_timer.
     bind_process (total (\<lambda>w. (frame_interval (cfg_frame_rate config), w))) (\<lambda>interval.
     bind_process (total (timerfd_set_time tm fps_timer interval interval)) (\<lambda>_.
     bind_process (total (timerfd_open tm os ''CLOCK_MONOTONIC'' ''TFD_NONBLOCK'')) (\<lambda>stats_timer.
     bind_process (total (timerfd_set_time tm stats_timer \<lparr>tv_sec = 1, tv_nsec = 0\<rparr> \<lparr>tv_sec = 1, tv_nsec = 0\<rparr>)) (\<lambda>_.
     total (return_action
       (\<lparr>snd_encoder = encoder, snd_input = video_input,
         snd_image = raw_image_alloc img_alloc (cfg_width config) (cfg_height config)\<rparr>,
        fps_timer, stats_timer)))))))))))"

text \<open>The registrations made before the loop, and one round of the loop.\<close>

definition sender_registrations :: "('c, 'w) sender_env \<Rightarrow> sender_callback request list" where
  "sender_registrations env =
     [Register (fd_num (env_fps_timer env)) In Fps_Timer,
      Register (fd_num (env_udp_sock env)) Out Socket_Writable,
      Register (fd_num (env_udp_sock env)) In Socket_Readable,
      Register (fd_num (env_stats_timer env)) In Stats_Timer]"

definition sender_round :: "('c, 'w) sender_env \<Rightarrow> int list \<Rightarrow> (int \<Rightarrow> flag list)
    \<Rightarrow> (('c, 'w) sender_state, unit) process" where
  "sender_round env order flag_order =
     poller_poll (\<lambda>fds timeout_ms (s, w). let (answer, w') = env_poll env fds timeout_ms w in (answer, s, w'))
       (run_sender env) order flag_order (- 1)"

section \<open>The invariant\<close>

text \<open>The callbacks the sender registers, and the descriptors they are for, which are distinct.\<close>

definition sender_roster :: "('c, 'w) sender_env \<Rightarrow> int \<Rightarrow> flag \<Rightarrow> sender_callback option" where
  "sender_roster env fd f =
     (case f of
        In \<Rightarrow> (if fd = fd_num (env_fps_timer env) then Some Fps_Timer
               else if fd = fd_num (env_udp_sock env) then Some Socket_Readable
               else if fd = fd_num (env_stats_timer env) then Some Stats_Timer else None)
      | Out \<Rightarrow> (if fd = fd_num (env_udp_sock env) then Some Socket_Writable else None))"

definition distinct_fds :: "('c, 'w) sender_env \<Rightarrow> bool" where
  "distinct_fds env =
     distinct [fd_num (env_fps_timer env), fd_num (env_udp_sock env), fd_num (env_stats_timer env)]"

text \<open>
  The poller holds the four registrations, the three readable ones always monitored; and as long as datagrams
  are queued the socket is monitored for being writable.
\<close>

definition poller_ready :: "('c, 'w) sender_env \<Rightarrow> sender_callback poller \<Rightarrow> bool" where
  "poller_ready env p =
     (poller_inv p \<and> pl_leaving p = {} \<and> (\<forall>fd f. callback_at (pl_roster p) fd f = sender_roster env fd f) \<and>
      (\<forall>fd. sender_roster env fd In \<noteq> None \<longrightarrow> poller_requested p fd In))"

definition sender_inv :: "('c, 'w) sender_env \<Rightarrow> ('c, 'w) sender_state \<Rightarrow> bool" where
  "sender_inv env st =
     (case st of (p, s, w) \<Rightarrow> poller_ready env p \<and> encoder_inv (snd_encoder s) \<and>
        (enc_send_buf (snd_encoder s) \<noteq> [] \<longrightarrow> poller_requested p (fd_num (env_udp_sock env)) Out))"

lemma set_mask_ready:
  assumes "poller_ready env p" and "callback_at (pl_roster p) fd f = Some cb" and "f = Out \<or> b"
    and "\<And>events g. has_flag (m events) g = (if g = f then b else has_flag events g)"
  obtains events where "pl_active p fd = Some events"
    and "poller_ready env (p\<lparr>pl_active := (pl_active p)(fd \<mapsto> m events)\<rparr>)"
    and "\<And>fd' g. poller_requested (p\<lparr>pl_active := (pl_active p)(fd \<mapsto> m events)\<rparr>) fd' g =
      (if fd' = fd \<and> g = f then b else poller_requested p fd' g)"
proof -
  have inv: "poller_inv p" using assms(1) by (simp add: poller_ready_def)
  have "reg_events (poller_abs p) (fd, f) \<noteq> None" using assms(2) by simp
  from poller_mask_refines [OF inv this assms(4)] obtain events where
    ev: "pl_active p fd = Some events" "poller_inv (p\<lparr>pl_active := (pl_active p)(fd \<mapsto> m events)\<rparr>)" by blast
  let ?p = "p\<lparr>pl_active := (pl_active p)(fd \<mapsto> m events)\<rparr>"
  have req: "poller_requested ?p fd' g = (if fd' = fd \<and> g = f then b else poller_requested p fd' g)" for fd' g
    using ev(1) by (simp add: poller_requested_def assms(4))
  have "poller_ready env ?p"
    using assms(1,3) ev(2) unfolding poller_ready_def by (auto simp: req)
  with ev(1) req that show ?thesis by blast
qed

lemma activate_ready:
  assumes "poller_ready env p" and "callback_at (pl_roster p) fd f = Some cb"
  obtains p' where "poller_activate fd f p = (Inr (), p')" and "poller_ready env p'"
    and "\<And>fd' g. poller_requested p' fd' g = (if fd' = fd \<and> g = f then True else poller_requested p fd' g)"
proof -
  have "has_flag (events OR flag_value f) g = (if g = f then True else has_flag events g)" for events :: u16 and g
    by (auto simp: has_flag_or)
  from set_mask_ready [OF assms(1,2), of True "\<lambda>events. events OR flag_value f", OF _ this] obtain events where
    "pl_active p fd = Some events"
    "poller_ready env (p\<lparr>pl_active := (pl_active p)(fd \<mapsto> events OR flag_value f)\<rparr>)"
    "\<And>fd' g. poller_requested (p\<lparr>pl_active := (pl_active p)(fd \<mapsto> events OR flag_value f)\<rparr>) fd' g =
      (if fd' = fd \<and> g = f then True else poller_requested p fd' g)" by blast
  with that show ?thesis by (simp add: poller_activate_def)
qed

lemma deactivate_ready:
  assumes "poller_ready env p" and "callback_at (pl_roster p) fd Out = Some cb"
  obtains p' where "poller_deactivate fd Out p = (Inr (), p')" and "poller_ready env p'"
proof -
  have "has_flag (events AND NOT (flag_value Out)) g = (if g = Out then False else has_flag events g)"
    for events :: u16 and g by (auto simp: has_flag_and_not)
  from set_mask_ready [OF assms, of False "\<lambda>events. events AND NOT (flag_value Out)", OF _ this] obtain events where
    "pl_active p fd = Some events"
    "poller_ready env (p\<lparr>pl_active := (pl_active p)(fd \<mapsto> events AND NOT (flag_value Out))\<rparr>)" by blast
  with that show ?thesis by (simp add: poller_deactivate_def)
qed

lemma writable_registered:
  "poller_ready env p \<Longrightarrow> callback_at (pl_roster p) (fd_num (env_udp_sock env)) Out = Some Socket_Writable"
  by (simp add: poller_ready_def sender_roster_def)

lemma want_writable_inv:
  assumes "poller_ready env p" and "encoder_inv (snd_encoder s)"
  obtains p' where "want_writable env (p, s, w) = (Inr (), p', s, w)" and "sender_inv env (p', s, w)"
proof (cases "enc_send_buf (snd_encoder s) = []")
  case True
  with assms that show ?thesis by (simp add: want_writable_def sender_inv_def)
next
  case False
  obtain p' where "poller_activate (fd_num (env_udp_sock env)) Out p = (Inr (), p')" "poller_ready env p'"
    "poller_requested p' (fd_num (env_udp_sock env)) Out"
    using activate_ready [OF assms(1) writable_registered [OF assms(1)]] by metis
  with assms False that show ?thesis by (simp add: want_writable_def sender_inv_def)
qed

section \<open>The callbacks keep the invariant\<close>

lemma front_ts_inv:
  assumes "encoder_inv e" and "enc_send_buf e = d # rest"
  shows "encoder_inv (e\<lparr>enc_send_buf := d\<lparr>dg_send_ts := t\<rparr> # rest\<rparr>)"
proof -
  have "seq_num (d\<lparr>dg_send_ts := t\<rparr>) = seq_num d" "tracked k (d\<lparr>dg_send_ts := t\<rparr>) = tracked k d" for k
    by (simp_all add: seq_num_def tracked_def)
  with assms show ?thesis by (cases "dg_num_rtx d = 0") (simp_all add: encoder_inv_def)
qed

text \<open>What happens to the first datagram of the queue once it was sent.\<close>

lemma sent_front:
  assumes "encoder_inv e" and "enc_send_buf e = d # buf"
  obtains e' where
    "(if dg_num_rtx d = 0 then add_unacked (d\<lparr>dg_send_ts := t\<rparr>) (e\<lparr>enc_send_buf := d\<lparr>dg_send_ts := t\<rparr> # buf\<rparr>)
      else (Inr (), e\<lparr>enc_send_buf := d\<lparr>dg_send_ts := t\<rparr> # buf\<rparr>)) = (Inr (), e')"
    and "encoder_inv (e'\<lparr>enc_send_buf := buf\<rparr>)" and "enc_frame_id e' = enc_frame_id e"
    and "fst ` set (enc_unacked e') = fst ` set (enc_unacked e) \<union> seq_num ` set (fresh [d])"
proof -
  let ?d = "d\<lparr>dg_send_ts := t\<rparr>"
  let ?e1 = "e\<lparr>enc_send_buf := ?d # buf\<rparr>"
  have seq: "seq_num ?d = seq_num d" by (simp add: seq_num_def)
  have inv1: "encoder_inv ?e1" by (rule front_ts_inv [OF assms])
  show thesis
  proof (cases "dg_num_rtx d = 0")
    case True
    have "enc_send_buf ?e1 = ?d # buf" "dg_num_rtx ?d = 0" using True by simp_all
    note front = add_unacked_front [OF inv1 this, of t]
    show thesis
    proof (rule that)
      show "(if dg_num_rtx d = 0 then add_unacked ?d ?e1 else (Inr (), ?e1)) =
          (Inr (), ?e1\<lparr>enc_unacked := om_insert (seq_num ?d) (sent_at t ?d) (enc_unacked ?e1)\<rparr>)"
        using front(1) True by simp
    qed (use front(2) True in \<open>simp_all add: fst_set_om_insert seq\<close>)
  next
    case False
    with pop_front_inv [OF inv1, of ?d buf] show thesis by (intro that [of ?e1]) simp_all
  qed
qed

text \<open>
  The loop sends a prefix of the queue in order. The datagrams of it that are sent for the first time become
  unacknowledged, the others are forgotten; \<open>add_unacked\<close> never refuses one.
\<close>

lemma send_loop_result:
  assumes "encoder_inv e" and "enc_send_buf e = buf" and "send_loop env buf (e, w) = (r, e', w')"
  shows "encoder_inv e' \<and> enc_frame_id e' = enc_frame_id e \<and>
    (\<exists>k \<le> length buf. map seq_num (enc_send_buf e') = map seq_num (drop k buf) \<and>
      fst ` set (enc_unacked e') = fst ` set (enc_unacked e) \<union> seq_num ` set (fresh (take k buf)) \<and>
      (\<forall>er. r = Inl er \<longrightarrow> (\<exists>w1 w2 data. udp_send (env_net env) (env_udp_sock env) data w1 = (Inl er, w2))))"
  using assms
proof (induction buf arbitrary: e w)
  case Nil
  then show ?case by (auto simp: return_action_def)
next
  case (Cons d buf)
  obtain now w1 where now: "env_now env w = (now, w1)" by (cases "env_now env w")
  let ?d = "d\<lparr>dg_send_ts := timestamp_us now\<rparr>"
  let ?e1 = "e\<lparr>enc_send_buf := ?d # buf\<rparr>"
  have seq: "seq_num (d\<lparr>dg_send_ts := t\<rparr>) = seq_num d" for t by (simp add: seq_num_def)
  have inv1: "encoder_inv ?e1" using front_ts_inv [OF Cons.prems(1,2)] by simp
  obtain sent w2 where sent: "udp_send (env_net env) (env_udp_sock env) (datagram_serialize_to_string ?d) w1 = (sent, w2)"
    by (cases "udp_send (env_net env) (env_udp_sock env) (datagram_serialize_to_string ?d) w1")
  show ?case
  proof (cases sent)
    case (Inl er)
    then have "r = Inl er" "e' = ?e1" using Cons.prems(3) now sent by simp_all
    with inv1 sent Inl show ?thesis by (intro conjI exI [of _ 0]) (auto simp: seq)
  next
    case (Inr ok)
    show ?thesis
    proof (cases ok)
      case False
      then have "r = Inr ()" "e' = e\<lparr>enc_send_buf := d\<lparr>dg_send_ts := 0\<rparr> # buf\<rparr>"
        using Cons.prems(3) now sent Inr by simp_all
      with front_ts_inv [OF Cons.prems(1,2), of 0] show ?thesis
        by (intro conjI exI [of _ 0]) (auto simp: seq)
    next
      case True
      obtain e2 where e2: "(if dg_num_rtx d = 0 then add_unacked ?d ?e1 else (Inr (), ?e1)) = (Inr (), e2)"
        "encoder_inv (e2\<lparr>enc_send_buf := buf\<rparr>)" "enc_frame_id e2 = enc_frame_id e"
        "fst ` set (enc_unacked e2) = fst ` set (enc_unacked e) \<union> seq_num ` set (fresh [d])"
        by (rule sent_front [OF Cons.prems(1,2), of "timestamp_us now"])
      have "send_loop env buf (e2\<lparr>enc_send_buf := buf\<rparr>, w2) = (r, e', w')"
        using Cons.prems(3) now sent Inr True e2(1) by simp
      from Cons.IH [OF e2(2) _ this] obtain k where k: "encoder_inv e'" "enc_frame_id e' = enc_frame_id e" "k \<le> length buf"
        "map seq_num (enc_send_buf e') = map seq_num (drop k buf)"
        "fst ` set (enc_unacked e') = fst ` set (enc_unacked e2) \<union> seq_num ` set (fresh (take k buf))"
        "\<forall>er. r = Inl er \<longrightarrow> (\<exists>w1 w2 data. udp_send (env_net env) (env_udp_sock env) data w1 = (Inl er, w2))"
        using e2(3) by auto
      have "fst ` set (enc_unacked e') =
          fst ` set (enc_unacked e) \<union> seq_num ` set (fresh (take (Suc k) (d # buf)))"
        using k(5) e2(4) by auto
      with k show ?thesis by (intro conjI exI [of _ "Suc k"]) simp_all
    qed
  qed
qed

definition sender_frame_id :: "('c, 'w) sender_state \<Rightarrow> u32" where
  "sender_frame_id st = enc_frame_id (snd_encoder (fst (snd st)))"

lemma on_writable_inv:
  assumes "sender_inv env (p, s, w)" and "on_writable env (p, s, w) = Some (Inr (), st')"
  shows "sender_inv env st' \<and> sender_frame_id st' = sender_frame_id (p, s, w)"
proof -
  let ?buf = "enc_send_buf (snd_encoder s)"
  obtain r enc w' where loop: "send_loop env ?buf (snd_encoder s, w) = (r, enc, w')" by (metis prod.collapse)
  have inv: "poller_ready env p" "encoder_inv (snd_encoder s)" using assms(1) by (simp_all add: sender_inv_def)
  have enc: "encoder_inv enc" "enc_frame_id enc = enc_frame_id (snd_encoder s)"
    "\<exists>k. map seq_num (enc_send_buf enc) = map seq_num (drop k ?buf)"
    using send_loop_result [OF inv(2) refl loop] by blast+
  have r: "r = Inr ()" using assms(2) loop by (cases r) (simp_all add: on_writable_def)
  show ?thesis
  proof (cases "enc_send_buf enc = []")
    case True
    obtain p' where "poller_deactivate (fd_num (env_udp_sock env)) Out p = (Inr (), p')" "poller_ready env p'"
      using deactivate_ready [OF inv(1) writable_registered [OF inv(1)]] by blast
    then show ?thesis using assms(2) loop r True enc by (auto simp: on_writable_def sender_inv_def sender_frame_id_def)
  next
    case False
    then have "?buf \<noteq> []" using enc(3) by auto
    with False show ?thesis
      using assms loop r enc by (auto simp: on_writable_def sender_inv_def sender_frame_id_def)
  qed
qed

lemma on_fps_timer_inv:
  assumes "sender_inv env (p, s, w)" and "on_fps_timer env (p, s, w) = Some (Inr (), st')"
    and "unat (enc_frame_id (snd_encoder s)) + 1 < 2 ^ 32"
  shows "sender_inv env st' \<and> sender_frame_id st' = sender_frame_id (p, s, w) + 1"
proof -
  have inv: "poller_ready env p" "encoder_inv (snd_encoder s)" using assms(1) by (simp_all add: sender_inv_def)
  obtain n w1 where n: "read_expirations (env_os env) (env_fps_timer env) w = (Inr n, w1)"
    using assms(2) by (auto simp: on_fps_timer_def split: prod.splits sum.splits)
  obtain v img w2 where fetch: "fetch_frames (env_os env) (unat n) (snd_input s, snd_image s, w1) = Some (Inr (), v, img, w2)"
    using assms(2) n by (auto simp: on_fps_timer_def Let_def split: option.splits prod.splits sum.splits)
  let ?s = "s\<lparr>snd_input := v, snd_image := img\<rparr>"
  obtain ts w3 where ts: "env_encode_times env w2 = (ts, w3)" by (cases "env_encode_times env w2")
  obtain enc w4 where comp: "compress_frame (env_vpx env) (env_os env) (env_max_payload env) ts img (snd_encoder s, w3) =
      (Inr (), enc, w4)"
    and st': "want_writable env (p, ?s\<lparr>snd_encoder := enc\<rparr>, w4) = (Inr (), st')"
    using assms(2) n fetch ts by (auto simp: on_fps_timer_def Let_def split: prod.splits sum.splits)
  note enc = compress_frame_inv [OF inv(2) assms(3) comp]
  obtain p' where "want_writable env (p, ?s\<lparr>snd_encoder := enc\<rparr>, w4) = (Inr (), p', ?s\<lparr>snd_encoder := enc\<rparr>, w4)"
    "sender_inv env (p', ?s\<lparr>snd_encoder := enc\<rparr>, w4)"
    using want_writable_inv [OF inv(1), of "?s\<lparr>snd_encoder := enc\<rparr>" w4] enc(1) by auto
  with st' enc(2) show ?thesis by (auto simp: sender_frame_id_def)
qed

lemma on_stats_timer_inv:
  assumes "sender_inv env (p, s, w)" and "on_stats_timer env (p, s, w) = Some (Inr (), st')"
  shows "sender_inv env st' \<and> sender_frame_id st' = sender_frame_id (p, s, w)"
proof -
  have "encoder_inv (output_periodic_stats e) = encoder_inv e"
    "enc_send_buf (output_periodic_stats e) = enc_send_buf e"
    "enc_frame_id (output_periodic_stats e) = enc_frame_id e" for e :: "'a encoder"
    by (simp_all add: output_periodic_stats_def encoder_inv_def)
  with assms show ?thesis
    by (auto simp: on_stats_timer_def sender_inv_def sender_frame_id_def split: prod.splits sum.splits if_splits)
qed

lemma handle_ack_frame_id: "enc_frame_id (snd (handle_ack now ack e)) = enc_frame_id e"
  by (auto simp: handle_ack_def add_rtt_sample_def Let_def split: option.split prod.split sum.split)

lemma on_readable_inv:
  assumes "on_readable env st = Some (Inr (), st')" and "sender_inv env st"
  shows "sender_inv env st' \<and> sender_frame_id st' = sender_frame_id st"
proof -
  have "fst res = Inr () \<longrightarrow> sender_inv env st \<longrightarrow>
      sender_inv env (snd res) \<and> sender_frame_id (snd res) = sender_frame_id st"
    if "on_readable env st = Some res" for st res
  proof (rule on_readable.raw_induct [where P = "\<lambda>env st res. fst res = Inr () \<longrightarrow> sender_inv env st \<longrightarrow>
      sender_inv env (snd res) \<and> sender_frame_id (snd res) = sender_frame_id st", OF _ that], intro impI)
    fix on_readable' and env :: "('a, 'b) sender_env" and st res
    assume IH: "\<And>env st res. on_readable' env st = Some res \<Longrightarrow> fst res = Inr () \<longrightarrow> sender_inv env st \<longrightarrow>
        sender_inv env (snd res) \<and> sender_frame_id (snd res) = sender_frame_id st"
      and res: "(case st of (p, s, w) \<Rightarrow>
      case udp_recv (env_net env) (env_udp_sock env) w of
        (Inl e, w') \<Rightarrow> Some (Inl e, p, s, w')
      | (Inr None, w') \<Rightarrow> Some (Inr (), p, s, w')
      | (Inr (Some raw_data), w') \<Rightarrow>
          (case msg_parse_from_string raw_data of
             Inl e \<Rightarrow> Some (Inl e, p, s, w')
           | Inr None \<Rightarrow> Some (Inr (), p, s, w')
           | Inr (Some m) \<Rightarrow>
               if msg_type m \<noteq> MSG_ACK then Some (Inr (), p, s, w')
               else (case m of
                       AckMsg ack \<Rightarrow>
                         (let (now, w1) = env_now env w';
                              (r, enc) = handle_ack (timestamp_us now) ack (snd_encoder s)
                          in case r of
                               Inl e \<Rightarrow> Some (Inl e, p, s\<lparr>snd_encoder := enc\<rparr>, w1)
                             | Inr _ \<Rightarrow>
                                 (case want_writable env (p, s\<lparr>snd_encoder := enc\<rparr>, w1) of
                                    (Inl e, st') \<Rightarrow> Some (Inl e, st')
                                  | (Inr _, st') \<Rightarrow> on_readable' env st'))
                     | _ \<Rightarrow> Some (Inl (Undefined_Behaviour ''null pointer''), p, s, w')))) = Some res"
      and ok: "fst res = Inr ()" and inv: "sender_inv env st"
    obtain p s w where st: "st = (p, s, w)" by (cases st)
    have sinv: "poller_ready env p" "encoder_inv (snd_encoder s)"
      "sender_inv env (p, s, w')" for w' using inv by (simp_all add: st sender_inv_def)
    consider (stop) w' where "res = (Inr (), p, s, w')"
      | (ack) now w' w1 ack where "env_now env w' = (now, w1)"
        "(case handle_ack (timestamp_us now) ack (snd_encoder s) of (r, enc) \<Rightarrow>
           case r of
             Inl e \<Rightarrow> Some (Inl e, p, s\<lparr>snd_encoder := enc\<rparr>, w1)
           | Inr _ \<Rightarrow>
               (case want_writable env (p, s\<lparr>snd_encoder := enc\<rparr>, w1) of
                  (Inl e, st') \<Rightarrow> Some (Inl e, st')
                | (Inr _, st') \<Rightarrow> on_readable' env st')) = Some res"
      using res ok by (auto simp: st split: prod.splits sum.splits option.splits if_splits msg.splits)
    then show "sender_inv env (snd res) \<and> sender_frame_id (snd res) = sender_frame_id st"
    proof cases
      case stop
      then show ?thesis using sinv(3) by (simp add: st sender_frame_id_def)
    next
      case (ack now w' w1 ack)
      let ?enc = "snd (handle_ack (timestamp_us now) ack (snd_encoder s))"
      let ?s = "s\<lparr>snd_encoder := ?enc\<rparr>"
      have enc: "encoder_inv ?enc" "handle_ack (timestamp_us now) ack (snd_encoder s) = (Inr (), ?enc)"
        using handle_ack_inv [OF sinv(2), of "timestamp_us now" ack] by (simp_all add: prod_eq_iff)
      obtain p' where want: "want_writable env (p, ?s, w1) = (Inr (), p', ?s, w1)" "sender_inv env (p', ?s, w1)"
        using want_writable_inv [OF sinv(1), of ?s w1] enc(1) by auto
      have "on_readable' env (p', ?s, w1) = Some res"
        using ack(2) want(1) by (subst (asm) enc(2)) simp
      from IH [OF this] ok want(2) show ?thesis
        using handle_ack_frame_id [of "timestamp_us now" ack "snd_encoder s"] by (simp add: st sender_frame_id_def)
    qed
  qed
  from this [OF assms(1)] assms(2) show ?thesis by simp
qed

section \<open>The callbacks change the poller by requests\<close>

definition poller_follows :: "'cb poller \<Rightarrow> 'cb poller \<Rightarrow> bool" where
  "poller_follows p p' \<longleftrightarrow>
     (\<exists>reqs. perform poller_request reqs p = (Inr (), p') \<and> (\<forall>req \<in> set reqs. \<forall>fd. \<not> registers_on fd req))"

lemma perform_append:
  "perform request xs s = (Inr (), t) \<Longrightarrow> perform request (xs @ ys) s = perform request ys t"
  by (induction xs arbitrary: s) (auto simp: perform_Cons_bind bind_action_def split: prod.splits sum.splits)

lemma poller_follows_refl [simp]: "poller_follows p p"
  by (auto simp: poller_follows_def intro: exI [of _ "[]"])

lemma poller_follows_trans: "poller_follows p q \<Longrightarrow> poller_follows q r \<Longrightarrow> poller_follows p r"
  unfolding poller_follows_def by (metis (no_types, lifting) Un_iff perform_append set_append)

lemma poller_follows_one:
  assumes "poller_request req p = (r, p')" and "\<forall>fd. \<not> registers_on fd req"
    and "\<And>e. r = Inl e \<Longrightarrow> p' = p"
  shows "poller_follows p p'"
proof (cases r)
  case (Inr u)
  then have "perform poller_request [req] p = (Inr (), p')"
    using assms(1) by (simp add: perform_Cons_bind bind_action_def)
  with assms(2) show ?thesis unfolding poller_follows_def by (intro exI [of _ "[req]"]) simp
qed (use assms(3) in simp)

lemma activate_follows: "poller_activate fd f p = (r, p') \<Longrightarrow> poller_follows p p'"
  by (rule poller_follows_one [of "Activate fd f"])
    (auto simp: registers_on_def poller_activate_def split: option.splits)

lemma deactivate_follows: "poller_deactivate fd f p = (r, p') \<Longrightarrow> poller_follows p p'"
  by (rule poller_follows_one [of "Deactivate fd f"])
    (auto simp: registers_on_def poller_deactivate_def split: option.splits)

lemma want_writable_follows: "poller_follows (fst st) (fst (snd (want_writable env st)))"
  by (cases st) (auto simp: want_writable_def split: prod.split intro: activate_follows)

lemma on_readable_follows:
  assumes "on_readable env st = Some res"
  shows "poller_follows (fst st) (fst (snd res))"
proof (rule on_readable.raw_induct [where P = "\<lambda>env st res. poller_follows (fst st) (fst (snd res))", OF _ assms])
  fix on_readable' and env :: "('a, 'b) sender_env" and st res
  assume IH: "\<And>env st res. on_readable' env st = Some res \<Longrightarrow> poller_follows (fst st) (fst (snd res))"
    and res: "(case st of (p, s, w) \<Rightarrow>
      case udp_recv (env_net env) (env_udp_sock env) w of
        (Inl e, w') \<Rightarrow> Some (Inl e, p, s, w')
      | (Inr None, w') \<Rightarrow> Some (Inr (), p, s, w')
      | (Inr (Some raw_data), w') \<Rightarrow>
          (case msg_parse_from_string raw_data of
             Inl e \<Rightarrow> Some (Inl e, p, s, w')
           | Inr None \<Rightarrow> Some (Inr (), p, s, w')
           | Inr (Some m) \<Rightarrow>
               if msg_type m \<noteq> MSG_ACK then Some (Inr (), p, s, w')
               else (case m of
                       AckMsg ack \<Rightarrow>
                         (let (now, w1) = env_now env w';
                              (r, enc) = handle_ack (timestamp_us now) ack (snd_encoder s)
                          in case r of
                               Inl e \<Rightarrow> Some (Inl e, p, s\<lparr>snd_encoder := enc\<rparr>, w1)
                             | Inr _ \<Rightarrow>
                                 (case want_writable env (p, s\<lparr>snd_encoder := enc\<rparr>, w1) of
                                    (Inl e, st') \<Rightarrow> Some (Inl e, st')
                                  | (Inr _, st') \<Rightarrow> on_readable' env st'))
                     | _ \<Rightarrow> Some (Inl (Undefined_Behaviour ''null pointer''), p, s, w')))) = Some res"
  obtain p s w where st: "st = (p, s, w)" by (cases st)
  consider (stop) "fst (snd res) = p"
    | (want) s' w' where "res = want_writable env (p, s', w')"
    | (more) s' w' r st' where "want_writable env (p, s', w') = (r, st')" "on_readable' env st' = Some res"
    using res
    by (auto simp: st split: prod.splits sum.splits option.splits if_splits msg.splits)
  then show "poller_follows (fst st) (fst (snd res))"
  proof cases
    case stop
    then show ?thesis by (simp add: st)
  next
    case (want s' w')
    then show ?thesis using want_writable_follows [of "(p, s', w')" env] by (simp add: st)
  next
    case (more s' w' r st')
    from IH [OF more(2)] more(1) want_writable_follows [of "(p, s', w')" env] show ?thesis
      by (auto simp: st intro: poller_follows_trans)
  qed
qed

lemma on_fps_timer_follows:
  assumes "on_fps_timer env (p, s, w) = Some (r, p', s', w')"
  shows "poller_follows p p'"
proof -
  consider (stop) "p' = p"
    | (want) s'' w'' where "want_writable env (p, s'', w'') = (r, p', s', w')"
    using assms by (auto simp: on_fps_timer_def Let_def split: prod.splits sum.splits option.splits)
  then show ?thesis
  proof cases
    case (want s'' w'')
    then show ?thesis using want_writable_follows [of "(p, s'', w'')" env] by (simp add: want)
  qed simp
qed

lemma run_sender_requests: "callbacks_request (run_sender env)"
  unfolding callbacks_request_def
proof (intro allI impI)
  fix cb p sw r p' sw'
  assume run: "run_sender env cb (p, sw) = Some (r, p', sw')"
  obtain s w s' w' where sw: "sw = (s, w)" "sw' = (s', w')" by (cases sw; cases sw')
  have "poller_follows p p'"
  proof (cases cb)
    case Fps_Timer
    with run show ?thesis using on_fps_timer_follows [of env p s w r p' s' w'] by (simp add: run_sender_def sw)
  next
    case Socket_Writable
    with run show ?thesis
      by (auto simp: run_sender_def sw on_writable_def Let_def deactivate_follows
          split: prod.splits sum.splits if_splits)
  next
    case Socket_Readable
    with run show ?thesis
      using on_readable_follows [of env "(p, s, w)" "(r, p', s', w')"] by (simp add: run_sender_def sw)
  next
    case Stats_Timer
    with run show ?thesis
      by (auto simp: run_sender_def sw on_stats_timer_def split: prod.splits sum.splits)
  qed
  then show "\<exists>reqs. perform poller_request reqs p = (Inr (), p') \<and>
      (\<forall>req \<in> set reqs. \<forall>fd. registers_on fd req \<longrightarrow> pl_roster p fd = None)"
    unfolding poller_follows_def by blast
qed

section \<open>Rounds of the loop\<close>

lemma run_sender_inv:
  assumes "run_sender env cb st = Some (Inr (), st')" and "sender_inv env st"
    and "cb = Fps_Timer \<Longrightarrow> unat (sender_frame_id st) + 1 < 2 ^ 32"
  shows "sender_inv env st' \<and>
    sender_frame_id st' = (if cb = Fps_Timer then sender_frame_id st + 1 else sender_frame_id st)"
proof -
  obtain p s w where st: "st = (p, s, w)" by (cases st)
  show ?thesis
    using assms on_fps_timer_inv [of env p s w st'] on_writable_inv [of env p s w st']
      on_readable_inv [of env st st'] on_stats_timer_inv [of env p s w st']
    by (cases cb) (simp_all add: run_sender_def st sender_frame_id_def)
qed

text \<open>What the callbacks keep when they return without an exception, in states with the invariant, and what polling keeps.\<close>

definition loop_keeps :: "('c, 'w) sender_env \<Rightarrow> (('c, 'w) sender_state \<Rightarrow> bool) \<Rightarrow> bool" where
  "loop_keeps env Q \<longleftrightarrow>
     (\<forall>cb st st'. run_sender env cb st = Some (Inr (), st') \<longrightarrow> sender_inv env st \<longrightarrow> Q st \<longrightarrow>
        (cb = Fps_Timer \<longrightarrow> unat (sender_frame_id st) + 1 < 2 ^ 32) \<longrightarrow> Q st') \<and>
     (\<forall>p s w fds. Q (p, s, w) \<longrightarrow> Q (p, s, snd (env_poll env fds (- 1) w)))"

lemma run_callbacks_keep:
  assumes "loop_keeps env Q"
    and "run_callbacks (run_sender env) cbs st = Some (Inr (), st')" and "sender_inv env st" and "Q st" and "distinct cbs"
    and "Fps_Timer \<in> set cbs \<Longrightarrow> unat (sender_frame_id st) + 1 < 2 ^ 32"
  shows "sender_inv env st' \<and> Q st'"
  using assms(2-)
proof (induction cbs arbitrary: st)
  case (Cons cb cbs)
  from Cons.prems(1) obtain st1 where st1: "run_sender env cb st = Some (Inr (), st1)"
    "run_callbacks (run_sender env) cbs st1 = Some (Inr (), st')"
    by (auto elim: bind_process_cases)
  have small: "cb = Fps_Timer \<Longrightarrow> unat (sender_frame_id st) + 1 < 2 ^ 32" using Cons.prems(5) by simp
  from run_sender_inv [OF st1(1) Cons.prems(2) this] have one: "sender_inv env st1"
    "sender_frame_id st1 = (if cb = Fps_Timer then sender_frame_id st + 1 else sender_frame_id st)" by simp_all
  have "Fps_Timer \<in> set cbs \<Longrightarrow> unat (sender_frame_id st1) + 1 < 2 ^ 32"
    using one(2) Cons.prems(4,5) by (cases "cb = Fps_Timer") auto
  moreover have "Q st1" using assms(1) st1(1) Cons.prems(2,3) small unfolding loop_keeps_def by blast
  ultimately show ?case using Cons.IH [OF st1(2) one(1)] Cons.prems(4) by simp
qed (simp add: total_def return_action_def)

lemma sender_callbacks_distinct:
  assumes "\<forall>fd f. callback_at m fd f = sender_roster env fd f" and "distinct evs"
    and "\<forall>(fd, f) \<in> set evs. callback_at m fd f \<noteq> None"
  shows "distinct (callbacks_of m evs)"
  unfolding callbacks_of_def distinct_map
proof
  have same: "fd = fd' \<and> f = f'" if "sender_roster env fd f = Some cb" "sender_roster env fd' f' = Some cb"
    for fd f fd' f' cb
    using that by (auto simp: sender_roster_def split: flag.splits if_splits)
  show "inj_on (\<lambda>(fd, f). the (callback_at m fd f)) (set evs)"
  proof (rule inj_onI)
    fix x y
    assume x: "x \<in> set evs" and y: "y \<in> set evs"
      and eq: "(case x of (fd, f) \<Rightarrow> the (callback_at m fd f)) = (case y of (fd, f) \<Rightarrow> the (callback_at m fd f))"
    obtain fd f fd' f' where xy: "x = (fd, f)" "y = (fd', f')" by (cases x; cases y)
    obtain cb cb' where "sender_roster env fd f = Some cb" "sender_roster env fd' f' = Some cb'"
      using assms(1,3) x y xy by fastforce
    moreover from this have "cb = cb'" using eq assms(1) by (simp add: xy)
    ultimately show "x = y" using same xy by blast
  qed
qed (rule assms(2))

text \<open>
  One round, with the orders in which the unordered maps are traversed and a kernel that answers as \<open>poll(2)\<close>
  does; the label is the id of the frame that is compressed in it, if the frame timer is reported.
\<close>

datatype sender_event = Round "u32 option"

inductive sender_step :: "('c, 'w) sender_env \<Rightarrow> sender_event \<Rightarrow> ('c, 'w) sender_state \<Rightarrow> ('c, 'w) sender_state \<Rightarrow> bool"
  for env where
  Round: "distinct order \<Longrightarrow> set order = {fd. pl_active (poller_do_deregister p) fd \<noteq> None} \<Longrightarrow>
    \<forall>fd. distinct (flag_order fd) \<and> set (flag_order fd) = UNIV \<Longrightarrow>
    poll_answers (fds_to_poll order (poller_do_deregister p))
      (fst (env_poll env (fds_to_poll order (poller_do_deregister p)) (- 1) w)) \<Longrightarrow>
    sender_round env order flag_order (p, s, w) = Some (Inr (), st) \<Longrightarrow>
    sender_step env (Round (if reported (fds_to_poll order (poller_do_deregister p))
        (snd (fst (env_poll env (fds_to_poll order (poller_do_deregister p)) (- 1) w))) (fd_num (env_fps_timer env)) In
      then Some (sender_frame_id (p, s, w)) else None)) (p, s, w) st"

inductive_cases sender_stepE: "sender_step env ev st st'"

definition no_wrap :: "sender_event \<Rightarrow> bool" where
  "no_wrap ev = (case ev of Round frame_id \<Rightarrow> frame_id \<noteq> Some (- 1))"

lemma sender_round_callbacks:
  assumes "sender_inv env (p, s, w)" and "distinct order" and "\<forall>fd. distinct (flag_order fd)"
    and "poll_answers (fds_to_poll order p) (fst (env_poll env (fds_to_poll order p) (- 1) w))"
  obtains cbs where "distinct cbs"
    and "Fps_Timer \<in> set cbs \<Longrightarrow> reported (fds_to_poll order p)
      (snd (fst (env_poll env (fds_to_poll order p) (- 1) w))) (fd_num (env_fps_timer env)) In"
    and "sender_round env order flag_order (p, s, w) =
      run_callbacks (run_sender env) cbs (p, s, snd (env_poll env (fds_to_poll order p) (- 1) w))"
proof -
  have inv: "poller_inv p" "pl_leaving p = {}" "\<forall>fd f. callback_at (pl_roster p) fd f = sender_roster env fd f"
    using assms(1) by (simp_all add: sender_inv_def poller_ready_def)
  have same: "poller_do_deregister p = p" using inv(2) by (simp add: poller_do_deregister_def)
  let ?fds = "fds_to_poll order p"
  obtain r revents w1 where answer: "env_poll env ?fds (- 1) w = ((r, revents), w1)" by (metis prod.collapse)
  let ?evs = "ready_events (pl_roster p) flag_order (polled ?fds revents)"
  have "length ?fds = length revents" using assms(4) answer by (auto simp: poll_answers_def dest: list_all2_lengthD)
  then have "map fst (polled ?fds revents) = map fst ?fds"
    by (simp add: polled_def o_def split_def flip: map_map [where f = fst and g = fst, unfolded o_def])
  then have "distinct ?evs"
    by (intro distinct_ready_events) (use assms(2,3) in \<open>simp_all add: fds_to_poll_keys\<close>)
  moreover have "\<forall>(fd, f) \<in> set ?evs. callback_at (pl_roster p) fd f \<noteq> None"
    by (auto simp: ready_events_def)
  ultimately have "distinct (callbacks_of (pl_roster p) ?evs)"
    using sender_callbacks_distinct [OF inv(3)] by blast
  moreover have "reported ?fds revents (fd_num (env_fps_timer env)) In"
    if fps: "Fps_Timer \<in> set (callbacks_of (pl_roster p) ?evs)"
  proof -
    obtain fd f where ev: "(fd, f) \<in> set ?evs" "Fps_Timer = the (callback_at (pl_roster p) fd f)"
      using fps by (auto simp: callbacks_of_def)
    then have "sender_roster env fd f = Some Fps_Timer"
      using inv(3) by (auto simp: ready_events_def)
    then have "fd = fd_num (env_fps_timer env)" "f = In"
      by (auto simp: sender_roster_def split: flag.splits if_splits)
    with ev(1) show ?thesis by (auto simp: ready_events_def reported_polled)
  qed
  moreover have "sender_round env order flag_order (p, s, w) =
      run_callbacks (run_sender env) (callbacks_of (pl_roster p) ?evs) (p, s, w1)"
    unfolding sender_round_def
    using poller_poll_ready [OF inv(1) run_sender_requests, of
        "\<lambda>fds timeout_ms (s, w). let (answer, w') = env_poll env fds timeout_ms w in (answer, s, w')"
        order "- 1" "(s, w)" r revents "(s, w1)" env flag_order] assms(4) answer
    by (simp add: same)
  ultimately show ?thesis using that answer by simp
qed

lemma sender_step_keeps:
  assumes "loop_keeps env Q"
    and "sender_step env ev st st'" and "sender_inv env st" and "Q st" and "no_wrap ev"
  shows "sender_inv env st' \<and> Q st'"
  using assms(2-)
proof (induction rule: sender_step.induct)
  case (Round order p flag_order w s st)
  have leave: "poller_do_deregister p = p"
    using Round.prems(1) by (simp add: sender_inv_def poller_ready_def poller_do_deregister_def)
  obtain cbs where cbs: "distinct cbs" "Fps_Timer \<in> set cbs \<Longrightarrow> reported (fds_to_poll order p)
      (snd (fst (env_poll env (fds_to_poll order p) (- 1) w))) (fd_num (env_fps_timer env)) In"
    "sender_round env order flag_order (p, s, w) =
      run_callbacks (run_sender env) cbs (p, s, snd (env_poll env (fds_to_poll order p) (- 1) w))"
    using sender_round_callbacks [OF Round.prems(1) Round.hyps(1) _ Round.hyps(4) [unfolded leave], of flag_order]
      Round.hyps(3) by blast
  let ?st = "(p, s, snd (env_poll env (fds_to_poll order p) (- 1) w))"
  have inv: "sender_inv env ?st" using Round.prems(1) by (simp add: sender_inv_def)
  have fid: "sender_frame_id ?st = sender_frame_id (p, s, w)" by (simp add: sender_frame_id_def)
  have run: "run_callbacks (run_sender env) cbs ?st = Some (Inr (), st)" using Round.hyps(5) cbs(3) by simp
  have "sender_frame_id ?st \<noteq> - 1" if "Fps_Timer \<in> set cbs"
    using Round.prems(3) cbs(2) [OF that] unfolding leave fid by (simp add: no_wrap_def)
  moreover have "Q ?st" using assms(1) Round.prems(2) unfolding loop_keeps_def by blast
  ultimately show ?case using run_callbacks_keep [OF assms(1) run inv _ cbs(1)] not_last_id by blast
qed

lemma sender_kept: "loop_keeps env Q \<Longrightarrow> step_invariant (sender_step env) (\<lambda>st. sender_inv env st \<and> Q st) no_wrap"
  by unfold_locales (blast dest: sender_step_keeps)

interpretation sender: step_invariant "sender_step env" "sender_inv env" no_wrap
proof -
  have "loop_keeps env (\<lambda>_. True)" by (simp add: loop_keeps_def)
  from sender_kept [OF this] show "step_invariant (sender_step env) (sender_inv env) no_wrap" by simp
qed

section \<open>The start of the loop\<close>

text \<open>The poller after the four registrations.\<close>

definition registered_poller :: "('c, 'w) sender_env \<Rightarrow> sender_callback poller" where
  "registered_poller env =
     \<lparr>pl_roster = [fd_num (env_fps_timer env) \<mapsto> [In \<mapsto> Fps_Timer],
        fd_num (env_udp_sock env) \<mapsto> [Out \<mapsto> Socket_Writable, In \<mapsto> Socket_Readable],
        fd_num (env_stats_timer env) \<mapsto> [In \<mapsto> Stats_Timer]],
      pl_active = [fd_num (env_fps_timer env) \<mapsto> flag_value In,
        fd_num (env_udp_sock env) \<mapsto> flag_value Out OR flag_value In,
        fd_num (env_stats_timer env) \<mapsto> flag_value In],
      pl_leaving = {}\<rparr>"

lemma sender_registrations_poller:
  assumes "distinct_fds env"
  shows "perform poller_request (sender_registrations env) empty_poller = (Inr (), registered_poller env)"
proof -
  have fds: "fd_num (env_fps_timer env) \<noteq> fd_num (env_udp_sock env)"
    "fd_num (env_fps_timer env) \<noteq> fd_num (env_stats_timer env)"
    "fd_num (env_udp_sock env) \<noteq> fd_num (env_stats_timer env)"
    using assms by (simp_all add: distinct_fds_def)
  then show ?thesis
    by (simp add: sender_registrations_def perform_Cons_bind bind_action_def poller_register_def
        empty_poller_def registered_poller_def fun_upd_twist)
qed

lemma registered_poller_ready:
  assumes "distinct_fds env"
  shows "poller_ready env (registered_poller env)" and "poller_requested (registered_poller env) (fd_num (env_udp_sock env)) Out"
proof -
  have fds: "fd_num (env_fps_timer env) \<noteq> fd_num (env_udp_sock env)"
    "fd_num (env_fps_timer env) \<noteq> fd_num (env_stats_timer env)"
    "fd_num (env_udp_sock env) \<noteq> fd_num (env_stats_timer env)"
    using assms by (simp_all add: distinct_fds_def)
  have "poller_inv (registered_poller env)"
  proof (rule poller_invI)
    fix fd callbacks events f
    assume "pl_roster (registered_poller env) fd = Some callbacks"
      "pl_active (registered_poller env) fd = Some events" "has_flag events f"
    then show "callbacks f \<noteq> None"
      using fds by (cases f) (auto simp: registered_poller_def has_flag_or has_flag_value split: if_splits)
  qed (auto simp: registered_poller_def split: if_splits)
  moreover have "callback_at (pl_roster (registered_poller env)) fd f = sender_roster env fd f" for fd f
    using fds by (cases f) (auto simp: callback_at_def registered_poller_def sender_roster_def)
  moreover have "poller_requested (registered_poller env) fd In" if "sender_roster env fd In \<noteq> None" for fd
    using that fds by (auto simp: poller_requested_def registered_poller_def sender_roster_def has_flag_or
        has_flag_value split: if_splits)
  ultimately show "poller_ready env (registered_poller env)"
    by (simp add: poller_ready_def) (simp add: registered_poller_def)
  show "poller_requested (registered_poller env) (fd_num (env_udp_sock env)) Out"
    using fds by (simp add: poller_requested_def registered_poller_def has_flag_or has_flag_value)
qed

lemma registered_inv:
  assumes "distinct_fds env" and "enc_send_buf (snd_encoder s) = []" and "enc_unacked (snd_encoder s) = []"
  shows "sender_inv env (registered_poller env, s, w)"
  using registered_poller_ready(1) [OF assms(1)] assms(2,3) by (simp add: sender_inv_def encoder_inv_def om_wf_def)

section \<open>Properties\<close>

text \<open>
  The event loop, from the registrations on and in any sequence of rounds, whatever the kernel reports and
  in whatever order the maps are traversed, keeps its four registrations and always listens for
  acknowledgements and for both timers; whenever datagrams are queued, the socket is monitored for being
  writable, so none is forgotten; the unacknowledged datagrams are sorted by their own sequence numbers, were
  sent for a frame encoded before and retransmitted at most three times; and no datagram queued for its first
  transmission is a duplicate of another or of an unacknowledged one. (Frame ids do not wrap.)
\<close>

lemma sender_loop_invariant:
  assumes "distinct_fds env" and "enc_send_buf (snd_encoder s) = []" and "enc_unacked (snd_encoder s) = []"
    and "perform poller_request (sender_registrations env) empty_poller = (Inr (), p)"
    and "run (sender_step env) evs (p, s, w) (p', s', w')" and "Round (Some (- 1)) \<notin> set evs"
  shows "(\<forall>fd f. callback_at (pl_roster p') fd f = sender_roster env fd f) \<and>
    (\<forall>f \<in> {env_fps_timer env, env_udp_sock env, env_stats_timer env}. poller_requested p' (fd_num f) In) \<and>
    (enc_send_buf (snd_encoder s') \<noteq> [] \<longrightarrow> poller_requested p' (fd_num (env_udp_sock env)) Out) \<and>
    om_wf (enc_unacked (snd_encoder s')) \<and>
    (\<forall>(k, d) \<in> set (enc_unacked (snd_encoder s')). k = seq_num d \<and>
       dg_frame_id d < enc_frame_id (snd_encoder s') \<and> dg_num_rtx d \<le> 3) \<and>
    (let first = map seq_num (filter (\<lambda>d. dg_num_rtx d = 0) (enc_send_buf (snd_encoder s')))
     in distinct first \<and> set first \<inter> fst ` set (enc_unacked (snd_encoder s')) = {})"
proof -
  have p: "p = registered_poller env" using sender_registrations_poller [OF assms(1)] assms(4) by simp
  have "\<forall>ev \<in> set evs. no_wrap ev"
    using assms(6) by (auto simp: no_wrap_def split: sender_event.split)
  with sender.run_preserves [OF assms(5)] registered_inv [OF assms(1,2,3)]
  have inv: "sender_inv env (p', s', w')" by (simp add: p)
  then have ready: "poller_ready env p'" and enc: "encoder_inv (snd_encoder s')"
    and out: "enc_send_buf (snd_encoder s') \<noteq> [] \<longrightarrow> poller_requested p' (fd_num (env_udp_sock env)) Out"
    by (simp_all add: sender_inv_def)
  have "\<forall>f \<in> {env_fps_timer env, env_udp_sock env, env_stats_timer env}. poller_requested p' (fd_num f) In"
    using ready by (simp add: poller_ready_def sender_roster_def)
  moreover have "\<forall>(k, d) \<in> set (enc_unacked (snd_encoder s')). k = seq_num d \<and>
       dg_frame_id d < enc_frame_id (snd_encoder s') \<and> dg_num_rtx d \<le> 3"
    using enc by (auto simp: encoder_inv_def tracked_def MAX_NUM_RTX_def)
  ultimately show ?thesis
    using ready out enc by (simp add: poller_ready_def encoder_inv_def fresh_def Let_def)
qed

text \<open>
  When the socket is writable, a prefix of the queue goes out in order: the datagrams of it that were not
  retransmissions become unacknowledged, \<open>add_unacked\<close> never finds one there already, the rest stays queued,
  and the socket is no longer monitored for being writable exactly if nothing is left. Only a failing
  \<open>send\<close> throws.
\<close>

lemma writable_sends_prefix:
  assumes "sender_inv env (p, s, w)" and "enc_send_buf (snd_encoder s) = buf"
  shows "\<exists>r p' e' w' k. on_writable env (p, s, w) = Some (r, p', s\<lparr>snd_encoder := e'\<rparr>, w') \<and> k \<le> length buf \<and>
    map seq_num (enc_send_buf e') = map seq_num (drop k buf) \<and>
    fst ` set (enc_unacked e') = fst ` set (enc_unacked (snd_encoder s)) \<union>
      seq_num ` {d \<in> set (take k buf). dg_num_rtx d = 0} \<and>
    (\<forall>er. r = Inl er \<longrightarrow> (\<exists>w1 w2 data. udp_send (env_net env) (env_udp_sock env) data w1 = (Inl er, w2))) \<and>
    (r = Inr () \<longrightarrow> (poller_requested p' (fd_num (env_udp_sock env)) Out \<longrightarrow> k < length buf) \<and>
       (k < length buf \<longrightarrow> p' = p))"
proof -
  have inv: "poller_ready env p" "encoder_inv (snd_encoder s)" using assms(1) by (simp_all add: sender_inv_def)
  obtain r enc w' where loop: "send_loop env buf (snd_encoder s, w) = (r, enc, w')" by (metis prod.collapse)
  from send_loop_result [OF inv(2) assms(2) loop] obtain k where k: "k \<le> length buf"
    "map seq_num (enc_send_buf enc) = map seq_num (drop k buf)"
    "fst ` set (enc_unacked enc) = fst ` set (enc_unacked (snd_encoder s)) \<union> seq_num ` set (fresh (take k buf))"
    "\<forall>er. r = Inl er \<longrightarrow> (\<exists>w1 w2 data. udp_send (env_net env) (env_udp_sock env) data w1 = (Inl er, w2))" by blast
  have empty: "enc_send_buf enc = [] \<longleftrightarrow> k = length buf"
    using k(1) arg_cong [OF k(2), of length] by auto
  show ?thesis
  proof (cases r)
    case (Inl er)
    then have "on_writable env (p, s, w) = Some (r, p, s\<lparr>snd_encoder := enc\<rparr>, w')"
      using loop assms(2) by (simp add: on_writable_def)
    with k Inl show ?thesis
      by (intro exI [of _ r] exI [of _ p] exI [of _ enc] exI [of _ w'] exI [of _ k]) (simp add: set_fresh)
  next
    case (Inr u)
    show ?thesis
    proof (cases "enc_send_buf enc = []")
      case True
      obtain p'' where "poller_deactivate (fd_num (env_udp_sock env)) Out p = (Inr (), p'')"
        by (rule deactivate_ready [OF inv(1) writable_registered [OF inv(1)]])
      then obtain events where ev: "pl_active p (fd_num (env_udp_sock env)) = Some events"
        by (auto simp: poller_deactivate_def split: option.splits)
      let ?p = "p\<lparr>pl_active := (pl_active p)(fd_num (env_udp_sock env) \<mapsto> events AND NOT (flag_value Out))\<rparr>"
      have "on_writable env (p, s, w) = Some (r, ?p, s\<lparr>snd_encoder := enc\<rparr>, w')"
        using loop assms(2) Inr True ev by (simp add: on_writable_def poller_deactivate_def)
      moreover have "\<not> poller_requested ?p (fd_num (env_udp_sock env)) Out"
        by (simp add: poller_requested_def has_flag_and_not)
      ultimately show ?thesis
        using k True empty Inr
        by (intro exI [of _ r] exI [of _ ?p] exI [of _ enc] exI [of _ w'] exI [of _ k]) (simp add: set_fresh)
    next
      case False
      then have "on_writable env (p, s, w) = Some (r, p, s\<lparr>snd_encoder := enc\<rparr>, w')"
        using loop assms(2) Inr by (simp add: on_writable_def)
      moreover have "k < length buf" using False empty k(1) by linarith
      ultimately show ?thesis
        using k Inr
        by (intro exI [of _ r] exI [of _ p] exI [of _ enc] exI [of _ w'] exI [of _ k]) (simp add: set_fresh)
    qed
  qed
qed

text \<open>
  The period of the frame timer is a valid \<open>timespec\<close> (nanoseconds below one second) exactly for frame
  rates from 2 on: for 1 the kernel refuses it, and 0, which a receiver may request, divides by zero.
\<close>

lemma frame_interval_valid:
  "(\<exists>t. frame_interval frame_rate = Inr t \<and> tv_sec t = 0 \<and> 0 < tv_nsec t \<and> tv_nsec t < 1000000000) = (2 \<le> frame_rate)"
proof -
  let ?n = "uint frame_rate"
  have bounds: "0 \<le> ?n" "?n < 65536" using uint_bounded [of frame_rate] by simp_all
  have n: "?n = 0 \<or> ?n = 1 \<or> 2 \<le> ?n" using bounds(1) by linarith
  have two: "2 \<le> frame_rate \<longleftrightarrow> 2 \<le> ?n" by (simp add: word_le_def)
  have zero: "frame_rate = 0 \<longleftrightarrow> ?n = 0" by (simp add: uint_0_iff)
  have "0 < 1000000000 div ?n \<and> 1000000000 div ?n < 1000000000" if "2 \<le> ?n"
    using that bounds(2) by (simp add: pos_imp_zdiv_pos_iff int_div_less_self)
  moreover have "\<not> 1000000000 div ?n < 1000000000" if "?n = 1" using that by simp
  ultimately show ?thesis
    using n unfolding two frame_interval_def zero by (elim disjE) auto
qed

lemma set_target_bitrate_keeps:
  assumes "set_target_bitrate vpx bitrate e = (Inr u, e')"
  shows "enc_send_buf e' = enc_send_buf e \<and> enc_unacked e' = enc_unacked e \<and> enc_frame_id e' = enc_frame_id e \<and>
    enc_display_width e' = enc_display_width e \<and> enc_display_height e' = enc_display_height e \<and>
    enc_target_bitrate e' = bitrate"
  using assms by (auto simp: set_target_bitrate_def Let_def split: prod.splits)

lemma encoder_init_empty:
  assumes "encoder_init vpx os nprocs width height frame_rate path w = (Inr e, w')"
  shows "enc_send_buf e = [] \<and> enc_unacked e = [] \<and> enc_frame_id e = 0 \<and> enc_display_width e = width \<and>
    enc_display_height e = height"
  using assms by (auto simp: encoder_init_def Let_def split: prod.splits sum.splits if_splits)

lemma y4m_open_record:
  assumes "y4m_open os path width height loop w = Some (Inr v, w')"
  shows "y4m_width v = width \<and> y4m_height v = height \<and> y4m_loop v = loop"
  using assms by (auto simp: y4m_open_def split: prod.splits sum.splits option.splits)

text \<open>
  If the setup succeeds, the parts of the sender agree: the encoder, the video and the image all have the
  requested dimensions, the encoder the requested bitrate and nothing queued or unacknowledged, the video is
  looped over, and the frame rate is not 0.
\<close>

lemma sender_setup_agrees:
  assumes "sender_setup os tm vpx nprocs img_alloc cfg y4m_path config udp_sock w =
    Some (Inr (s, fps_timer, stats_timer), w')"
  shows "enc_send_buf (snd_encoder s) = [] \<and> enc_unacked (snd_encoder s) = [] \<and> enc_frame_id (snd_encoder s) = 0 \<and>
    enc_target_bitrate (snd_encoder s) = cfg_target_bitrate config \<and>
    enc_display_width (snd_encoder s) = cfg_width config \<and> enc_display_height (snd_encoder s) = cfg_height config \<and>
    y4m_width (snd_input s) = cfg_width config \<and> y4m_height (snd_input s) = cfg_height config \<and>
    y4m_loop (snd_input s) \<and>
    raw_display_width (snd_image s) = cfg_width config \<and> raw_display_height (snd_image s) = cfg_height config \<and>
    cfg_frame_rate config \<noteq> 0"
proof -
  from assms obtain v e w1 w2 w3 t where
    v: "y4m_open os y4m_path (cfg_width config) (cfg_height config) True w1 = Some (Inr v, w2)"
    and e: "encoder_init vpx os nprocs (cfg_width config) (cfg_height config) (cfg_frame_rate config)
      (sc_output_path cfg) w2 = (Inr e, w3)"
    and ok: "fst (set_target_bitrate vpx (cfg_target_bitrate config) e) = Inr ()"
    and t: "frame_interval (cfg_frame_rate config) = Inr t"
    and s: "s = \<lparr>snd_encoder = set_verbose (sc_verbose cfg)
      (snd (set_target_bitrate vpx (cfg_target_bitrate config) e)), snd_input = v,
      snd_image = raw_image_alloc img_alloc (cfg_width config) (cfg_height config)\<rparr>"
    unfolding sender_setup_def
    by (auto simp: bind_process_Inr_iff total_def return_action_def bind_result_Inr_iff split_beta)
  obtain e1 where e1: "set_target_bitrate vpx (cfg_target_bitrate config) e = (Inr (), e1)"
    using ok by (metis prod.collapse)
  have "cfg_frame_rate config \<noteq> 0" using t by (auto simp: frame_interval_def)
  then show ?thesis
    using y4m_open_record [OF v] encoder_init_empty [OF e] set_target_bitrate_keeps [OF e1]
    by (simp add: s e1 set_verbose_def raw_image_alloc_def)
qed

text \<open>Datagrams that arrive one after the other, each with the address it came from.\<close>

fun arrive :: "'w net \<Rightarrow> file_descriptor \<Rightarrow> (address \<times> bytes) list \<Rightarrow> 'w \<Rightarrow> 'w option" where
  "arrive net f [] w = Some w"
| "arrive net f ((addr, data) # ms) w =
     (case udp_recvfrom net f w of
        (Inr (addr', Some data'), w') \<Rightarrow> if addr' = addr \<and> data' = data then arrive net f ms w' else None
      | _ \<Rightarrow> None)"

text \<open>
  The sender waits for the first configuration message, whoever sends it: datagrams before it that are
  empty or of another type are skipped. (An acknowledgement or configuration that is cut short is not among
  them: parsing it throws, which ends the program.)
\<close>

lemma recv_config_skips_others:
  assumes "arrive net f (ms @ [(peer, config_serialize_to_string config)]) w = Some w'"
    and "\<forall>(addr, data) \<in> set ms. msg_parse_from_string data = Inr None \<or>
      (\<exists>ack. msg_parse_from_string data = Inr (Some (AckMsg ack)))"
  shows "recv_config_msg net f w = Some (Inr (peer, config), w')"
  using assms
proof (induction ms arbitrary: w)
  case Nil
  then have "udp_recvfrom net f w = (Inr (peer, Some (config_serialize_to_string config)), w')"
    by (auto split: prod.splits sum.splits option.splits if_splits)
  then show ?case using config_roundtrip [of config "[]"] by (subst recv_config_msg.simps) simp
next
  case (Cons m ms)
  obtain addr data where m: "m = (addr, data)" by (cases m)
  from Cons.prems(1) obtain w1 where w1: "udp_recvfrom net f w = (Inr (addr, Some data), w1)"
    "arrive net f (ms @ [(peer, config_serialize_to_string config)]) w1 = Some w'"
    by (auto simp: m split: prod.splits sum.splits option.splits if_splits)
  have "recv_config_msg net f w1 = Some (Inr (peer, config), w')" using Cons.IH [OF w1(2)] Cons.prems(2) by simp
  moreover have "MSG_ACK \<noteq> MSG_CONFIG" by (simp add: MSG_ACK_def MSG_CONFIG_def)
  ultimately show ?case
    using w1(1) Cons.prems(2) by (subst recv_config_msg.simps) (auto simp: m)
qed

section \<open>Witnesses\<close>

text \<open>
  A sender on the network of \<open>list_net\<close>, whose kernel reports that the socket is writable, with timers and
  files that cannot be read.
\<close>

definition demo_env :: "(cx_packet list, bytes list \<times> bytes list) sender_env" where
  "demo_env = \<lparr>env_vpx = scripted_vpx, env_os = idle_os, env_net = list_net,
     env_poll = (\<lambda>fds timeout_ms w. ((1, map (\<lambda>(fd, events). if fd = 4 then 4 else 0) fds), w)),
     env_max_payload = 1455, env_fps_timer = \<lparr>fd_num = 10, fd_eof = False\<rparr>,
     env_udp_sock = \<lparr>fd_num = 4, fd_eof = False\<rparr>, env_stats_timer = \<lparr>fd_num = 11, fd_eof = False\<rparr>,
     env_now = (\<lambda>w. (5000, w)),
     env_encode_times = (\<lambda>w. (\<lparr>ts_generation = 0, ts_now = 0, ts_encode_ms = 0, ts_encoded = 0\<rparr>, w))\<rparr>"

definition demo_sender :: "cx_packet list sender" where
  "demo_sender = \<lparr>snd_encoder = scripted_encoder [], snd_input = tiny_video, snd_image = tiny_image\<rparr>"

lemma demo_distinct: "distinct_fds demo_env"
  by (simp add: distinct_fds_def demo_env_def)

lemma demo_empty: "enc_send_buf (snd_encoder demo_sender) = []" "enc_unacked (snd_encoder demo_sender) = []"
  by (simp_all add: demo_sender_def scripted_encoder_def)

definition queued_sender :: "cx_packet list sender" where
  "queued_sender = demo_sender\<lparr>snd_encoder := (scripted_encoder [])\<lparr>enc_send_buf := [make_datagram 5 KEY 0 1 [1]]\<rparr>\<rparr>"

lemma writable_sends_prefix_witness:
  "\<exists>r p' e' w' k. on_writable demo_env (registered_poller demo_env, queued_sender, [], []) =
      Some (r, p', queued_sender\<lparr>snd_encoder := e'\<rparr>, w') \<and> k \<le> (1::nat) \<and>
    (r = Inr () \<longrightarrow> (poller_requested p' 4 Out \<longrightarrow> k < 1))"
proof -
  have "encoder_inv (snd_encoder queued_sender)"
    by (simp add: queued_sender_def demo_sender_def scripted_encoder_def encoder_inv_def om_wf_def tracked_def
        make_datagram_def new_datagram_def MAX_NUM_RTX_def)
  then have "sender_inv demo_env (registered_poller demo_env, queued_sender, [], [])"
    using registered_poller_ready [OF demo_distinct] by (simp add: sender_inv_def)
  note spec = writable_sends_prefix [OF this refl]
  have "length (enc_send_buf (snd_encoder queued_sender)) = 1" "fd_num (env_udp_sock demo_env) = 4"
    by (simp_all add: queued_sender_def demo_env_def)
  from spec obtain r p' e' w' k where ran:
      "on_writable demo_env (registered_poller demo_env, queued_sender, [], []) =
        Some (r, p', queued_sender\<lparr>snd_encoder := e'\<rparr>, w')"
    and sent: "k \<le> length (enc_send_buf (snd_encoder queued_sender))"
    and writable: "r = Inr () \<longrightarrow> (poller_requested p' (fd_num (env_udp_sock demo_env)) Out \<longrightarrow>
        k < length (enc_send_buf (snd_encoder queued_sender))) \<and>
      (k < length (enc_send_buf (snd_encoder queued_sender)) \<longrightarrow> p' = registered_poller demo_env)"
    by (elim exE conjE) (rule that)
  from sent writable have "k \<le> 1 \<and> (r = Inr () \<longrightarrow> (poller_requested p' 4 Out \<longrightarrow> k < 1))"
    by (simp add: queued_sender_def demo_env_def)
  with ran show ?thesis by blast
qed

definition demo_config :: config_msg where
  "demo_config = \<lparr>cfg_width = 2, cfg_height = 2, cfg_frame_rate = 30, cfg_target_bitrate = 500\<rparr>"

end
