(* ===== verification/Frame.thy ===== *)
theory Frame
  imports Protocol
begin

text \<open>
  The model of class \<open>Frame\<close> of \<open>src/app/decoder.hh\<close> and \<open>decoder.cc\<close>: the receiver's view of one
  video frame, a vector with a slot per fragment, filled in whatever order the datagrams arrive.
\<close>

section \<open>State and operations\<close>

record frame =
  frm_id :: u32
  frm_type :: frame_type
  frm_frags :: "datagram option list"
  frm_null_frags :: u32
  frm_frame_size :: nat

definition frame_new :: "u32 \<Rightarrow> frame_type \<Rightarrow> u16 \<Rightarrow> frame result" where
  "frame_new frame_id frame_type frag_cnt =
     (if frag_cnt = 0 then Inl (Runtime_Error ''frame cannot have zero fragments'')
      else Inr \<lparr>frm_id = frame_id, frm_type = frame_type,
        frm_frags = replicate (unat frag_cnt) None, frm_null_frags = ucast frag_cnt,
        frm_frame_size = 0\<rparr>)"

text \<open>\<open>vector::at\<close> and \<open>optional::value\<close>, with their exceptions.\<close>

definition vector_at :: "'a list \<Rightarrow> nat \<Rightarrow> 'a result" where
  "vector_at xs i = (if i < length xs then Inr (xs ! i) else Inl (Out_Of_Range ''vector::at''))"

definition optional_value :: "'a option \<Rightarrow> 'a result" where
  "optional_value x = (case x of None \<Rightarrow> Inl Bad_Optional_Access | Some v \<Rightarrow> Inr v)"

definition has_frag :: "u16 \<Rightarrow> frame \<Rightarrow> bool result" where
  "has_frag frag_id f =
     bind_result (vector_at (frm_frags f) (unat frag_id)) (\<lambda>x. Inr (x \<noteq> None))"

definition get_frag :: "u16 \<Rightarrow> frame \<Rightarrow> datagram result" where
  "get_frag frag_id f = bind_result (vector_at (frm_frags f) (unat frag_id)) optional_value"

definition frame_complete :: "frame \<Rightarrow> bool" where
  "frame_complete f = (frm_null_frags f = 0)"

definition frame_size :: "frame \<Rightarrow> nat option" where
  "frame_size f = (if \<not> frame_complete f then None else Some (frm_frame_size f))"

definition validate_datagram :: "datagram \<Rightarrow> frame \<Rightarrow> unit result" where
  "validate_datagram datagram f =
     (if dg_frame_id datagram \<noteq> frm_id f \<or>
         dg_frame_type datagram \<noteq> frm_type f \<or>
         unat (dg_frag_id datagram) \<ge> length (frm_frags f) \<or>
         unat (dg_frag_cnt datagram) \<noteq> length (frm_frags f)
      then Inl (Runtime_Error ''unable to insert an incompatible datagram'')
      else Inr ())"

text \<open>The two overloads differ in whether the datagram is copied or moved into the slot.\<close>

definition insert_frag :: "datagram \<Rightarrow> (frame, unit) action" where
  "insert_frag datagram f =
     (case validate_datagram datagram f of
        Inl e \<Rightarrow> (Inl e, f)
      | Inr _ \<Rightarrow>
          (Inr (),
           if frm_frags f ! unat (dg_frag_id datagram) = None
           then f\<lparr>frm_frame_size := frm_frame_size f + length (dg_payload datagram),
                  frm_null_frags := frm_null_frags f - 1,
                  frm_frags := (frm_frags f)[unat (dg_frag_id datagram) := Some datagram]\<rparr>
           else f))"

text \<open>A frame moved from: the vector is empty, the other members are copied.\<close>

definition moved_from :: "frame \<Rightarrow> frame" where
  "moved_from f = f\<lparr>frm_frags := []\<rparr>"

section \<open>The invariant\<close>

definition frag_bytes :: "datagram option \<Rightarrow> bytes" where
  "frag_bytes x = (case x of None \<Rightarrow> [] | Some d \<Rightarrow> dg_payload d)"

definition belongs :: "datagram \<Rightarrow> frame \<Rightarrow> bool" where
  "belongs d f =
     (dg_frame_id d = frm_id f \<and> dg_frame_type d = frm_type f \<and>
      unat (dg_frag_id d) < length (frm_frags f) \<and> unat (dg_frag_cnt d) = length (frm_frags f))"

definition frame_inv :: "frame \<Rightarrow> bool" where
  "frame_inv f =
     (0 < length (frm_frags f) \<and> length (frm_frags f) < 2 ^ 16 \<and>
      unat (frm_null_frags f) = length (filter (\<lambda>x. x = None) (frm_frags f)) \<and>
      frm_frame_size f = sum_list (map (\<lambda>x. length (frag_bytes x)) (frm_frags f)) \<and>
      (\<forall>i < length (frm_frags f). \<forall>d. frm_frags f ! i = Some d \<longrightarrow>
         belongs d f \<and> unat (dg_frag_id d) = i))"

lemma validate_iff: "validate_datagram d f = Inr () \<longleftrightarrow> belongs d f"
  by (auto simp: validate_datagram_def belongs_def)

lemma validate_fails:
  "\<not> belongs d f \<Longrightarrow>
     validate_datagram d f = Inl (Runtime_Error ''unable to insert an incompatible datagram'')"
  by (auto simp: validate_datagram_def belongs_def)

lemma insert_frag_cases:
  "insert_frag d f =
    (if \<not> belongs d f then (Inl (Runtime_Error ''unable to insert an incompatible datagram''), f)
     else if frm_frags f ! unat (dg_frag_id d) \<noteq> None then (Inr (), f)
     else (Inr (), f\<lparr>frm_frame_size := frm_frame_size f + length (dg_payload d),
        frm_null_frags := frm_null_frags f - 1,
        frm_frags := (frm_frags f)[unat (dg_frag_id d) := Some d]\<rparr>))"
  using validate_iff [of d f] validate_fails [of d f] by (auto simp: insert_frag_def)

lemma count_None_update:
  "i < length xs \<Longrightarrow> xs ! i = None \<Longrightarrow>
    length (filter (\<lambda>x. x = None) xs) = Suc (length (filter (\<lambda>x. x = None) (xs[i := Some d])))"
  by (induction xs arbitrary: i) (auto simp: nth_Cons split: nat.splits)

lemma sum_update:
  "i < length xs \<Longrightarrow> xs ! i = None \<Longrightarrow>
    sum_list (map (\<lambda>x. length (frag_bytes x)) (xs[i := Some d])) =
    sum_list (map (\<lambda>x. length (frag_bytes x)) xs) + length (dg_payload d)"
  by (induction xs arbitrary: i) (auto simp: nth_Cons frag_bytes_def split: nat.splits)

lemma frame_new_inv [inv_intros]:
  assumes "frame_new i t n = Inr f"
  shows "frame_inv f" and "frm_id f = i" and "frm_type f = t" and "length (frm_frags f) = unat n"
    and "frm_frags f = replicate (unat n) None"
proof -
  have n: "n \<noteq> 0" "unat n < 2 ^ 16"
    using assms unsigned_less [of n] by (auto simp: frame_new_def split: if_splits)
  have f: "f = \<lparr>frm_id = i, frm_type = t, frm_frags = replicate (unat n) None,
      frm_null_frags = ucast n, frm_frame_size = 0\<rparr>"
    using assms n by (simp add: frame_new_def)
  have "unat (ucast n :: u32) = unat n" using n(2) by (simp add: unsigned_ucast_eq take_bit_eq_mod)
  with n show "frame_inv f"
    by (auto simp: f frame_inv_def frag_bytes_def unat_gt_0 sum_list_0 o_def map_replicate_const)
qed (use assms in \<open>auto simp: frame_new_def split: if_splits\<close>)

lemma insert_frag_inv [inv_intros]:
  assumes "frame_inv f"
  shows "frame_inv (snd (insert_frag d f))"
proof (cases "belongs d f \<and> frm_frags f ! unat (dg_frag_id d) = None")
  case True
  let ?i = "unat (dg_frag_id d)"
  let ?xs = "frm_frags f"
  let ?f = "f\<lparr>frm_frame_size := frm_frame_size f + length (dg_payload d),
     frm_null_frags := frm_null_frags f - 1, frm_frags := ?xs[?i := Some d]\<rparr>"
  have i: "?i < length ?xs" using True by (simp add: belongs_def)
  note count = count_None_update [OF i, of d]
  have nulls: "unat (frm_null_frags f) = length (filter (\<lambda>x. x = None) ?xs)"
    using assms by (simp add: frame_inv_def)
  then have "frm_null_frags f \<noteq> 0" using count True by auto
  then have "unat (frm_null_frags f - 1) = length (filter (\<lambda>x. x = None) (?xs[?i := Some d]))"
    using nulls count True by (simp add: unat_minus_one)
  moreover have "belongs e ?f = belongs e f" for e by (simp add: belongs_def)
  ultimately have "frame_inv ?f"
    using assms True i sum_update [OF i, of d] by (auto simp: frame_inv_def nth_list_update)
  with True show ?thesis by (simp add: insert_frag_cases)
next
  case False
  with assms show ?thesis by (auto simp: insert_frag_cases)
qed

lemma insert_frag_keeps:
  "frm_id (snd (insert_frag d f)) = frm_id f" "frm_type (snd (insert_frag d f)) = frm_type f"
  "length (frm_frags (snd (insert_frag d f))) = length (frm_frags f)"
  "belongs e (snd (insert_frag d f)) = belongs e f"
  by (auto simp: insert_frag_cases belongs_def)

lemma complete_iff:
  assumes "frame_inv f"
  shows "frame_complete f \<longleftrightarrow> None \<notin> set (frm_frags f)"
proof -
  have "filter (\<lambda>x. x = None) xs = [] \<longleftrightarrow> None \<notin> set xs" for xs :: "datagram option list"
    by (induction xs) auto
  moreover have "frame_complete f \<longleftrightarrow> unat (frm_null_frags f) = 0" by (simp add: frame_complete_def unat_eq_0)
  moreover have "unat (frm_null_frags f) = length (filter (\<lambda>x. x = None) (frm_frags f))"
    using assms by (simp add: frame_inv_def)
  ultimately show ?thesis by simp
qed

section \<open>Assembling a frame\<close>

definition insert_all :: "datagram list \<Rightarrow> frame \<Rightarrow> frame" where
  "insert_all ds f = fold (\<lambda>d f. snd (insert_frag d f)) ds f"

text \<open>The bytes of a frame: its payloads in the order of the slots.\<close>

definition frame_bytes :: "frame \<Rightarrow> bytes" where
  "frame_bytes f = concat (map frag_bytes (frm_frags f))"

lemma insert_all_simps [simp]:
  "insert_all [] f = f"
  "insert_all (d # ds) f = insert_all ds (snd (insert_frag d f))"
  by (simp_all add: insert_all_def)

lemma insert_all_inv: "frame_inv f \<Longrightarrow> frame_inv (insert_all ds f)"
  by (induction ds arbitrary: f) (simp_all add: insert_frag_inv)

lemma insert_all_keeps:
  "length (frm_frags (insert_all ds f)) = length (frm_frags f)"
  "belongs e (insert_all ds f) = belongs e f"
  "frm_id (insert_all ds f) = frm_id f" "frm_type (insert_all ds f) = frm_type f"
  by (induction ds arbitrary: f) (simp_all add: insert_frag_keeps)

lemma insert_all_slot:
  assumes "\<forall>d \<in> set ds. belongs d f" and "k < length (frm_frags f)"
  shows "frm_frags (insert_all ds f) ! k =
    (case frm_frags f ! k of Some d \<Rightarrow> Some d | None \<Rightarrow> find (\<lambda>d. unat (dg_frag_id d) = k) ds)"
  using assms
proof (induction ds arbitrary: f)
  case (Cons d ds)
  let ?f = "snd (insert_frag d f)"
  have "belongs d f" using Cons.prems(1) by simp
  then have "frm_frags ?f ! k = (if unat (dg_frag_id d) = k \<and> frm_frags f ! k = None then Some d
      else frm_frags f ! k)"
    using Cons.prems(2) by (auto simp: insert_frag_cases belongs_def nth_list_update)
  moreover have "frm_frags (insert_all ds ?f) ! k = (case frm_frags ?f ! k of Some d \<Rightarrow> Some d
      | None \<Rightarrow> find (\<lambda>d. unat (dg_frag_id d) = k) ds)"
    by (rule Cons.IH) (use Cons.prems in \<open>simp_all add: insert_frag_keeps\<close>)
  ultimately show ?case by (auto split: option.split)
qed (simp split: option.split)

lemma new_frame_slot:
  assumes "frame_new i t n = Inr f" and "\<forall>d \<in> set ds. belongs d f" and "k < unat n"
  shows "frm_frags (insert_all ds f) ! k = find (\<lambda>d. unat (dg_frag_id d) = k) ds"
  using insert_all_slot [OF assms(2), of k] assms(3) frame_new_inv(4,5) [OF assms(1)] by simp

lemma assembled_complete_iff:
  assumes "frame_new i t n = Inr f" and "\<forall>d \<in> set ds. belongs d f"
  shows "frame_complete (insert_all ds f) \<longleftrightarrow> {..<unat n} \<subseteq> (\<lambda>d. unat (dg_frag_id d)) ` set ds"
proof -
  have len: "length (frm_frags (insert_all ds f)) = unat n"
    using frame_new_inv(4) [OF assms(1)] by (simp add: insert_all_keeps)
  have "frame_complete (insert_all ds f) \<longleftrightarrow> (\<forall>k < unat n. frm_frags (insert_all ds f) ! k \<noteq> None)"
    using complete_iff [OF insert_all_inv [OF frame_new_inv(1) [OF assms(1)]], of ds] len
    by (metis in_set_conv_nth)
  also have "\<dots> \<longleftrightarrow> (\<forall>k < unat n. find (\<lambda>d. unat (dg_frag_id d) = k) ds \<noteq> None)"
    using new_frame_slot [OF assms] by simp
  also have "\<dots> \<longleftrightarrow> {..<unat n} \<subseteq> (\<lambda>d. unat (dg_frag_id d)) ` set ds"
  proof -
    have "find (\<lambda>d. unat (dg_frag_id d) = k) ds \<noteq> None \<longleftrightarrow> k \<in> (\<lambda>d. unat (dg_frag_id d)) ` set ds" for k
      unfolding find_None_iff by (auto simp: image_iff)
    then show ?thesis by (auto simp: subset_iff)
  qed
  finally show ?thesis .
qed

section \<open>Properties\<close>

text \<open>
  C14: whatever sequence of datagrams of a frame arrives, in any order and with any duplicates, no
  insertion fails; each slot holds the first copy that arrived of its fragment; the frame is complete
  exactly when every fragment has arrived at least once; and \<open>frame_size\<close> is then the number of bytes
  of the payloads, and nothing before.
\<close>

theorem frame_assembly:
  assumes "frame_new i t n = Inr f"
    and "\<forall>d \<in> set ds. dg_frame_id d = i \<and> dg_frame_type d = t \<and> dg_frag_cnt d = n \<and> dg_frag_id d < n"
  shows "let f' = fold (\<lambda>d f. snd (insert_frag d f)) ds f in
    (\<forall>d \<in> set ds. fst (insert_frag d f') = Inr ()) \<and>
    frm_frags f' = map (\<lambda>k. find (\<lambda>d. unat (dg_frag_id d) = k) ds) [0..<unat n] \<and>
    frame_complete f' = ({..<unat n} \<subseteq> (\<lambda>d. unat (dg_frag_id d)) ` set ds) \<and>
    frame_size f' = (if frame_complete f' then Some (length (frame_bytes f')) else None)"
proof -
  let ?f = "insert_all ds f"
  note new = frame_new_inv [OF assms(1)]
  have belongs: "\<forall>d \<in> set ds. belongs d f"
    using assms(2) new by (auto simp: belongs_def word_less_nat_alt)
  have ok: "\<forall>d \<in> set ds. fst (insert_frag d ?f) = Inr ()"
    using belongs by (simp add: insert_frag_cases insert_all_keeps)
  have slots: "frm_frags ?f = map (\<lambda>k. find (\<lambda>d. unat (dg_frag_id d) = k) ds) [0..<unat n]"
    using new_frame_slot [OF assms(1) belongs] new(4)
    by (intro nth_equalityI) (simp_all add: insert_all_keeps)
  have "frm_frame_size ?f = length (frame_bytes ?f)"
    using insert_all_inv [OF new(1), of ds]
    by (simp add: frame_inv_def frame_bytes_def length_concat o_def)
  then show ?thesis
    using ok slots assembled_complete_iff [OF assms(1) belongs]
    by (simp add: Let_def insert_all_def [symmetric] frame_size_def)
qed

theorem frame_assembly_witness:
  "let a = make_datagram 3 KEY 0 2 [1, 2]; b = make_datagram 3 KEY 1 2 [7];
       f0 = \<lparr>frm_id = 3, frm_type = KEY, frm_frags = [None, None], frm_null_frags = 2, frm_frame_size = 0\<rparr>
   in frame_complete (fold (\<lambda>d f. snd (insert_frag d f)) [b, a, b] f0) \<and>
      frm_frags (fold (\<lambda>d f. snd (insert_frag d f)) [b, a, b] f0) = [Some a, Some b]"
proof -
  let ?a = "make_datagram 3 KEY 0 2 [1, 2]" and ?b = "make_datagram 3 KEY 1 2 [7]"
  let ?f0 = "\<lparr>frm_id = 3, frm_type = KEY, frm_frags = [None, None], frm_null_frags = 2, frm_frame_size = 0\<rparr>"
  have "frame_new 3 KEY 2 = Inr ?f0"
  proof -
    have "replicate (2 :: nat) None = [None, None]" by (simp add: numeral_2_eq_2)
    then show ?thesis by (simp add: frame_new_def)
  qed
  moreover have "\<forall>d \<in> set [?b, ?a, ?b]. dg_frame_id d = 3 \<and> dg_frame_type d = KEY \<and>
      dg_frag_cnt d = 2 \<and> dg_frag_id d < 2"
    by (simp add: make_datagram_def)
  ultimately show ?thesis
    using frame_assembly [of 3 KEY 2 ?f0 "[?b, ?a, ?b]"]
    by (simp add: Let_def make_datagram_def upt_rec lessThan_nat_numeral lessThan_Suc insert_commute)
qed

text \<open>
  A datagram of another frame, of another type, with another fragment count or with a fragment
  id out of range is refused with an exception and leaves the frame as it was; \<open>has_frag\<close> and
  \<open>get_frag\<close> throw instead of reading outside of the vector or from an empty slot.
\<close>

lemma frame_access_errors:
  "(\<not> (dg_frame_id d = frm_id f \<and> dg_frame_type d = frm_type f \<and>
     unat (dg_frag_id d) < length (frm_frags f) \<and> unat (dg_frag_cnt d) = length (frm_frags f))) =
   (insert_frag d f = (Inl (Runtime_Error ''unable to insert an incompatible datagram''), f)) \<and>
   (case has_frag k f of
      Inl e \<Rightarrow> length (frm_frags f) \<le> unat k \<and> get_frag k f = Inl e
    | Inr present \<Rightarrow> unat k < length (frm_frags f) \<and>
        (case get_frag k f of
           Inl e \<Rightarrow> e = Bad_Optional_Access \<and> \<not> present
         | Inr d' \<Rightarrow> present \<and> frm_frags f ! unat k = Some d'))"
proof (intro conjI)
  show "(\<not> (dg_frame_id d = frm_id f \<and> dg_frame_type d = frm_type f \<and>
     unat (dg_frag_id d) < length (frm_frags f) \<and> unat (dg_frag_cnt d) = length (frm_frags f))) =
   (insert_frag d f = (Inl (Runtime_Error ''unable to insert an incompatible datagram''), f))"
    by (auto simp: insert_frag_cases belongs_def)
qed (auto simp: has_frag_def get_frag_def vector_at_def optional_value_def split: option.split)

end
