(* ===== verification/Decoder.thy ===== *)
theory Decoder
  imports Frame Ordered_Map File_Descriptor Conversion Encoder
begin

text \<open>
  The model of class \<open>Decoder\<close> of \<open>src/app/decoder.hh\<close> and \<open>decoder.cc\<close>, as the main thread runs it:
  the buffer of frames being assembled, the next frame to decode, recovery by skipping to a complete
  key frame, and the dispatch of decodable frames to the worker thread, or to the output file when
  there is none. Times of the steady clock are nanoseconds.
\<close>

section \<open>State\<close>

definition DECODE_DISPLAY :: int where "DECODE_DISPLAY = 0"
definition DECODE_ONLY :: int where "DECODE_ONLY = 1"
definition NO_DECODE_DISPLAY :: int where "NO_DECODE_DISPLAY = 2"

record decoder =
  dec_display_width :: u16
  dec_display_height :: u16
  dec_lazy_level :: int
  dec_output_fd :: "file_descriptor option"
  dec_epoch :: int
  dec_verbose :: bool
  dec_next_frame :: u32
  dec_frame_buf :: "(u32, frame) omap"
  dec_num_decodable_frames :: u32
  dec_total_decodable_frame_size :: nat
  dec_last_stats_time :: int
  dec_shared_queue :: "frame list"
  dec_worker :: bool

text \<open>
  The constructor; \<open>dec_worker\<close> tells that the worker thread was started. When it throws after the
  output file was opened, the member is destroyed.
\<close>

definition decoder_init :: "'w os \<Rightarrow> int \<Rightarrow> u16 \<Rightarrow> u16 \<Rightarrow> int \<Rightarrow> bytes \<Rightarrow> 'w \<Rightarrow> decoder result \<times> 'w" where
  "decoder_init os now width height lazy_level output_path w =
     (if lazy_level < DECODE_DISPLAY \<or> lazy_level > NO_DECODE_DISPLAY
      then (Inl (Runtime_Error ''Invalid lazy level''), w)
      else
        let (out, w1) =
          (if output_path = [] then (Inr None, w)
           else case open_file os output_path [''O_WRONLY'', ''O_CREAT'', ''O_TRUNC''] w of
             (Inl e, w') \<Rightarrow> (Inl e, w') | (Inr f, w') \<Rightarrow> (Inr (Some f), w'))
        in (case out of
              Inl e \<Rightarrow> Inl e
            | Inr output_fd \<Rightarrow> Inr \<lparr>dec_display_width = width, dec_display_height = height,
                dec_lazy_level = lazy_level, dec_output_fd = output_fd, dec_epoch = now,
                dec_verbose = False, dec_next_frame = 0, dec_frame_buf = [],
                dec_num_decodable_frames = 0, dec_total_decodable_frame_size = 0,
                dec_last_stats_time = now, dec_shared_queue = [],
                dec_worker = (lazy_level \<le> DECODE_ONLY)\<rparr>, w1))"

definition decoder_set_verbose :: "bool \<Rightarrow> decoder \<Rightarrow> decoder" where
  "decoder_set_verbose verbose d = d\<lparr>dec_verbose := verbose\<rparr>"

section \<open>Adding datagrams\<close>

definition add_datagram_common :: "datagram \<Rightarrow> (decoder, bool) action" where
  "add_datagram_common datagram d =
     (let frame_id = dg_frame_id datagram;
          frame_type = dg_frame_type datagram;
          frag_cnt = dg_frag_cnt datagram
      in if frame_id < dec_next_frame d then (Inr False, d)
         else if om_find (dec_frame_buf d) frame_id = None then
           (case frame_new frame_id frame_type frag_cnt of
              Inl e \<Rightarrow> (Inl e, d)
            | Inr f \<Rightarrow> (Inr True, d\<lparr>dec_frame_buf := fst (om_emplace frame_id f (dec_frame_buf d))\<rparr>))
         else (Inr True, d))"

text \<open>\<open>map::at\<close>, and the assignment through the reference it returns.\<close>

definition map_at :: "('k, 'v) omap \<Rightarrow> 'k \<Rightarrow> 'v result" where
  "map_at m k = (case om_find m k of None \<Rightarrow> Inl (Out_Of_Range ''map::at'') | Some v \<Rightarrow> Inr v)"

definition map_set :: "'k \<Rightarrow> 'v \<Rightarrow> ('k, 'v) omap \<Rightarrow> ('k, 'v) omap" where
  "map_set k v m = map (\<lambda>(k', v'). (k', if k' = k then v else v')) m"

text \<open>The two overloads differ in whether the datagram is copied or moved into the frame.\<close>

definition add_datagram :: "datagram \<Rightarrow> (decoder, unit) action" where
  "add_datagram datagram =
     bind_action (add_datagram_common datagram) (\<lambda>go d.
       if \<not> go then (Inr (), d)
       else case map_at (dec_frame_buf d) (dg_frame_id datagram) of
         Inl e \<Rightarrow> (Inl e, d)
       | Inr f \<Rightarrow>
           let (r, f') = insert_frag datagram f
           in (r, d\<lparr>dec_frame_buf := map_set (dg_frame_id datagram) f' (dec_frame_buf d)\<rparr>))"

section \<open>Moving on\<close>

fun clean_up_to :: "u32 \<Rightarrow> (u32, frame) omap \<Rightarrow> (u32, frame) omap" where
  "clean_up_to frontier [] = []"
| "clean_up_to frontier ((frame_id, f) # m) =
     (if frame_id \<ge> frontier then (frame_id, f) # m else clean_up_to frontier m)"

definition advance_next_frame :: "u32 \<Rightarrow> decoder \<Rightarrow> decoder" where
  "advance_next_frame n d =
     (let next_frame = dec_next_frame d + n
      in d\<lparr>dec_next_frame := next_frame, dec_frame_buf := clean_up_to next_frame (dec_frame_buf d)\<rparr>)"

text \<open>The first complete key frame of a range of the map, which the code walks backwards.\<close>

fun find_key_frame :: "(u32, frame) omap \<Rightarrow> u32 option" where
  "find_key_frame [] = None"
| "find_key_frame ((frame_id, f) # rev_range) =
     (if frm_type f = KEY \<and> frame_complete f then Some frame_id else find_key_frame rev_range)"

definition skip_to_key_frame :: "(decoder, bool) action" where
  "skip_to_key_frame d =
     (case find_key_frame (rev (dec_frame_buf d)) of
        None \<Rightarrow> (Inr False, d)
      | Some frame_id \<Rightarrow>
          if \<not> frame_id > dec_next_frame d then (Inl (Assertion_Failed ''frame_id > next_frame_''), d)
          else
            let frame_diff = frame_id - dec_next_frame d
            in (Inr True, advance_next_frame frame_diff d))"

definition next_frame_complete :: "(decoder, bool) action" where
  "next_frame_complete d =
     (case om_find (dec_frame_buf d) (dec_next_frame d) of
        Some f \<Rightarrow> if frame_complete f then (Inr True, d) else skip_to_key_frame d
      | None \<Rightarrow> skip_to_key_frame d)"

text \<open>The statistics of the last seconds: the counters are reset once per second that passed.\<close>

function stats_loop :: "int \<Rightarrow> decoder \<Rightarrow> decoder" where
  "stats_loop stats_now d =
     (if stats_now \<ge> dec_last_stats_time d + 1000000000
      then stats_loop stats_now (d\<lparr>dec_num_decodable_frames := 0, dec_total_decodable_frame_size := 0,
        dec_last_stats_time := dec_last_stats_time d + 1000000000\<rparr>)
      else d)"
  by pat_completeness auto
termination
  by (relation "measure (\<lambda>(now, d). nat (now - dec_last_stats_time d))") auto

declare stats_loop.simps [simp del]

definition consume_next_frame :: "'w os \<Rightarrow> int \<Rightarrow> u64 \<Rightarrow> (decoder \<times> 'w, unit) action" where
  "consume_next_frame os stats_now decodable_ts = (\<lambda>(d, w).
     case map_at (dec_frame_buf d) (dec_next_frame d) of
       Inl e \<Rightarrow> (Inl e, d, w)
     | Inr f \<Rightarrow>
         if \<not> frame_complete f
         then (Inl (Runtime_Error ''next frame must be complete before consuming it''), d, w)
         else
           let d1 = d\<lparr>dec_num_decodable_frames := dec_num_decodable_frames d + 1\<rparr> in
           (case optional_value (frame_size f) of
              Inl e \<Rightarrow> (Inl e, d1, w)
            | Inr sz \<Rightarrow>
                let d2 = stats_loop stats_now (d1\<lparr>dec_total_decodable_frame_size :=
                      dec_total_decodable_frame_size d1 + sz\<rparr>)
                in if dec_lazy_level d2 \<le> DECODE_ONLY then
                     (Inr (), advance_next_frame 1 (d2\<lparr>dec_shared_queue := dec_shared_queue d2 @ [f],
                        dec_frame_buf := map_set (dec_next_frame d2) (moved_from f) (dec_frame_buf d2)\<rparr>), w)
                   else
                     (case dec_output_fd d2 of
                        None \<Rightarrow> (Inr (), advance_next_frame 1 d2, w)
                      | Some fd \<Rightarrow>
                          (case fd_write os (comma_separated [unat (dec_next_frame d2), sz,
                               unat decodable_ts]) (fd, w) of
                             (Inl e, fd', w') \<Rightarrow> (Inl e, d2\<lparr>dec_output_fd := Some fd'\<rparr>, w')
                           | (Inr _, fd', w') \<Rightarrow>
                               (Inr (), advance_next_frame 1 (d2\<lparr>dec_output_fd := Some fd'\<rparr>), w')))))"

section \<open>The invariant\<close>

text \<open>
  The buffer holds, under its id, each frame being assembled, and none before the next frame to
  decode.
\<close>

definition decoder_inv :: "decoder \<Rightarrow> bool" where
  "decoder_inv d =
     (om_wf (dec_frame_buf d) \<and>
      (\<forall>(k, f) \<in> set (dec_frame_buf d). dec_next_frame d \<le> k \<and> frm_id f = k \<and> frame_inv f))"

lemma decoder_invD:
  assumes "decoder_inv d"
  shows "om_wf (dec_frame_buf d)"
    and "om_find (dec_frame_buf d) k = Some f \<Longrightarrow> dec_next_frame d \<le> k \<and> frm_id f = k \<and> frame_inv f"
    and "(k, f) \<in> set (dec_frame_buf d) \<Longrightarrow> dec_next_frame d \<le> k \<and> frm_id f = k \<and> frame_inv f"
  using assms by (auto simp: decoder_inv_def om_find_def dest!: map_of_SomeD)

lemma decoder_inv_initial [inv_intros]:
  "decoder_init os now width height lazy path w = (Inr d, w') \<Longrightarrow> decoder_inv d"
  by (auto simp: decoder_init_def decoder_inv_def Let_def split: if_splits prod.splits sum.splits)

section \<open>Updating an entry\<close>

lemma fst_map_set: "map fst (map_set k v m) = map fst m"
  by (simp add: map_set_def case_prod_unfold)

lemma om_find_map_set_any:
  "om_find (map_set k v m) x = (if x = k then map_option (\<lambda>_. v) (om_find m k) else om_find m x)"
  by (induction m) (auto simp: map_set_def om_find_def)

lemma om_find_map_set:
  "om_find m k = Some v0 \<Longrightarrow> om_find (map_set k v m) = (om_find m)(k \<mapsto> v)"
  by (simp add: fun_eq_iff om_find_map_set_any)

lemma set_map_set:
  "(k', v') \<in> set (map_set k v m) \<Longrightarrow> k' = k \<and> v' = v \<or> k' \<noteq> k \<and> (k', v') \<in> set m"
  by (auto simp: map_set_def split: if_splits)

lemma om_wf_map_set: "om_wf (map_set k v m) = om_wf m"
  by (rule om_wf_map_values [OF fst_map_set])

section \<open>Adding a datagram\<close>

text \<open>The frame a datagram is inserted into.\<close>

definition target_frame :: "decoder \<Rightarrow> datagram \<Rightarrow> frame result" where
  "target_frame d datagram =
     (case om_find (dec_frame_buf d) (dg_frame_id datagram) of
        Some f \<Rightarrow> Inr f
      | None \<Rightarrow> frame_new (dg_frame_id datagram) (dg_frame_type datagram) (dg_frag_cnt datagram))"

lemma add_datagram_result:
  assumes "decoder_inv d"
  shows "if dg_frame_id datagram < dec_next_frame d then add_datagram datagram d = (Inr (), d)
    else case target_frame d datagram of
      Inl e \<Rightarrow> add_datagram datagram d = (Inl e, d)
    | Inr f \<Rightarrow> \<exists>m. add_datagram datagram d = (fst (insert_frag datagram f), d\<lparr>dec_frame_buf := m\<rparr>) \<and>
        om_wf m \<and> om_find m = (om_find (dec_frame_buf d))(dg_frame_id datagram \<mapsto> snd (insert_frag datagram f))"
proof -
  let ?k = "dg_frame_id datagram"
  note wf = decoder_invD(1) [OF assms]
  show ?thesis
  proof (cases "om_find (dec_frame_buf d) ?k")
    case None
    show ?thesis
    proof (cases "frame_new ?k (dg_frame_type datagram) (dg_frag_cnt datagram)")
      case (Inr f)
      let ?m = "fst (om_emplace ?k f (dec_frame_buf d))"
      have m: "om_wf ?m" "om_find ?m = (om_find (dec_frame_buf d))(?k \<mapsto> f)"
        using om.wf_emplace [OF wf, of ?k f] om.emplace_absent [OF wf None, of f] by simp_all
      then have "om_find (map_set ?k (snd (insert_frag datagram f)) ?m) =
          (om_find (dec_frame_buf d))(?k \<mapsto> snd (insert_frag datagram f))"
        using om_find_map_set [of ?m ?k f] by simp
      then show ?thesis
        using None Inr m by (auto simp: add_datagram_def add_datagram_common_def bind_action_def
            target_frame_def map_at_def om_wf_map_set split: prod.split)
    qed (use None in \<open>simp add: add_datagram_def add_datagram_common_def bind_action_def target_frame_def\<close>)
  next
    case (Some f)
    then show ?thesis
      using om_find_map_set [OF Some] wf
      by (auto simp: add_datagram_def add_datagram_common_def bind_action_def
          target_frame_def map_at_def om_wf_map_set split: prod.split)
  qed
qed

lemma target_frame_facts:
  assumes "decoder_inv d" and "target_frame d datagram = Inr f"
  shows "frame_inv f" and "frm_id f = dg_frame_id datagram"
  using assms decoder_invD(2) [OF assms(1)] frame_new_inv(1,2)
  by (auto simp: target_frame_def split: option.splits)

lemma add_datagram_inv [inv_intros]:
  assumes "decoder_inv d"
  shows "decoder_inv (snd (add_datagram datagram d))"
proof (cases "dg_frame_id datagram < dec_next_frame d")
  case True
  with assms add_datagram_result [OF assms, of datagram] show ?thesis by simp
next
  case False
  show ?thesis
  proof (cases "target_frame d datagram")
    case (Inl e)
    with False assms add_datagram_result [OF assms, of datagram] show ?thesis by simp
  next
    case (Inr f)
    note target = target_frame_facts [OF assms Inr]
    obtain m where m: "add_datagram datagram d = (fst (insert_frag datagram f), d\<lparr>dec_frame_buf := m\<rparr>)"
      "om_wf m" "om_find m = (om_find (dec_frame_buf d))(dg_frame_id datagram \<mapsto> snd (insert_frag datagram f))"
      using False Inr add_datagram_result [OF assms, of datagram] by auto
    have "dec_next_frame d \<le> k \<and> frm_id g = k \<and> frame_inv g" if "(k, g) \<in> set m" for k g
    proof -
      have "om_find m k = Some g" using that m(2) by (simp add: om.find_Some_iff)
      then show ?thesis
        using False decoder_invD(2) [OF assms] insert_frag_inv [OF target(1)] target(2)
        by (auto simp: m(3) insert_frag_keeps split: if_splits)
    qed
    with m(1,2) show ?thesis by (auto simp: decoder_inv_def)
  qed
qed

section \<open>Moving on\<close>

lemma clean_up_to_om_from: "clean_up_to frontier m = om_from frontier m"
  by (induction frontier m rule: clean_up_to.induct) (auto simp: om_from_def not_le)

lemma clean_up_to_filter:
  "om_wf m \<Longrightarrow> clean_up_to frontier m = filter (\<lambda>(k, f). frontier \<le> k) m"
  by (simp add: clean_up_to_om_from om_from_filter)

lemma advance_inv [inv_intros]:
  assumes "om_wf (dec_frame_buf d)" and "dec_next_frame d + n = k"
    and "\<And>k' f. (k', f) \<in> set (dec_frame_buf d) \<Longrightarrow> k \<le> k' \<Longrightarrow> frm_id f = k' \<and> frame_inv f"
  shows "decoder_inv (advance_next_frame n d)"
  using assms by (auto simp: advance_next_frame_def decoder_inv_def clean_up_to_filter om_wf_filter)

lemma find_key_frame_None:
  "find_key_frame m = None \<longleftrightarrow> (\<forall>(k, f) \<in> set m. \<not> (frm_type f = KEY \<and> frame_complete f))"
  by (induction m rule: find_key_frame.induct) auto

lemma find_key_frame_Some:
  assumes "find_key_frame (rev m) = Some k" and "om_wf m"
  shows "\<exists>f. (k, f) \<in> set m \<and> frm_type f = KEY \<and> frame_complete f \<and>
    (\<forall>(k', f') \<in> set m. frm_type f' = KEY \<and> frame_complete f' \<longrightarrow> k' \<le> k)"
  using assms
proof (induction m rule: rev_induct)
  case (snoc p m)
  obtain k' f' where p: "p = (k', f')" by (cases p)
  show ?case
  proof (cases "frm_type f' = KEY \<and> frame_complete f'")
    case True
    with snoc.prems show ?thesis
      by (fastforce simp: p om_wf_append intro: less_imp_le)
  next
    case False
    then have "find_key_frame (rev m) = Some k" "om_wf m"
      using snoc.prems by (auto simp: p om_wf_append)
    from snoc.IH [OF this] False show ?thesis by (auto simp: p)
  qed
qed simp

text \<open>The frame at \<open>next_frame_\<close>, when it is complete.\<close>

definition ready_frame :: "decoder \<Rightarrow> frame option" where
  "ready_frame d =
     (case om_find (dec_frame_buf d) (dec_next_frame d) of
        Some f \<Rightarrow> if frame_complete f then Some f else None
      | None \<Rightarrow> None)"

lemma next_frame_complete_cases:
  "next_frame_complete d =
     (case ready_frame d of Some f \<Rightarrow> (Inr True, d) | None \<Rightarrow> skip_to_key_frame d)"
  by (auto simp: next_frame_complete_def ready_frame_def split: option.split)

lemma advance_to:
  assumes "decoder_inv d" and "(k, f) \<in> set (dec_frame_buf d)"
  shows "advance_next_frame (k - dec_next_frame d) d =
      d\<lparr>dec_next_frame := k, dec_frame_buf := filter (\<lambda>(k', f). k \<le> k') (dec_frame_buf d)\<rparr>"
    and "decoder_inv (d\<lparr>dec_next_frame := k,
      dec_frame_buf := filter (\<lambda>(k', f). k \<le> k') (dec_frame_buf d)\<rparr>)"
proof -
  note wf = decoder_invD(1) [OF assms(1)]
  show "advance_next_frame (k - dec_next_frame d) d =
      d\<lparr>dec_next_frame := k, dec_frame_buf := filter (\<lambda>(k', f). k \<le> k') (dec_frame_buf d)\<rparr>"
    by (simp add: advance_next_frame_def Let_def clean_up_to_filter [OF wf])
  show "decoder_inv (d\<lparr>dec_next_frame := k,
      dec_frame_buf := filter (\<lambda>(k', f). k \<le> k') (dec_frame_buf d)\<rparr>)"
    using assms(1) by (auto simp: decoder_inv_def om_wf_filter)
qed

lemma skip_to_key_frame_result:
  assumes "decoder_inv d" and "ready_frame d = None"
  shows "(\<forall>(k, f) \<in> set (dec_frame_buf d). \<not> (frm_type f = KEY \<and> frame_complete f)) \<and>
      skip_to_key_frame d = (Inr False, d) \<or>
    (\<exists>k f. (k, f) \<in> set (dec_frame_buf d) \<and> frm_type f = KEY \<and> frame_complete f \<and> dec_next_frame d < k \<and>
      (\<forall>(k', f') \<in> set (dec_frame_buf d). frm_type f' = KEY \<and> frame_complete f' \<longrightarrow> k' \<le> k) \<and>
      skip_to_key_frame d = (Inr True, d\<lparr>dec_next_frame := k,
        dec_frame_buf := filter (\<lambda>(k', f). k \<le> k') (dec_frame_buf d)\<rparr>))"
proof (cases "find_key_frame (rev (dec_frame_buf d))")
  case None
  then have "\<forall>(k, f) \<in> set (dec_frame_buf d). \<not> (frm_type f = KEY \<and> frame_complete f)"
    using find_key_frame_None [of "rev (dec_frame_buf d)"] by simp
  moreover have "skip_to_key_frame d = (Inr False, d)" by (simp add: skip_to_key_frame_def None)
  ultimately show ?thesis by blast
next
  case (Some k)
  note wf = decoder_invD(1) [OF assms(1)]
  obtain f where f: "(k, f) \<in> set (dec_frame_buf d)" "frm_type f = KEY" "frame_complete f"
    "\<forall>(k', f') \<in> set (dec_frame_buf d). frm_type f' = KEY \<and> frame_complete f' \<longrightarrow> k' \<le> k"
    using find_key_frame_Some [OF Some wf] by blast
  have "om_find (dec_frame_buf d) k = Some f" using f(1) wf by (simp add: om.find_Some_iff)
  then have "k \<noteq> dec_next_frame d" using assms(2) f(3) by (auto simp: ready_frame_def)
  then have "dec_next_frame d < k" using decoder_invD(3) [OF assms(1) f(1)] by (simp add: order_less_le)
  then show ?thesis
    using f Some advance_to(1) [OF assms(1) f(1)] by (auto simp: skip_to_key_frame_def Let_def)
qed

lemma next_frame_complete_inv [inv_intros]:
  assumes "decoder_inv d" and "next_frame_complete d = (r, d')"
  shows "decoder_inv d'"
proof (cases "ready_frame d")
  case None
  from skip_to_key_frame_result [OF assms(1) None] show ?thesis
    using assms advance_to(2) [OF assms(1)] by (auto simp: next_frame_complete_cases None)
qed (use assms in \<open>simp add: next_frame_complete_cases\<close>)

lemma next_frame_complete_ready:
  assumes "decoder_inv d" and "next_frame_complete d = (Inr True, d')"
  shows "ready_frame d' \<noteq> None" and "dec_next_frame d \<le> dec_next_frame d'"
    and "set (dec_frame_buf d') \<subseteq> set (dec_frame_buf d)"
    and "dec_lazy_level d' = dec_lazy_level d" and "dec_output_fd d' = dec_output_fd d"
    and "dec_shared_queue d' = dec_shared_queue d"
    and "(k, f) \<in> set (dec_frame_buf d') \<longleftrightarrow> (k, f) \<in> set (dec_frame_buf d) \<and> dec_next_frame d' \<le> k"
    and "ready_frame d' = Some g \<Longrightarrow> dec_next_frame d' = dec_next_frame d \<or> frm_type g = KEY"
proof -
  have "ready_frame d' \<noteq> None \<and> (ready_frame d' = Some g \<longrightarrow> dec_next_frame d' = dec_next_frame d \<or> frm_type g = KEY) \<and> dec_next_frame d \<le> dec_next_frame d' \<and>
    (\<forall>k f. (k, f) \<in> set (dec_frame_buf d') \<longleftrightarrow> (k, f) \<in> set (dec_frame_buf d) \<and> dec_next_frame d' \<le> k) \<and> dec_lazy_level d' = dec_lazy_level d \<and>
    dec_output_fd d' = dec_output_fd d \<and> dec_shared_queue d' = dec_shared_queue d"
  proof (cases "ready_frame d")
    case None
    from skip_to_key_frame_result [OF assms(1) None] obtain k f where
      kf: "(k, f) \<in> set (dec_frame_buf d)" "frame_complete f" "dec_next_frame d < k" "frm_type f = KEY"
      and d': "d' = d\<lparr>dec_next_frame := k, dec_frame_buf := filter (\<lambda>(k', f). k \<le> k') (dec_frame_buf d)\<rparr>"
      using assms(2) by (auto simp: next_frame_complete_cases None)
    have "om_find (dec_frame_buf d') k = Some f"
      using kf(1) om_find_filter [of "\<lambda>k'. k \<le> k'" "dec_frame_buf d" k] decoder_invD(1) [OF assms(1)]
      by (simp add: d' om.find_Some_iff)
    then show ?thesis using kf(2,3,4) by (auto simp: d' ready_frame_def)
  qed (use assms(2) decoder_invD(3) [OF assms(1)] in \<open>auto simp: next_frame_complete_cases\<close>)
  then show "ready_frame d' \<noteq> None" "dec_next_frame d \<le> dec_next_frame d'"
    "set (dec_frame_buf d') \<subseteq> set (dec_frame_buf d)" "dec_lazy_level d' = dec_lazy_level d"
    "dec_output_fd d' = dec_output_fd d" "dec_shared_queue d' = dec_shared_queue d"
    "(k, f) \<in> set (dec_frame_buf d') \<longleftrightarrow> (k, f) \<in> set (dec_frame_buf d) \<and> dec_next_frame d' \<le> k"
    "ready_frame d' = Some g \<Longrightarrow> dec_next_frame d' = dec_next_frame d \<or> frm_type g = KEY"
    by auto
qed

section \<open>Consuming a frame\<close>

lemma stats_loop_keeps:
  "dec_next_frame (stats_loop now d) = dec_next_frame d"
  "dec_frame_buf (stats_loop now d) = dec_frame_buf d"
  "dec_shared_queue (stats_loop now d) = dec_shared_queue d"
  "dec_lazy_level (stats_loop now d) = dec_lazy_level d"
  "dec_output_fd (stats_loop now d) = dec_output_fd d"
  by (induction now d rule: stats_loop.induct; subst stats_loop.simps; simp)+

lemma stats_loop_time:
  "dec_last_stats_time d \<le> now \<Longrightarrow>
    dec_last_stats_time (stats_loop now d) \<le> now \<and>
    now < dec_last_stats_time (stats_loop now d) + 1000000000"
  by (induction now d rule: stats_loop.induct; subst stats_loop.simps; subst stats_loop.simps) auto

text \<open>What the main thread does with the next frame, apart from the statistics.\<close>

definition dispatched :: "frame \<Rightarrow> decoder \<Rightarrow> decoder" where
  "dispatched f d = d
     \<lparr>dec_shared_queue := (if dec_lazy_level d \<le> DECODE_ONLY then dec_shared_queue d @ [f]
        else dec_shared_queue d),
      dec_next_frame := dec_next_frame d + 1,
      dec_frame_buf := filter (\<lambda>(k, f). dec_next_frame d < k) (dec_frame_buf d)\<rparr>"

lemma successor_le_iff:
  assumes "unat (n :: u32) + 1 < 2 ^ 32"
  shows "n + 1 \<le> k \<longleftrightarrow> n < k"
proof -
  have "unat (n + 1) = unat n + 1" using unat_add_no_wrap [of n 1] assms by simp
  then show ?thesis by (simp add: word_le_nat_alt word_less_nat_alt Suc_le_eq)
qed

lemma advance_one:
  assumes "om_wf (dec_frame_buf d)" and "unat (dec_next_frame d) + 1 < 2 ^ 32"
  shows "advance_next_frame 1 d = d\<lparr>dec_next_frame := dec_next_frame d + 1,
    dec_frame_buf := filter (\<lambda>(k, f). dec_next_frame d < k) (dec_frame_buf d)\<rparr>"
  using assms by (simp add: advance_next_frame_def Let_def clean_up_to_filter successor_le_iff)

lemma filter_map_set:
  "filter (\<lambda>(k', f). k < k') (map_set k v m) = filter (\<lambda>(k', f). k < k') (m :: (u32, frame) omap)"
  by (induction m) (auto simp: map_set_def)

lemma dispatched_inv [inv_intros]:
  assumes "decoder_inv d" and "unat (dec_next_frame d) + 1 < 2 ^ 32"
  shows "decoder_inv (dispatched f d)"
  using assms successor_le_iff [OF assms(2)]
  by (auto simp: decoder_inv_def dispatched_def om_wf_filter)

definition no_output :: "decoder \<Rightarrow> bool" where
  "no_output d = (dec_lazy_level d \<le> DECODE_ONLY \<or> dec_output_fd d = None)"

text \<open>The counters, which \<open>consume_next_frame\<close> updates first.\<close>

definition count_frame :: "int \<Rightarrow> frame \<Rightarrow> decoder \<Rightarrow> decoder" where
  "count_frame stats_now f d = stats_loop stats_now
     (d\<lparr>dec_num_decodable_frames := dec_num_decodable_frames d + 1,
        dec_total_decodable_frame_size := dec_total_decodable_frame_size d + frm_frame_size f\<rparr>)"

lemma count_frame_keeps [simp]:
  "dec_next_frame (count_frame now f d) = dec_next_frame d"
  "dec_frame_buf (count_frame now f d) = dec_frame_buf d"
  "dec_shared_queue (count_frame now f d) = dec_shared_queue d"
  "dec_lazy_level (count_frame now f d) = dec_lazy_level d"
  "dec_output_fd (count_frame now f d) = dec_output_fd d"
  by (simp_all add: count_frame_def stats_loop_keeps)

lemma ready_frameD:
  assumes "ready_frame d = Some f"
  shows "om_find (dec_frame_buf d) (dec_next_frame d) = Some f" and "frame_complete f"
    and "frame_size f = Some (frm_frame_size f)"
  using assms by (auto simp: ready_frame_def frame_size_def split: option.splits if_splits)

lemma consume_next_frame_result:
  assumes "decoder_inv d" and "ready_frame d = Some f" and "unat (dec_next_frame d) + 1 < 2 ^ 32"
    and "no_output d"
  shows "consume_next_frame os now ts (d, w) = (Inr (), dispatched f (count_frame now f d), w)"
proof -
  note f = ready_frameD [OF assms(2)]
  have at: "map_at (dec_frame_buf d) (dec_next_frame d) = Inr f" by (simp add: map_at_def f(1))
  note wf = decoder_invD(1) [OF assms(1)]
  let ?d = "count_frame now f d"
  have queue: "advance_next_frame 1 (?d\<lparr>dec_shared_queue := dec_shared_queue ?d @ [f],
      dec_frame_buf := map_set (dec_next_frame ?d) (moved_from f) (dec_frame_buf ?d)\<rparr>) = dispatched f ?d"
    if "dec_lazy_level d \<le> DECODE_ONLY"
    using that assms(3) wf by (subst advance_one)
      (simp_all add: om_wf_map_set filter_map_set dispatched_def)
  have plain: "advance_next_frame 1 ?d = dispatched f ?d" if "\<not> dec_lazy_level d \<le> DECODE_ONLY"
    using that assms(3) wf by (subst advance_one) (simp_all add: dispatched_def)
  show ?thesis
  proof (cases "dec_lazy_level d \<le> DECODE_ONLY")
    case True
    then show ?thesis using f(2,3) queue
      by (simp add: consume_next_frame_def at Let_def optional_value_def count_frame_def [symmetric])
  next
    case False
    then have "dec_output_fd d = None" using assms(4) by (simp add: no_output_def)
    with False show ?thesis using f(2,3) plain
      by (simp add: consume_next_frame_def at Let_def optional_value_def count_frame_def [symmetric])
  qed
qed

section \<open>Properties\<close>

text \<open>
  C29: what adding a datagram does. One of a frame before \<open>next_frame_\<close> is ignored. Otherwise the
  frame under its id, created with the datagram's type and fragment count if there is none yet, is
  the only entry of the buffer that changes, to what \<open>insert_frag\<close> makes of it, whose exception, if
  any, is passed on; the first datagram of a frame that announces zero fragments is refused without
  any change.
\<close>

theorem add_datagram_spec:
  assumes "decoder_inv d"
  shows "let k = dg_frame_id datagram; (r, d') = add_datagram datagram d in
    decoder_inv d' \<and>
    (if k < dec_next_frame d then r = Inr () \<and> d' = d
     else if om_find (dec_frame_buf d) k = None \<and> dg_frag_cnt datagram = 0
     then r = Inl (Runtime_Error ''frame cannot have zero fragments'') \<and> d' = d
     else
       let f = (case om_find (dec_frame_buf d) k of Some f \<Rightarrow> f
         | None \<Rightarrow> \<lparr>frm_id = k, frm_type = dg_frame_type datagram,
             frm_frags = replicate (unat (dg_frag_cnt datagram)) None,
             frm_null_frags = ucast (dg_frag_cnt datagram), frm_frame_size = 0\<rparr>)
       in r = fst (insert_frag datagram f) \<and>
          om_find (dec_frame_buf d') = (om_find (dec_frame_buf d))(k \<mapsto> snd (insert_frag datagram f)) \<and>
          d' = d\<lparr>dec_frame_buf := dec_frame_buf d'\<rparr>)"
proof -
  have "decoder_inv (snd (add_datagram datagram d))" by (rule add_datagram_inv [OF assms])
  with add_datagram_result [OF assms, of datagram] show ?thesis
    by (auto simp: Let_def target_frame_def frame_new_def split: prod.split option.splits if_splits)
qed

text \<open>A decoder that waits for frame 5, with a complete key frame 9 and an incomplete frame 7.\<close>

definition waiting_decoder :: decoder where
  "waiting_decoder = \<lparr>dec_display_width = 4, dec_display_height = 2, dec_lazy_level = 0,
     dec_output_fd = None, dec_epoch = 0, dec_verbose = False, dec_next_frame = 5,
     dec_frame_buf =
       [(7, \<lparr>frm_id = 7, frm_type = NONKEY, frm_frags = [None], frm_null_frags = 1, frm_frame_size = 0\<rparr>),
        (9, \<lparr>frm_id = 9, frm_type = KEY, frm_frags = [Some (make_datagram 9 KEY 0 1 [1])],
             frm_null_frags = 0, frm_frame_size = 1\<rparr>)],
     dec_num_decodable_frames = 0, dec_total_decodable_frame_size = 0, dec_last_stats_time = 0,
     dec_shared_queue = [], dec_worker = True\<rparr>"

lemma waiting_decoder_inv: "decoder_inv waiting_decoder"
  by (simp add: decoder_inv_def waiting_decoder_def om_wf_def frame_inv_def belongs_def
      make_datagram_def frag_bytes_def)

theorem add_datagram_spec_witness:
  "fst (add_datagram (make_datagram 6 NONKEY 0 0 []) waiting_decoder) =
     Inl (Runtime_Error ''frame cannot have zero fragments'')"
  using add_datagram_spec [OF waiting_decoder_inv, of "make_datagram 6 NONKEY 0 0 []"]
  by (simp add: Let_def waiting_decoder_def make_datagram_def om_find_def split: prod.splits)

text \<open>
  C15: \<open>next_frame_complete\<close> never fails its assertion. It answers true, without any change, when the
  next frame is complete; otherwise it skips to the latest complete key frame, which is ahead,
  dropping exactly the frames before it; and when there is none it answers false and changes
  nothing. After an answer of true, the frame at \<open>next_frame_\<close> is in the buffer and complete.
\<close>

theorem next_frame_complete_spec:
  assumes "decoder_inv d"
  shows "case next_frame_complete d of
      (Inl e, d') \<Rightarrow> False
    | (Inr False, d') \<Rightarrow> d' = d \<and> (\<forall>(k, f) \<in> set (dec_frame_buf d). frame_complete f \<longrightarrow>
        k \<noteq> dec_next_frame d \<and> frm_type f \<noteq> KEY)
    | (Inr True, d') \<Rightarrow> decoder_inv d' \<and>
        (\<exists>f. om_find (dec_frame_buf d') (dec_next_frame d') = Some f \<and> frame_complete f \<and>
          (d' = d \<or> dec_next_frame d < dec_next_frame d' \<and> frm_type f = KEY \<and>
             (\<forall>(k, f) \<in> set (dec_frame_buf d). frame_complete f \<longrightarrow>
                k \<noteq> dec_next_frame d \<and> (frm_type f = KEY \<longrightarrow> k \<le> dec_next_frame d')) \<and>
             d' = d\<lparr>dec_next_frame := dec_next_frame d', dec_frame_buf :=
               filter (\<lambda>(k, f). dec_next_frame d' \<le> k) (dec_frame_buf d)\<rparr>))"
proof (cases "ready_frame d")
  case (Some f)
  then show ?thesis using ready_frameD [OF Some] assms by (simp add: next_frame_complete_cases)
next
  case None
  note wf = decoder_invD(1) [OF assms]
  have waiting: "k \<noteq> dec_next_frame d" if "(k, f) \<in> set (dec_frame_buf d)" "frame_complete f" for k f
  proof -
    have "om_find (dec_frame_buf d) k = Some f" using that(1) wf by (simp add: om.find_Some_iff)
    then show ?thesis using None that(2) by (auto simp: ready_frame_def)
  qed
  from skip_to_key_frame_result [OF assms None] show ?thesis
  proof (elim disjE exE conjE)
    assume "\<forall>(k, f) \<in> set (dec_frame_buf d). \<not> (frm_type f = KEY \<and> frame_complete f)"
      and "skip_to_key_frame d = (Inr False, d)"
    then show ?thesis using waiting by (auto simp: next_frame_complete_cases None)
  next
    fix k f
    let ?d' = "d\<lparr>dec_next_frame := k, dec_frame_buf := filter (\<lambda>(k', f). k \<le> k') (dec_frame_buf d)\<rparr>"
    assume kf: "(k, f) \<in> set (dec_frame_buf d)" "frm_type f = KEY" "frame_complete f" "dec_next_frame d < k"
      and last: "\<forall>(k', f') \<in> set (dec_frame_buf d). frm_type f' = KEY \<and> frame_complete f' \<longrightarrow> k' \<le> k"
      and skip: "skip_to_key_frame d = (Inr True, ?d')"
    have "om_find (dec_frame_buf ?d') k = Some f"
      using kf(1) om_find_filter [of "\<lambda>k'. k \<le> k'" "dec_frame_buf d" k] wf
      by (simp add: om.find_Some_iff)
    then show ?thesis
      using kf last advance_to(2) [OF assms kf(1)] waiting
      by (auto simp: next_frame_complete_cases None skip)
  qed
qed

theorem next_frame_complete_spec_witness:
  "fst (next_frame_complete waiting_decoder) = Inr True \<and>
   dec_next_frame (snd (next_frame_complete waiting_decoder)) = 9"
  using next_frame_complete_spec [OF waiting_decoder_inv]
  by (simp add: next_frame_complete_def skip_to_key_frame_def waiting_decoder_def om_find_def
      frame_complete_def advance_next_frame_def Let_def)

text \<open>
  C30: consuming a complete next frame succeeds when no output line has to be written: the frame, and
  no other, is appended to the queue of the worker when there is one; \<open>next_frame_\<close> advances by one;
  exactly the frames up to the consumed one leave the buffer, the moved-from frame among them; and
  the statistics period is moved to within a second of the clock. The frame counter is assumed not
  to wrap at 2^32.
\<close>

theorem consume_next_frame_spec:
  assumes "decoder_inv d" and "om_find (dec_frame_buf d) (dec_next_frame d) = Some f"
    and "frame_complete f" and "unat (dec_next_frame d) + 1 < 2 ^ 32"
    and "dec_lazy_level d \<le> DECODE_ONLY \<or> dec_output_fd d = None"
    and "dec_last_stats_time d \<le> now"
  shows "let (r, d', w') = consume_next_frame os now ts (d, w) in
    r = Inr () \<and> w' = w \<and> decoder_inv d' \<and> dec_next_frame d' = dec_next_frame d + 1 \<and>
    dec_shared_queue d' = dec_shared_queue d @ (if dec_lazy_level d \<le> DECODE_ONLY then [f] else []) \<and>
    dec_frame_buf d' = filter (\<lambda>(k, f). dec_next_frame d < k) (dec_frame_buf d) \<and>
    dec_last_stats_time d' \<le> now \<and> now < dec_last_stats_time d' + 1000000000"
proof -
  have ready: "ready_frame d = Some f" using assms(2,3) by (simp add: ready_frame_def)
  let ?d = "count_frame now f d"
  have "decoder_inv ?d" using assms(1) by (simp add: decoder_inv_def)
  then have inv: "decoder_inv (dispatched f ?d)" using assms(4) by (simp add: dispatched_inv)
  have "dec_last_stats_time ?d \<le> now \<and> now < dec_last_stats_time ?d + 1000000000"
    unfolding count_frame_def by (rule stats_loop_time) (use assms(6) in simp)
  moreover have "no_output d" using assms(5) by (simp add: no_output_def)
  ultimately show ?thesis
    using inv by (simp add: consume_next_frame_result [OF assms(1) ready assms(4)] dispatched_def)
qed

definition key_decoder :: decoder where
  "key_decoder = waiting_decoder\<lparr>dec_next_frame := 9, dec_frame_buf :=
     [(9, \<lparr>frm_id = 9, frm_type = KEY, frm_frags = [Some (make_datagram 9 KEY 0 1 [1])],
        frm_null_frags = 0, frm_frame_size = 1\<rparr>)]\<rparr>"

theorem consume_next_frame_spec_witness:
  "let (r, d', w') = consume_next_frame (stream_os 1) 1500000000 0 (key_decoder, [], []) in
   dec_next_frame d' = 10 \<and> length (dec_shared_queue d') = 1"
proof -
  let ?f = "\<lparr>frm_id = 9, frm_type = KEY, frm_frags = [Some (make_datagram 9 KEY 0 1 [1])],
    frm_null_frags = 0, frm_frame_size = 1\<rparr>"
  have "decoder_inv key_decoder"
    by (simp add: decoder_inv_def key_decoder_def waiting_decoder_def om_wf_def frame_inv_def
        belongs_def make_datagram_def frag_bytes_def)
  then show ?thesis
    using consume_next_frame_spec [of key_decoder ?f 1500000000 "stream_os 1" 0 "([], [])"]
    by (simp add: key_decoder_def Let_def waiting_decoder_def om_find_def frame_complete_def
        DECODE_ONLY_def split: prod.splits)
qed

end
