(* ===== verification/Display.thy ===== *)
theory Display
  imports Exceptions Image
begin

text \<open>
  The model of \<open>src/video/sdl.hh\<close> and \<open>sdl.cc\<close>: a window that shows images. SDL is a parameter.
\<close>

section \<open>SDL\<close>

text \<open>
  The SDL calls. The four that can fail at construction return whether they succeeded; drawing an
  image is \<open>SDL_UpdateYUVTexture\<close> and the three render calls; polling an event returns whether it is
  \<open>SDL_QUIT\<close>, or nothing when no event is pending.
\<close>

record 'w sdl =
  sdl_init :: "'w \<Rightarrow> bool \<times> 'w"
  sdl_create_window :: "u16 \<Rightarrow> u16 \<Rightarrow> 'w \<Rightarrow> bool \<times> 'w"
  sdl_create_renderer :: "'w \<Rightarrow> bool \<times> 'w"
  sdl_create_texture :: "u16 \<Rightarrow> u16 \<Rightarrow> 'w \<Rightarrow> bool \<times> 'w"
  sdl_draw :: "vpx_image \<Rightarrow> 'w \<Rightarrow> 'w"
  sdl_poll_event :: "'w \<Rightarrow> bool option \<times> 'w"
  sdl_destroy_texture :: "'w \<Rightarrow> 'w"
  sdl_destroy_renderer :: "'w \<Rightarrow> 'w"
  sdl_destroy_window :: "'w \<Rightarrow> 'w"
  sdl_quit :: "'w \<Rightarrow> 'w"

record video_display =
  disp_width :: u16
  disp_height :: u16

definition sdl_require :: "('w \<Rightarrow> bool \<times> 'w) \<Rightarrow> ('w, unit) action" where
  "sdl_require call w =
     (let (ok, w') = call w in (if ok then Inr () else Inl (Runtime_Error ''SDL_GetError''), w'))"

definition display_init :: "'w sdl \<Rightarrow> u16 \<Rightarrow> u16 \<Rightarrow> ('w, video_display) action" where
  "display_init sdl width height =
     bind_action (sdl_require (sdl_init sdl)) (\<lambda>_.
     bind_action (sdl_require (sdl_create_window sdl width height)) (\<lambda>_.
     bind_action (sdl_require (sdl_create_renderer sdl)) (\<lambda>_.
     bind_action (sdl_require (sdl_create_texture sdl width height)) (\<lambda>_.
     return_action \<lparr>disp_width = width, disp_height = height\<rparr>))))"

definition display_destroy :: "'w sdl \<Rightarrow> 'w \<Rightarrow> 'w" where
  "display_destroy sdl w = sdl_quit sdl (sdl_destroy_window sdl (sdl_destroy_renderer sdl (sdl_destroy_texture sdl w)))"

definition show_frame :: "'w sdl \<Rightarrow> video_display \<Rightarrow> raw_image \<Rightarrow> ('w, unit) action" where
  "show_frame sdl disp raw_img w =
     (if raw_display_width raw_img \<noteq> disp_width disp \<or> raw_display_height raw_img \<noteq> disp_height disp
      then (Inl (Runtime_Error ''VideoDisplay: image dimensions don't match''), w)
      else (Inr (), sdl_draw sdl (raw_vpx_img raw_img) w))"

text \<open>The event loop ends at the first quit event, or when no event is pending; it need not end.\<close>

partial_function (option) signal_quit :: "'w sdl \<Rightarrow> 'w \<Rightarrow> (bool \<times> 'w) option" where
  "signal_quit sdl w =
     (case sdl_poll_event sdl w of
        (None, w') \<Rightarrow> Some (False, w')
      | (Some is_quit, w') \<Rightarrow> if is_quit then Some (True, w') else signal_quit sdl w')"

end
