(* ===== verification/Worker.thy ===== *)
theory Worker
  imports Decoder Display
begin

text \<open>
  The model of the worker thread of \<open>src/app/decoder.cc\<close>: decoding of complete frames with libvpx, output of
  a line per decoded frame, display of the decoded image. libvpx is a parameter.
\<close>

section \<open>Decoding\<close>

record 'c vpx_decoder =
  vpx_dec_init :: "u32 \<Rightarrow> u16 \<Rightarrow> u16 \<Rightarrow> vpx_const \<times> 'c"
  vpx_decode :: "'c \<Rightarrow> bytes \<Rightarrow> vpx_const \<times> 'c"
  vpx_get_frames :: "'c \<Rightarrow> vpx_image list"

definition MAX_DECODING_BUF :: nat where
  "MAX_DECODING_BUF = 1000000"

text \<open>
  The loop that copies the payloads to the decoding buffer; \<open>copied\<close> is the part of the static buffer
  before \<open>buf_ptr\<close>, all that libvpx is given.
\<close>

fun copy_payloads :: "datagram option list \<Rightarrow> bytes \<Rightarrow> bytes result" where
  "copy_payloads [] copied = Inr copied"
| "copy_payloads (x # frags) copied =
     bind_result (optional_value x) (\<lambda>datagram.
       if length copied + length (dg_payload datagram) \<ge> MAX_DECODING_BUF
       then Inl (Runtime_Error ''frame size exceeds max decoding buffer size'')
       else copy_payloads frags (copied @ dg_payload datagram))"

definition decode_frame :: "'c vpx_decoder \<Rightarrow> double \<Rightarrow> frame \<Rightarrow> ('c, double) action" where
  "decode_frame vpx decode_time_ms f context =
     (if \<not> frame_complete f then (Inl (Runtime_Error ''frame must be complete before decoding''), context)
      else case copy_payloads (frm_frags f) [] of
        Inl e \<Rightarrow> (Inl e, context)
      | Inr data \<Rightarrow>
          let (code, context') = vpx_decode vpx context data
          in (bind_result (check_call code VPX_CODEC_OK ''failed to decode a frame'')
                (\<lambda>_. Inr decode_time_ms), context'))"

fun display_loop :: "'w sdl \<Rightarrow> video_display \<Rightarrow> nat \<Rightarrow> vpx_image list \<Rightarrow> ('w, unit) action" where
  "display_loop sdl disp frame_decoded [] w = (Inr (), w)"
| "display_loop sdl disp frame_decoded (img # imgs) w =
     (if frame_decoded + 1 > 1 then (Inl (Runtime_Error ''Multiple frames were decoded at once''), w)
      else case raw_image_wrap (Some img) of
        Inl e \<Rightarrow> (Inl e, w)
      | Inr raw_img \<Rightarrow>
          (case show_frame sdl disp raw_img w of
             (Inl e, w') \<Rightarrow> (Inl e, w')
           | (Inr _, w') \<Rightarrow> display_loop sdl disp (frame_decoded + 1) imgs w'))"

definition display_decoded_frame :: "'w sdl \<Rightarrow> 'c vpx_decoder \<Rightarrow> 'c \<Rightarrow> video_display \<Rightarrow> ('w, unit) action" where
  "display_decoded_frame sdl vpx context disp = display_loop sdl disp 0 (vpx_get_frames vpx context)"

section \<open>The thread\<close>

record 'c worker =
  wk_context :: 'c
  wk_display :: "video_display option"
  wk_local_queue :: "frame list"
  wk_num_decoded_frames :: u32
  wk_total_decode_time_ms :: double
  wk_max_decode_time_ms :: double
  wk_last_stats_time :: int

text \<open>What \<open>worker_main\<close> does before its loop; \<open>None\<close> when it returns at once.\<close>

definition worker_start :: "'w sdl \<Rightarrow> 'c vpx_decoder \<Rightarrow> int \<Rightarrow> decoder \<Rightarrow> ('w, 'c worker option) action" where
  "worker_start sdl vpx nprocs d w =
     (if dec_lazy_level d = NO_DECODE_DISPLAY then (Inr None, w)
      else
        let max_threads = word_of_int (min nprocs 4);
            (code, context) = vpx_dec_init vpx max_threads (dec_display_width d) (dec_display_height d)
        in case check_call code VPX_CODEC_OK ''vpx_codec_dec_init'' of
             Inl e \<Rightarrow> (Inl e, w)
           | Inr _ \<Rightarrow>
               (case (if dec_lazy_level d = DECODE_DISPLAY
                      then bind_action (display_init sdl (dec_display_width d) (dec_display_height d))
                        (\<lambda>disp. return_action (Some disp)) w
                      else (Inr None, w)) of
                  (Inl e, w') \<Rightarrow> (Inl e, w')
                | (Inr disp, w') \<Rightarrow>
                    (Inr (Some \<lparr>wk_context = context, wk_display = disp, wk_local_queue = [],
                       wk_num_decoded_frames = 0, wk_total_decode_time_ms = 0,
                       wk_max_decode_time_ms = 0, wk_last_stats_time = dec_epoch d\<rparr>), w')))"

text \<open>
  The start of a round: the display is destroyed if it was closed, the thread waits (\<open>None\<close>) until the
  shared queue has frames, and moves all of them, in order, to its local queue while it holds the lock.
\<close>

fun drain_queue :: "frame list \<Rightarrow> frame list \<Rightarrow> frame list" where
  "drain_queue local_queue [] = local_queue"
| "drain_queue local_queue (f # shared_queue) = drain_queue (local_queue @ [f]) shared_queue"

definition check_display :: "'w sdl \<Rightarrow> 'c worker \<Rightarrow> 'w \<Rightarrow> ('c worker \<times> 'w) option" where
  "check_display sdl wk w =
     (case wk_display wk of
        None \<Rightarrow> Some (wk, w)
      | Some disp \<Rightarrow>
          (case signal_quit sdl w of
             None \<Rightarrow> None
           | Some (quit, w') \<Rightarrow>
               Some (if quit then (wk\<lparr>wk_display := None\<rparr>, display_destroy sdl w') else (wk, w'))))"

definition take_shared :: "decoder \<times> 'c worker \<Rightarrow> (decoder \<times> 'c worker) option" where
  "take_shared = (\<lambda>(d, wk).
     if dec_shared_queue d = [] then None
     else Some (d\<lparr>dec_shared_queue := []\<rparr>,
       wk\<lparr>wk_local_queue := drain_queue (wk_local_queue wk) (dec_shared_queue d)\<rparr>))"

function worker_stats_loop :: "int \<Rightarrow> 'c worker \<Rightarrow> 'c worker" where
  "worker_stats_loop stats_now wk =
     (if stats_now \<ge> wk_last_stats_time wk + 1000000000
      then worker_stats_loop stats_now (wk\<lparr>wk_num_decoded_frames := 0, wk_total_decode_time_ms := 0,
        wk_max_decode_time_ms := 0, wk_last_stats_time := wk_last_stats_time wk + 1000000000\<rparr>)
      else wk)"
  by pat_completeness auto
termination
  by (relation "measure (\<lambda>(now, wk). nat (now - wk_last_stats_time wk))") auto

declare worker_stats_loop.simps [simp del]

text \<open>
  One frame of the local queue: decode, output, display, pop, statistics. The clock readings are the
  duration of the decoding, the time of the output line and the time of the statistics. The output
  file belongs to the decoder object.
\<close>

definition worker_frame :: "'w sdl \<Rightarrow> 'c vpx_decoder \<Rightarrow> 'w os \<Rightarrow> double \<Rightarrow> u64 \<Rightarrow> int
    \<Rightarrow> (file_descriptor option \<times> 'c worker \<times> 'w, unit) action" where
  "worker_frame sdl vpx os decode_ms decoded_ts stats_now = (\<lambda>(fd, wk, w).
     case wk_local_queue wk of
       [] \<Rightarrow> (Inr (), fd, wk, w)
     | f # rest \<Rightarrow>
         (case decode_frame vpx decode_ms f (wk_context wk) of
            (Inl e, context) \<Rightarrow> (Inl e, fd, wk\<lparr>wk_context := context\<rparr>, w)
          | (Inr decode_time_ms, context) \<Rightarrow>
              let wk1 = wk\<lparr>wk_context := context\<rparr>;
                  (r, fd', w') =
                    (case fd of
                       None \<Rightarrow> (Inr (), None, w)
                     | Some out \<Rightarrow>
                         (case optional_value (frame_size f) of
                            Inl e \<Rightarrow> (Inl e, fd, w)
                          | Inr sz \<Rightarrow>
                              let (r, out', w') = fd_write os (comma_separated
                                    [unat (frm_id f), sz, unat decoded_ts]) (out, w)
                              in (bind_result r (\<lambda>_. Inr ()), Some out', w')))
              in case r of
                   Inl e \<Rightarrow> (Inl e, fd', wk1, w')
                 | Inr _ \<Rightarrow>
                     (case (case wk_display wk1 of
                              None \<Rightarrow> (Inr (), w')
                            | Some disp \<Rightarrow> display_decoded_frame sdl vpx context disp w') of
                        (Inl e, w'') \<Rightarrow> (Inl e, fd', wk1, w'')
                      | (Inr _, w'') \<Rightarrow>
                          (Inr (), fd', worker_stats_loop stats_now (wk1
                             \<lparr>wk_local_queue := rest,
                              wk_num_decoded_frames := wk_num_decoded_frames wk1 + 1,
                              wk_total_decode_time_ms :=
                                double_add (wk_total_decode_time_ms wk1) decode_time_ms,
                              wk_max_decode_time_ms := max (wk_max_decode_time_ms wk1) decode_time_ms\<rparr>), w''))))"

section \<open>What decoding is given\<close>

lemma copy_payloads_result:
  assumes "None \<notin> set frags" and "length copied < MAX_DECODING_BUF"
  shows "copy_payloads frags copied =
    (if length copied + length (concat (map frag_bytes frags)) < MAX_DECODING_BUF
     then Inr (copied @ concat (map frag_bytes frags))
     else Inl (Runtime_Error ''frame size exceeds max decoding buffer size''))"
  using assms
proof (induction frags arbitrary: copied)
  case (Cons x frags)
  then obtain d where x: "x = Some d" by (cases x) auto
  show ?case
  proof (cases "length copied + length (dg_payload d) < MAX_DECODING_BUF")
    case True
    with Cons show ?thesis by (simp add: x frag_bytes_def optional_value_def add.assoc)
  qed (simp add: x frag_bytes_def optional_value_def)
qed simp

lemma decode_frame_result:
  assumes "frame_inv f" and "frame_complete f"
  shows "decode_frame vpx ms f context =
    (if length (frame_bytes f) < MAX_DECODING_BUF then
       (bind_result (check_call (fst (vpx_decode vpx context (frame_bytes f))) VPX_CODEC_OK
          ''failed to decode a frame'') (\<lambda>_. Inr ms), snd (vpx_decode vpx context (frame_bytes f)))
     else (Inl (Runtime_Error ''frame size exceeds max decoding buffer size''), context))"
proof -
  have "copy_payloads (frm_frags f) [] = (if length (frame_bytes f) < MAX_DECODING_BUF
     then Inr (frame_bytes f) else Inl (Runtime_Error ''frame size exceeds max decoding buffer size''))"
    using copy_payloads_result [of "frm_frags f" "[]"] complete_iff [OF assms(1)] assms(2)
    by (simp add: frame_bytes_def MAX_DECODING_BUF_def)
  with assms(2) show ?thesis
    by (simp add: decode_frame_def Let_def split: prod.split)
qed

lemma drain_queue_append [simp]: "drain_queue local_queue queue = local_queue @ queue"
  by (induction local_queue queue rule: drain_queue.induct) simp_all

lemma worker_stats_loop_keeps [simp]:
  "wk_local_queue (worker_stats_loop now wk) = wk_local_queue wk"
  "wk_context (worker_stats_loop now wk) = wk_context wk"
  "wk_display (worker_stats_loop now wk) = wk_display wk"
  by (induction now wk rule: worker_stats_loop.induct; subst worker_stats_loop.simps; simp)+

lemma worker_frame_pops:
  assumes "wk_local_queue wk = f # rest"
    and "worker_frame sdl vpx os ms ts now (fd, wk, w) = (Inr (), fd', wk', w')"
  shows "wk_local_queue wk' = rest"
  using assms
  by (auto simp: worker_frame_def Let_def split: sum.splits prod.splits option.splits)

section \<open>The worker's rounds\<close>

text \<open>
  The loop over the local queue, which is the list, and one round of the thread: the display is looked after, the
  thread waits for the shared queue to have frames (\<open>None\<close> if it has none and nobody adds one), takes all of them
  and decodes them. \<open>clock\<close> gives the readings of the clock, counted from the last frame of the queue.
\<close>

fun local_queue_loop :: "'w sdl \<Rightarrow> 'c vpx_decoder \<Rightarrow> 'w os \<Rightarrow> (nat \<Rightarrow> double \<times> u64 \<times> int) \<Rightarrow> frame list
    \<Rightarrow> (file_descriptor option \<times> 'c worker \<times> 'w, unit) action" where
  "local_queue_loop sdl vpx os clock [] = return_action ()"
| "local_queue_loop sdl vpx os clock (f # local_queue) =
     bind_action (case clock (length local_queue) of (decode_ms, decoded_ts, stats_now) \<Rightarrow>
         worker_frame sdl vpx os decode_ms decoded_ts stats_now)
       (\<lambda>_. local_queue_loop sdl vpx os clock local_queue)"

definition worker_round :: "'w sdl \<Rightarrow> 'c vpx_decoder \<Rightarrow> 'w os \<Rightarrow> (nat \<Rightarrow> double \<times> u64 \<times> int)
    \<Rightarrow> (decoder \<times> 'c worker \<times> 'w, unit) process" where
  "worker_round sdl vpx os clock = (\<lambda>(d, wk, w).
     case check_display sdl wk w of
       None \<Rightarrow> None
     | Some (wk1, w1) \<Rightarrow>
         (case take_shared (d, wk1) of
            None \<Rightarrow> None
          | Some (d1, wk2) \<Rightarrow>
              (case local_queue_loop sdl vpx os clock (wk_local_queue wk2) (dec_output_fd d1, wk2, w1) of
                 (r, fd, wk3, w3) \<Rightarrow> Some (r, d1\<lparr>dec_output_fd := fd\<rparr>, wk3, w3))))"

text \<open>
  A codec that decodes the sequences of frames that are \<open>ok\<close>, where \<open>seen\<close> is what it was given before, and that returns
  for each of their frames one image, of the size of the display if there is one.
\<close>

definition decodes :: "'c vpx_decoder \<Rightarrow> ('c \<Rightarrow> bytes list) \<Rightarrow> (bytes list \<Rightarrow> bool) \<Rightarrow> bool" where
  "decodes vpx seen ok \<longleftrightarrow>
     (\<forall>c data. ok (seen c @ [data]) \<longrightarrow>
        fst (vpx_decode vpx c data) = VPX_CODEC_OK \<and> seen (snd (vpx_decode vpx c data)) = seen c @ [data])"

definition fills_display :: "'c vpx_decoder \<Rightarrow> ('c \<Rightarrow> bytes list) \<Rightarrow> (bytes list \<Rightarrow> bool) \<Rightarrow> video_display option \<Rightarrow> bool" where
  "fills_display vpx seen ok display \<longleftrightarrow>
     (\<forall>disp c data. display = Some disp \<and> ok (seen c @ [data]) \<longrightarrow>
        (\<exists>img raw. vpx_get_frames vpx (snd (vpx_decode vpx c data)) = [img] \<and> raw_image_wrap (Some img) = Inr raw \<and>
           raw_display_width raw = disp_width disp \<and> raw_display_height raw = disp_height disp))"

text \<open>Frames that can be decoded after what was seen: each of them completes a sequence that is \<open>ok\<close>.\<close>

fun decodable :: "(bytes list \<Rightarrow> bool) \<Rightarrow> bytes list \<Rightarrow> frame list \<Rightarrow> bool" where
  "decodable ok before [] = True"
| "decodable ok before (f # fs) =
     (frame_inv f \<and> frame_complete f \<and> length (frame_bytes f) < MAX_DECODING_BUF \<and>
      ok (before @ [frame_bytes f]) \<and> decodable ok (before @ [frame_bytes f]) fs)"

lemma local_queue_decoded:
  assumes "decodes vpx seen ok" and "fills_display vpx seen ok (wk_display wk)"
    and "decodable ok (seen (wk_context wk)) queue" and "wk_local_queue wk = queue"
  shows "\<exists>wk' w'. local_queue_loop sdl vpx os clock queue (None, wk, w) = (Inr (), None, wk', w') \<and>
    wk_local_queue wk' = [] \<and> wk_display wk' = wk_display wk \<and>
    seen (wk_context wk') = seen (wk_context wk) @ map frame_bytes queue"
  using assms(2-)
proof (induction queue arbitrary: wk w)
  case Nil
  then show ?case by (intro exI [of _ wk] exI [of _ w]) (simp add: return_action_def)
next
  case (Cons f queue)
  obtain ms ts now where times: "clock (length queue) = (ms, ts, now)" by (metis prod.collapse)
  let ?c = "snd (vpx_decode vpx (wk_context wk) (frame_bytes f))"
  have ok: "ok (seen (wk_context wk) @ [frame_bytes f])" using Cons.prems(2) by simp
  then have c: "fst (vpx_decode vpx (wk_context wk) (frame_bytes f)) = VPX_CODEC_OK" "seen ?c = seen (wk_context wk) @ [frame_bytes f]"
    using assms(1) by (simp_all add: decodes_def)
  have decoded: "decode_frame vpx ms f (wk_context wk) = (Inr ms, ?c)"
    using Cons.prems(2) c(1) by (simp add: decode_frame_result check_call_def)
  have "\<exists>w1. (case wk_display wk of None \<Rightarrow> (Inr (), w) | Some disp \<Rightarrow> display_decoded_frame sdl vpx ?c disp w) = (Inr (), w1)"
  proof (cases "wk_display wk")
    case (Some disp)
    with Cons.prems(1) ok obtain img raw where "vpx_get_frames vpx ?c = [img]" "raw_image_wrap (Some img) = Inr raw"
      "raw_display_width raw = disp_width disp" "raw_display_height raw = disp_height disp"
      unfolding fills_display_def by blast
    with Some show ?thesis by (simp add: display_decoded_frame_def show_frame_def)
  qed simp
  then obtain w1 where shown: "(case wk_display wk of None \<Rightarrow> (Inr (), w) | Some disp \<Rightarrow>
      display_decoded_frame sdl vpx ?c disp w) = (Inr (), w1)" ..
  from decoded shown obtain wk1 where wk1: "worker_frame sdl vpx os ms ts now (None, wk, w) = (Inr (), None, wk1, w1)"
    "wk_local_queue wk1 = queue" "wk_context wk1 = ?c" "wk_display wk1 = wk_display wk"
    using Cons.prems(3) by (simp add: worker_frame_def Let_def)
  have "fills_display vpx seen ok (wk_display wk1)" "decodable ok (seen (wk_context wk1)) queue"
    using Cons.prems(1,2) wk1(3,4) c(2) by simp_all
  from Cons.IH [OF this wk1(2), of w1] obtain wk' w' where
    "local_queue_loop sdl vpx os clock queue (None, wk1, w1) = (Inr (), None, wk', w')" "wk_local_queue wk' = []"
    "wk_display wk' = wk_display wk1" "seen (wk_context wk') = seen (wk_context wk1) @ map frame_bytes queue"
    by (elim exE conjE)
  with wk1 c(2) times show ?case by (intro exI [of _ wk'] exI [of _ w']) (simp add: bind_action_def)
qed

lemma worker_round_decodes:
  assumes "decodes vpx seen ok" and "fills_display vpx seen ok (wk_display wk)" and "check_display sdl wk w \<noteq> None"
    and "wk_local_queue wk = []" and "dec_output_fd d = None"
    and "decodable ok (seen (wk_context wk)) (dec_shared_queue d)" and "dec_shared_queue d \<noteq> []"
  shows "\<exists>wk' w'. worker_round sdl vpx os clock (d, wk, w) = Some (Inr (), d\<lparr>dec_shared_queue := []\<rparr>, wk', w') \<and>
    wk_local_queue wk' = [] \<and> seen (wk_context wk') = seen (wk_context wk) @ map frame_bytes (dec_shared_queue d)"
proof -
  obtain wk1 w1 where checked: "check_display sdl wk w = Some (wk1, w1)" using assms(3) by auto
  then have wk1: "wk_local_queue wk1 = []" "wk_context wk1 = wk_context wk" "wk_display wk1 = None \<or> wk_display wk1 = wk_display wk"
    using assms(4) by (auto simp: check_display_def split: option.splits if_splits)
  let ?wk = "wk1\<lparr>wk_local_queue := dec_shared_queue d\<rparr>"
  have "fills_display vpx seen ok (wk_display ?wk)" "decodable ok (seen (wk_context ?wk)) (dec_shared_queue d)"
      "wk_local_queue ?wk = dec_shared_queue d"
    using assms(2,6) wk1(2,3) by (auto simp: fills_display_def)
  from local_queue_decoded [OF assms(1) this, of sdl os clock w1] obtain wk' w' where
    "local_queue_loop sdl vpx os clock (dec_shared_queue d) (None, ?wk, w1) = (Inr (), None, wk', w')"
    "wk_local_queue wk' = []" "seen (wk_context wk') = seen (wk_context wk) @ map frame_bytes (dec_shared_queue d)"
    using wk1(2) by auto
  with assms(5,7) wk1(1) checked show ?thesis
    by (intro exI [of _ wk'] exI [of _ w']) (simp add: worker_round_def take_shared_def)
qed

section \<open>Properties\<close>

text \<open>
  C31: decoding a complete frame hands libvpx exactly the bytes of the frame, its payloads in the order
  of their fragment ids, when they are fewer than 1,000,000; a frame of 1,000,000 bytes or more is
  refused before libvpx is called, although one of exactly 1,000,000 would fit the buffer.
\<close>

theorem decode_frame_bytes:
  assumes "frame_inv f" and "frame_complete f"
  shows "decode_frame vpx ms f context =
    (if length (frame_bytes f) < 1000000 then
       let (code, context') = vpx_decode vpx context (frame_bytes f)
       in (if code = VPX_CODEC_OK then Inr ms else Inl (Runtime_Error ''failed to decode a frame''),
           context')
     else (Inl (Runtime_Error ''frame size exceeds max decoding buffer size''), context))"
  unfolding decode_frame_result [OF assms] MAX_DECODING_BUF_def
  by (auto simp: check_call_def Let_def split: prod.split)

text \<open>A codec that always succeeds and whose context is the list of inputs it was given.\<close>

definition recording_vpx :: "bytes list vpx_decoder" where
  "recording_vpx = \<lparr>vpx_dec_init = (\<lambda>_ _ _. (VPX_CODEC_OK, [])),
     vpx_decode = (\<lambda>c data. (VPX_CODEC_OK, c @ [data])), vpx_get_frames = (\<lambda>_. [])\<rparr>"

definition two_fragments :: frame where
  "two_fragments = \<lparr>frm_id = 3, frm_type = KEY, frm_frags = [Some (make_datagram 3 KEY 0 2 [1, 2]),
     Some (make_datagram 3 KEY 1 2 [7])], frm_null_frags = 0, frm_frame_size = 3\<rparr>"

lemma two_fragments_inv: "frame_inv two_fragments" "frame_complete two_fragments"
  by (simp_all add: two_fragments_def frame_inv_def frame_complete_def belongs_def frag_bytes_def
      make_datagram_def less_Suc_eq nth_Cons')

theorem decode_frame_bytes_witness:
  "decode_frame recording_vpx 5 two_fragments [] = (Inr 5, [[1, 2, 7]])"
  using decode_frame_bytes [OF two_fragments_inv, of recording_vpx 5 "[]"]
  by (simp add: recording_vpx_def two_fragments_def frame_bytes_def frag_bytes_def make_datagram_def)

end
