(* ===== verification/Video_Receiver.thy ===== *)
theory Video_Receiver
  imports Worker Sockets
begin

text \<open>
  The model of \<open>src/app/video_receiver.cc\<close>: command line, request of a configuration, and the main
  loop that acknowledges each datagram, adds it to the decoder and consumes the frames that became
  decodable; then the interleaving of the main thread with the worker thread.
\<close>

section \<open>Command line\<close>

text \<open>
  The options in the order \<open>getopt_long\<close> returns them, each with its argument; any other character is
  the default case, which prints the usage and exits (\<open>None\<close>).
\<close>

record receiver_config =
  rc_frame_rate :: u16
  rc_bitrate :: u32
  rc_lazy_level :: int
  rc_output_path :: bytes
  rc_verbose :: bool

definition receiver_defaults :: receiver_config where
  "receiver_defaults = \<lparr>rc_frame_rate = 30, rc_bitrate = 0, rc_lazy_level = 0, rc_output_path = [],
     rc_verbose = False\<rparr>"

definition parse_u16 :: "bytes \<Rightarrow> u16 result" where
  "parse_u16 str = bind_result (strict_stoi str 10) (\<lambda>v.
     bind_result (narrow_cast uint16_t int_t v) (\<lambda>n. Inr (word_of_int n)))"

fun receiver_options :: "(char \<times> bytes) list \<Rightarrow> receiver_config \<Rightarrow> receiver_config option result" where
  "receiver_options [] cfg = Inr (Some cfg)"
| "receiver_options ((opt, optarg) # opts) cfg =
     (if opt = CHR ''F'' then
        bind_result (parse_u16 optarg) (\<lambda>v. receiver_options opts (cfg\<lparr>rc_frame_rate := v\<rparr>))
      else if opt = CHR ''C'' then
        bind_result (strict_stoi optarg 10) (\<lambda>v. receiver_options opts (cfg\<lparr>rc_bitrate := word_of_int v\<rparr>))
      else if opt = CHR ''L'' then
        bind_result (strict_stoi optarg 10) (\<lambda>v. receiver_options opts (cfg\<lparr>rc_lazy_level := v\<rparr>))
      else if opt = CHR ''o'' then receiver_options opts (cfg\<lparr>rc_output_path := optarg\<rparr>)
      else if opt = CHR ''v'' then receiver_options opts (cfg\<lparr>rc_verbose := True\<rparr>)
      else Inr None)"

record receiver_args =
  ra_host :: bytes
  ra_port :: u16
  ra_width :: u16
  ra_height :: u16

definition receiver_positional :: "bytes list \<Rightarrow> receiver_args option result" where
  "receiver_positional args =
     (case args of
        [host, port, width, height] \<Rightarrow>
          bind_result (parse_u16 port) (\<lambda>p.
          bind_result (parse_u16 width) (\<lambda>w.
          bind_result (parse_u16 height) (\<lambda>h.
          Inr (Some \<lparr>ra_host = host, ra_port = p, ra_width = w, ra_height = h\<rparr>))))
      | _ \<Rightarrow> Inr None)"

section \<open>The main loop\<close>

text \<open>The configuration the receiver requests once its socket is connected.\<close>

definition request_config :: "'w net \<Rightarrow> file_descriptor \<Rightarrow> receiver_config \<Rightarrow> receiver_args \<Rightarrow> ('w, bool) action" where
  "request_config net sock cfg args =
     udp_send net sock (serialize_to_string (ConfigMsg
       (config_msg_new (ra_width args) (ra_height args) (rc_frame_rate cfg) (rc_bitrate cfg))))"

text \<open>
  The loop over the decodable frames. The clock readings of its \<open>n\<close>-th round are \<open>clock n\<close>. The loop
  need not end, so its result is an option.
\<close>

partial_function (option) consume_loop ::
  "'w os \<Rightarrow> (nat \<Rightarrow> int \<times> u64) \<Rightarrow> nat \<Rightarrow> decoder \<Rightarrow> 'w \<Rightarrow> (unit result \<times> decoder \<times> 'w) option" where
  "consume_loop os clock n d w =
     (case next_frame_complete d of
        (Inl e, d') \<Rightarrow> Some (Inl e, d', w)
      | (Inr again, d') \<Rightarrow>
          if \<not> again then Some (Inr (), d', w)
          else (case consume_next_frame os (fst (clock n)) (snd (clock n)) (d', w) of
                  (Inl e, d'', w') \<Rightarrow> Some (Inl e, d'', w')
                | (Inr _, d'', w') \<Rightarrow> consume_loop os clock (n + 1) d'' w'))"

text \<open>One datagram: received, parsed, acknowledged, added.\<close>

definition receive_datagram :: "'w net \<Rightarrow> file_descriptor \<Rightarrow> (decoder \<times> 'w, unit) action" where
  "receive_datagram net sock = (\<lambda>(d, w).
     case udp_recv net sock w of
       (Inl e, w1) \<Rightarrow> (Inl e, d, w1)
     | (Inr raw_data, w1) \<Rightarrow>
         (case optional_value raw_data of
            Inl e \<Rightarrow> (Inl e, d, w1)
          | Inr binary \<Rightarrow>
              (case datagram_parse_from_string binary new_datagram of
                 (Inl e, _) \<Rightarrow> (Inl e, d, w1)
               | (Inr ok, datagram) \<Rightarrow>
                   if \<not> ok then (Inl (Runtime_Error ''failed to parse a datagram''), d, w1)
                   else
                     (case udp_send net sock (serialize_to_string (AckMsg (ack_of_datagram datagram))) w1 of
                        (Inl e, w2) \<Rightarrow> (Inl e, d, w2)
                      | (Inr _, w2) \<Rightarrow>
                          let (r, d') = add_datagram datagram d in (r, d', w2)))))"

definition receiver_round :: "'w net \<Rightarrow> 'w os \<Rightarrow> file_descriptor \<Rightarrow> (nat \<Rightarrow> int \<times> u64) \<Rightarrow> decoder \<Rightarrow> 'w
    \<Rightarrow> (unit result \<times> decoder \<times> 'w) option" where
  "receiver_round net os sock clock d w =
     (case receive_datagram net sock (d, w) of
        (Inl e, d', w') \<Rightarrow> Some (Inl e, d', w')
      | (Inr _, d', w') \<Rightarrow> consume_loop os clock 0 d' w')"

section \<open>The loop ends\<close>

definition no_last_id :: "decoder \<Rightarrow> bool" where
  "no_last_id d = (\<forall>k \<in> fst ` set (dec_frame_buf d). k \<noteq> - 1)"

text \<open>
  The frame after those that were consumed; and frames each of which is the one after its predecessor, the first
  one \<open>k\<close>, or does not refer to a predecessor.
\<close>

definition after_last :: "u32 \<Rightarrow> frame list \<Rightarrow> u32" where
  "after_last k fs = (if fs = [] then k else frm_id (last fs) + 1)"

fun chained :: "u32 \<Rightarrow> frame list \<Rightarrow> bool" where
  "chained k [] = True"
| "chained k (f # fs) = ((frm_id f = k \<or> frm_type f = KEY) \<and> chained (frm_id f + 1) fs)"

lemma after_last_simps [simp]:
  "after_last k [] = k"
  "after_last k (f # fs) = after_last (frm_id f + 1) fs"
  "after_last (after_last k fs) gs = after_last k (fs @ gs)"
  by (simp_all add: after_last_def)

lemma chained_append [simp]: "chained k (fs @ gs) = (chained k fs \<and> chained (after_last k fs) gs)"
  by (induction fs arbitrary: k) auto

text \<open>A round of the loop that consumes a frame.\<close>

lemma consume_step:
  assumes "decoder_inv d" and "no_last_id d" and "no_output d"
    and "next_frame_complete d = (Inr True, d')"
  obtains f d'' where "consume_next_frame os now ts (d', w) = (Inr (), d'', w)"
    and "decoder_inv d''" and "no_last_id d''" and "no_output d''"
    and "length (dec_frame_buf d'') < length (dec_frame_buf d)"
    and "(frm_id f, f) \<in> set (dec_frame_buf d)" and "frame_complete f"
    and "dec_next_frame d \<le> frm_id f" and "dec_next_frame d'' = frm_id f + 1" and "chained (dec_next_frame d) [f]"
    and "dec_shared_queue d'' = dec_shared_queue d @ (if dec_lazy_level d \<le> DECODE_ONLY then [f] else [])"
    and "dec_lazy_level d'' = dec_lazy_level d" and "dec_output_fd d'' = dec_output_fd d" and "frm_id f < frm_id f + 1"
    and "\<forall>k g. (k, g) \<in> set (dec_frame_buf d'') \<longleftrightarrow> (k, g) \<in> set (dec_frame_buf d) \<and> dec_next_frame d'' \<le> k"
proof -
  note ready = next_frame_complete_ready [OF assms(1,4)]
  have inv: "decoder_inv d'" by (rule next_frame_complete_inv [OF assms(1,4)])
  obtain f where f: "ready_frame d' = Some f" using ready(1) by blast
  note at = ready_frameD [OF f]
  note wf = decoder_invD(1) [OF inv]
  have entry: "(dec_next_frame d', f) \<in> set (dec_frame_buf d')"
    using at(1) wf by (simp add: om.find_Some_iff)
  have id: "frm_id f = dec_next_frame d'" using decoder_invD(3) [OF inv entry] by simp
  have bound: "unat (dec_next_frame d') + 1 < 2 ^ 32"
    using assms(2) entry ready(3) by (intro not_last_id) (force simp: no_last_id_def)
  have out: "no_output d'" using assms(3) ready(4,5) by (simp add: no_output_def)
  let ?d = "count_frame now f d'"
  let ?d'' = "dispatched f ?d"
  have "decoder_inv ?d" using inv by (simp add: decoder_inv_def)
  then have inv'': "decoder_inv ?d''" using bound by (simp add: dispatched_inv)
  have buf'': "dec_frame_buf ?d'' = filter (\<lambda>(k, f). dec_next_frame d' < k) (dec_frame_buf d')"
    by (simp add: dispatched_def)
  have "length (dec_frame_buf ?d'') < length (dec_frame_buf d')"
    unfolding buf'' using entry by (intro length_filter_less) auto
  also have "\<dots> \<le> length (dec_frame_buf d)"
    using ready(3) decoder_invD(1) [OF assms(1)] wf om.distinct_keys
    by (metis (no_types, lifting) card_mono distinct_card distinct_map finite_set)
  finally have shrinks: "length (dec_frame_buf ?d'') < length (dec_frame_buf d)" .
  have sub: "set (dec_frame_buf ?d'') \<subseteq> set (dec_frame_buf d)" unfolding buf'' using ready(3) by auto
  then have last'': "no_last_id ?d''" using assms(2) by (auto simp: no_last_id_def)
  have "unat (dec_next_frame d' + 1) = unat (dec_next_frame d') + 1"
    using unat_add_no_wrap [of "dec_next_frame d'" 1] bound by simp
  then have less: "dec_next_frame d' < dec_next_frame d' + 1" by (simp add: word_less_nat_alt)
  have kept: "(k, g) \<in> set (dec_frame_buf ?d'') \<longleftrightarrow> (k, g) \<in> set (dec_frame_buf d) \<and> dec_next_frame d' + 1 \<le> k" for k g
    unfolding buf'' using ready(7) [of k g] successor_le_iff [OF bound, of k] by auto
  show thesis
  proof (rule that [of ?d'' f])
    show "consume_next_frame os now ts (d', w) = (Inr (), ?d'', w)"
      by (rule consume_next_frame_result [OF inv f bound out])
  qed (use inv'' last'' shrinks kept entry ready(1-6) ready(8) [OF f] id at(2) out less in
      \<open>auto simp: dispatched_def no_output_def\<close>)
qed

lemma consume_loop_ends:
  assumes "decoder_inv d" and "no_last_id d" and "no_output d"
  shows "\<exists>d' fs. consume_loop os clock n d w = Some (Inr (), d', w) \<and> decoder_inv d' \<and>
    no_last_id d' \<and> next_frame_complete d' = (Inr False, d') \<and> dec_next_frame d \<le> dec_next_frame d' \<and>
    dec_shared_queue d' = dec_shared_queue d @ (if dec_lazy_level d \<le> DECODE_ONLY then fs else []) \<and>
    sorted_wrt (<) (map frm_id fs) \<and>
    (\<forall>f \<in> set fs. (frm_id f, f) \<in> set (dec_frame_buf d) \<and> frame_complete f \<and>
       dec_next_frame d \<le> frm_id f \<and> frm_id f < dec_next_frame d') \<and>
    no_output d' \<and> dec_lazy_level d' = dec_lazy_level d \<and> dec_output_fd d' = dec_output_fd d \<and>
    (\<forall>k f. (k, f) \<in> set (dec_frame_buf d') \<longleftrightarrow> (k, f) \<in> set (dec_frame_buf d) \<and> dec_next_frame d' \<le> k) \<and>
    dec_next_frame d' = after_last (dec_next_frame d) fs \<and> chained (dec_next_frame d) fs"
  using assms
proof (induction "length (dec_frame_buf d)" arbitrary: d n w rule: less_induct)
  case less
  show ?case
  proof (cases "next_frame_complete d")
    case (Pair r d1)
    with next_frame_complete_inv [OF less.prems(1)] have inv1: "decoder_inv d1" by blast
    have "r \<noteq> Inl e" for e
      using Pair skip_to_key_frame_result [OF less.prems(1)]
      by (auto simp: next_frame_complete_cases split: option.splits)
    then obtain b where r: "r = Inr b" by (cases r) auto
    show ?thesis
    proof (cases b)
      case False
      then have "d1 = d" using Pair r skip_to_key_frame_result [OF less.prems(1)]
        by (auto simp: next_frame_complete_cases split: option.splits)
      with False Pair r less.prems show ?thesis
        using decoder_invD(3) [OF less.prems(1)]
        by (intro exI [of _ d] exI [of _ "[]"]) (auto simp: consume_loop.simps [of os clock n d])
    next
      case True
      with Pair r have step: "next_frame_complete d = (Inr True, d1)" by simp
      obtain f d2 where c: "consume_next_frame os (fst (clock n)) (snd (clock n)) (d1, w) = (Inr (), d2, w)"
        "decoder_inv d2" "no_last_id d2" "no_output d2"
        "length (dec_frame_buf d2) < length (dec_frame_buf d)"
        "(frm_id f, f) \<in> set (dec_frame_buf d)" "frame_complete f"
        "dec_next_frame d \<le> frm_id f" "dec_next_frame d2 = frm_id f + 1" "chained (dec_next_frame d) [f]"
        "dec_shared_queue d2 = dec_shared_queue d @ (if dec_lazy_level d \<le> DECODE_ONLY then [f] else [])"
        "dec_lazy_level d2 = dec_lazy_level d" "dec_output_fd d2 = dec_output_fd d" "frm_id f < frm_id f + 1"
        "\<forall>k g. (k, g) \<in> set (dec_frame_buf d2) \<longleftrightarrow> (k, g) \<in> set (dec_frame_buf d) \<and> dec_next_frame d2 \<le> k"
        by (rule consume_step [OF less.prems step, of os "fst (clock n)" "snd (clock n)" w])
      obtain d' fs where IH: "consume_loop os clock (n + 1) d2 w = Some (Inr (), d', w)" "decoder_inv d'"
        "no_last_id d'" "next_frame_complete d' = (Inr False, d')" "dec_next_frame d2 \<le> dec_next_frame d'"
        "dec_shared_queue d' = dec_shared_queue d2 @ (if dec_lazy_level d2 \<le> DECODE_ONLY then fs else [])"
        "sorted_wrt (<) (map frm_id fs)"
        "\<forall>f \<in> set fs. (frm_id f, f) \<in> set (dec_frame_buf d2) \<and> frame_complete f \<and>
           dec_next_frame d2 \<le> frm_id f \<and> frm_id f < dec_next_frame d'"
        "no_output d'" "dec_lazy_level d' = dec_lazy_level d2" "dec_output_fd d' = dec_output_fd d2"
        "\<forall>k g. (k, g) \<in> set (dec_frame_buf d') \<longleftrightarrow> (k, g) \<in> set (dec_frame_buf d2) \<and> dec_next_frame d' \<le> k"
        "dec_next_frame d' = after_last (dec_next_frame d2) fs" "chained (dec_next_frame d2) fs"
        using less.hyps [OF c(5,2,3,4), of "n + 1" w] by (elim exE conjE)
      have "consume_loop os clock n d w = Some (Inr (), d', w)"
        using step c(1) IH(1) by (simp add: consume_loop.simps [of os clock n d])
      moreover have f_next: "frm_id f < dec_next_frame d2" using c(9,14) by simp
      then have f_end: "frm_id f < dec_next_frame d'" using IH(5) by (rule less_le_trans)
      have later: "frm_id f < frm_id g \<and> (frm_id g, g) \<in> set (dec_frame_buf d) \<and>
          frame_complete g \<and> frm_id g < dec_next_frame d'" if "g \<in> set fs" for g
        using IH(8) that c(15) less_le_trans [OF f_next] by blast
      have "sorted_wrt (<) (map frm_id (f # fs))" using IH(7) later by simp
      moreover have "dec_next_frame d \<le> frm_id g" if "g \<in> set (f # fs)" for g
        using that c(8) later less_imp_le order_trans by (metis set_ConsD)
      moreover have "\<forall>g \<in> set (f # fs). (frm_id g, g) \<in> set (dec_frame_buf d) \<and> frame_complete g \<and>
          frm_id g < dec_next_frame d'"
        using later c(6,7) f_end by simp
      moreover have "dec_next_frame d \<le> dec_next_frame d'"
        using c(8) f_end by (meson le_less_trans less_imp_le)
      moreover have "(k, g) \<in> set (dec_frame_buf d') \<longleftrightarrow> (k, g) \<in> set (dec_frame_buf d) \<and> dec_next_frame d' \<le> k" for k g
        using IH(5,12) c(15) order_trans by blast
      moreover have "dec_next_frame d' = after_last (dec_next_frame d) (f # fs)" "chained (dec_next_frame d) (f # fs)"
        using IH(13,14) c(9,10) by simp_all
      ultimately show ?thesis using IH(2,3,4,6,9,10,11) c(11,12,13)
        by (intro exI [of _ d'] exI [of _ "f # fs"]) simp
    qed
  qed
qed

section \<open>The loop that does not end\<close>

text \<open>
  The frame counter wraps after the frame with the last id, \<open>2^32 - 1\<close>: \<open>clean_up_to(0)\<close> then keeps
  that frame, moved from or not, and it stays the latest complete key frame for ever.
\<close>

definition last_key_stuck :: "decoder \<Rightarrow> bool" where
  "last_key_stuck d =
     (om_wf (dec_frame_buf d) \<and> no_output d \<and>
      (\<exists>f. om_find (dec_frame_buf d) (- 1) = Some f \<and> frame_complete f \<and> frm_type f = KEY))"

lemma last_word_max: "(k :: u32) \<le> - 1"
  by (rule word_order.extremum)

lemma stuck_advance:
  assumes "last_key_stuck d"
  shows "last_key_stuck (advance_next_frame n d)"
proof -
  have wf: "om_wf (dec_frame_buf d)" using assms by (simp add: last_key_stuck_def)
  show ?thesis
    using assms om_find_filter [of "\<lambda>k. dec_next_frame d + n \<le> k" "dec_frame_buf d" "- 1"] last_word_max
    by (simp add: last_key_stuck_def advance_next_frame_def Let_def clean_up_to_filter [OF wf]
        om_wf_filter no_output_def)
qed

lemma stuck_next_complete:
  assumes "last_key_stuck d"
  shows "\<exists>d' f. next_frame_complete d = (Inr True, d') \<and> last_key_stuck d' \<and> ready_frame d' = Some f"
proof (cases "ready_frame d")
  case (Some f)
  then show ?thesis using assms by (simp add: next_frame_complete_cases)
next
  case None
  obtain f where f: "om_find (dec_frame_buf d) (- 1) = Some f" "frame_complete f" "frm_type f = KEY"
    and wf: "om_wf (dec_frame_buf d)"
    using assms by (auto simp: last_key_stuck_def)
  have entry: "(- 1, f) \<in> set (dec_frame_buf d)" using f(1) wf by (simp add: om.find_Some_iff)
  have behind: "dec_next_frame d \<noteq> - 1" using None f by (auto simp: ready_frame_def)
  have "find_key_frame (rev (dec_frame_buf d)) \<noteq> None"
    using find_key_frame_None [of "rev (dec_frame_buf d)"] entry f(2,3) by auto
  then obtain k where k: "find_key_frame (rev (dec_frame_buf d)) = Some k" by blast
  then have "k = - 1"
    using find_key_frame_Some [OF k wf] entry f(2,3) last_word_max by (metis (mono_tags, lifting) case_prodD order_antisym)
  moreover have "dec_next_frame d < - 1" using behind last_word_max by (simp add: order_less_le)
  ultimately have "next_frame_complete d = (Inr True, advance_next_frame (- 1 - dec_next_frame d) d)"
    using k by (simp add: next_frame_complete_cases None skip_to_key_frame_def Let_def)
  moreover have "ready_frame (advance_next_frame (- 1 - dec_next_frame d) d) = Some f"
    using f om_find_filter [of "\<lambda>k. - 1 \<le> k" "dec_frame_buf d" "- 1"]
    by (simp add: ready_frame_def advance_next_frame_def Let_def clean_up_to_filter [OF wf])
  ultimately show ?thesis using stuck_advance [OF assms] by blast
qed

lemma stuck_consume:
  assumes "last_key_stuck d" and "ready_frame d = Some f"
  shows "\<exists>d'. consume_next_frame os now ts (d, w) = (Inr (), d', w) \<and> last_key_stuck d'"
proof -
  note f = ready_frameD [OF assms(2)]
  have at: "map_at (dec_frame_buf d) (dec_next_frame d) = Inr f" by (simp add: map_at_def f(1))
  let ?d = "count_frame now f d"
  have out: "no_output d" using assms(1) by (simp add: last_key_stuck_def)
  have stuck: "last_key_stuck ?d" using assms(1) by (simp add: last_key_stuck_def no_output_def)
  show ?thesis
  proof (cases "dec_lazy_level d \<le> DECODE_ONLY")
    case True
    let ?m = "map_set (dec_next_frame d) (moved_from f) (dec_frame_buf d)"
    obtain g where g: "om_find (dec_frame_buf d) (- 1) = Some g" "frame_complete g" "frm_type g = KEY"
      using assms(1) by (auto simp: last_key_stuck_def)
    have "\<exists>h. om_find ?m (- 1) = Some h \<and> frame_complete h \<and> frm_type h = KEY"
      using g f(1) by (auto simp: om_find_map_set [OF f(1)] moved_from_def frame_complete_def)
    then have "last_key_stuck (?d\<lparr>dec_shared_queue := dec_shared_queue d @ [f], dec_frame_buf := ?m\<rparr>)"
      using assms(1) by (simp add: last_key_stuck_def om_wf_map_set no_output_def)
    from stuck_advance [OF this, of 1] show ?thesis using True f(2,3)
      by (simp add: consume_next_frame_def at Let_def optional_value_def count_frame_def [symmetric])
  next
    case False
    with out have "dec_output_fd d = None" by (simp add: no_output_def)
    with False stuck_advance [OF stuck, of 1] show ?thesis using f(2,3)
      by (simp add: consume_next_frame_def at Let_def optional_value_def count_frame_def [symmetric])
  qed
qed

lemma stuck_loop:
  assumes "consume_loop os clock n d w = Some y"
  shows "\<not> last_key_stuck d"
proof (rule consume_loop.raw_induct [where P = "\<lambda>os clock n d w y. \<not> last_key_stuck d", OF _ assms])
  fix loop and os :: "'a os" and clock n d w y
  assume IH: "\<And>os clock n d w y. loop os clock n d (w :: 'a) = Some y \<Longrightarrow> \<not> last_key_stuck d"
    and round: "(case next_frame_complete d of
        (Inl e, d') \<Rightarrow> Some (Inl e, d', w)
      | (Inr again, d') \<Rightarrow>
          if \<not> again then Some (Inr (), d', w)
          else (case consume_next_frame os (fst (clock n)) (snd (clock n)) (d', w) of
                  (Inl e, d'', w') \<Rightarrow> Some (Inl e, d'', w')
                | (Inr _, d'', w') \<Rightarrow> loop os clock (n + 1) d'' w')) = Some y"
  show "\<not> last_key_stuck d"
  proof
    assume stuck: "last_key_stuck d"
    obtain d1 f where d1: "next_frame_complete d = (Inr True, d1)" "last_key_stuck d1" "ready_frame d1 = Some f"
      using stuck_next_complete [OF stuck] by blast
    obtain d2 where d2: "consume_next_frame os (fst (clock n)) (snd (clock n)) (d1, w) = (Inr (), d2, w)"
      "last_key_stuck d2"
      using stuck_consume [OF d1(2,3), of os "fst (clock n)" "snd (clock n)" w] by auto
    have "loop os clock (n + 1) d2 w = Some y" using round d1(1) d2(1) by simp
    with IH d2(2) show False by blast
  qed
qed

section \<open>Properties of the main loop\<close>

text \<open>
  C16: as long as no output line fails and no buffered frame has the id \<open>2^32 - 1\<close>, the loop over the
  decodable frames ends, without an exception, in a state where no frame is decodable; it hands to
  the worker, when there is one, complete frames of the buffer with strictly increasing ids, none
  before the old and all before the new \<open>next_frame_\<close>.
\<close>

theorem consume_loop_terminates:
  assumes "decoder_inv d" and "\<forall>(k, f) \<in> set (dec_frame_buf d). k \<noteq> - 1"
    and "dec_lazy_level d \<le> DECODE_ONLY \<or> dec_output_fd d = None"
  shows "\<exists>d' fs. consume_loop os clock n d w = Some (Inr (), d', w) \<and> decoder_inv d' \<and>
    next_frame_complete d' = (Inr False, d') \<and>
    dec_shared_queue d' = dec_shared_queue d @ (if dec_lazy_level d \<le> DECODE_ONLY then fs else []) \<and>
    sorted_wrt (<) (map frm_id fs) \<and>
    (\<forall>f \<in> set fs. om_find (dec_frame_buf d) (frm_id f) = Some f \<and> frame_complete f \<and>
       dec_next_frame d \<le> frm_id f \<and> frm_id f < dec_next_frame d')"
proof -
  have "no_last_id d" "no_output d" using assms(2,3) by (auto simp: no_last_id_def no_output_def)
  from consume_loop_ends [OF assms(1) this, of os clock n w] show ?thesis
    using decoder_invD(1) [OF assms(1)] by (fastforce simp: om.find_Some_iff)
qed

theorem consume_loop_terminates_witness:
  "\<exists>d' fs. consume_loop (stream_os 1) (\<lambda>_. (0, 0)) 0 waiting_decoder ([], []) = Some (Inr (), d', [], []) \<and>
    dec_shared_queue d' = fs \<and> sorted_wrt (<) (map frm_id fs)"
  using consume_loop_terminates [OF waiting_decoder_inv, of "stream_os 1" "\<lambda>_. (0, 0)" 0 "([], [])"]
  by (auto simp: waiting_decoder_def DECODE_ONLY_def)

text \<open>
  C17: one datagram is enough to keep the receiver in this loop for ever: a single-fragment key frame
  whose id is \<open>2^32 - 1\<close>, the last one before the frame counter wraps.
\<close>

theorem last_frame_id_hangs:
  assumes "decoder_inv d" and "om_find (dec_frame_buf d) (- 1) = None"
    and "dec_lazy_level d \<le> DECODE_ONLY \<or> dec_output_fd d = None"
  shows "consume_loop os clock n (snd (add_datagram (make_datagram (- 1) KEY 0 1 payload) d)) w = None"
proof -
  let ?dg = "make_datagram (- 1) KEY 0 1 payload"
  let ?d = "snd (add_datagram ?dg d)"
  let ?f = "\<lparr>frm_id = - 1, frm_type = KEY, frm_frags = [None], frm_null_frags = 1, frm_frame_size = 0\<rparr>"
  have target: "target_frame d ?dg = Inr ?f"
    using assms(2) by (simp add: target_frame_def frame_new_def make_datagram_def)
  have "\<not> dg_frame_id ?dg < dec_next_frame d" using last_word_max by (simp add: make_datagram_def not_less)
  then obtain m where m: "?d = d\<lparr>dec_frame_buf := m\<rparr>" "om_wf m"
    "om_find m = (om_find (dec_frame_buf d))(- 1 \<mapsto> snd (insert_frag ?dg ?f))"
    using add_datagram_result [OF assms(1), of ?dg] target by (auto simp: make_datagram_def)
  have "frame_complete (snd (insert_frag ?dg ?f)) \<and> frm_type (snd (insert_frag ?dg ?f)) = KEY"
    by (simp add: insert_frag_cases belongs_def make_datagram_def frame_complete_def)
  then have "last_key_stuck ?d"
    using m assms(3) by (simp add: last_key_stuck_def no_output_def)
  then show ?thesis using stuck_loop by (metis not_None_eq)
qed

theorem last_frame_id_hangs_witness:
  "consume_loop (stream_os 1) (\<lambda>_. (0, 0)) 0
     (snd (add_datagram (make_datagram (- 1) KEY 0 1 [1]) waiting_decoder)) ([], []) = None"
  by (rule last_frame_id_hangs [OF waiting_decoder_inv])
    (simp_all add: waiting_decoder_def om_find_def DECODE_ONLY_def)

end
