(* ===== verification/Delivery.thy ===== *)
theory Delivery
  imports Video_Receiver
begin

text \<open>
  The two programs together: frames that the encoder of \<open>src/app/encoder.cc\<close> cut into datagrams, a network
  that loses, repeats and reorders them, and the main loop of \<open>src/app/video_receiver.cc\<close> that
  acknowledges them and reassembles the frames.
\<close>

section \<open>What was sent\<close>

text \<open>A frame that was sent: its type, its bytes, and the datagrams it was cut into.\<close>

record sent_frame =
  sf_type :: frame_type
  sf_data :: bytes
  sf_datagrams :: "datagram list"

text \<open>The encoder packetised the frame, as its frame \<open>k\<close>.\<close>

definition encoded_as :: "u32 \<Rightarrow> 'c vpx_encoder \<Rightarrow> nat \<Rightarrow> 'c encoder \<Rightarrow> sent_frame \<Rightarrow> bool" where
  "encoded_as k vpx M e sf \<longleftrightarrow>
     (\<exists>is_key. enc_frame_id e = k \<and> sf_type sf = (if is_key then KEY else NONKEY) \<and>
        frame_pkts (vpx_get_cx_data vpx (enc_context e)) = [(sf_data sf, is_key)] \<and>
        sf_data sf \<noteq> [] \<and> length (sf_data sf) div (M + 1) + 1 < 2 ^ 16 \<and>
        enc_send_buf (snd (packetize_encoded_frame vpx M e)) = enc_send_buf e @ sf_datagrams sf)"

lemma encoded_cut:
  assumes "encoded_as k vpx M e sf"
  shows "cut_into k (sf_type sf) (sf_data sf) (sf_datagrams sf)"
  using assms packetize_cut [of vpx e "sf_data sf" _ M] by (fastforce simp: encoded_as_def)

text \<open>
  A message that carries fragment \<open>i\<close> of frame \<open>k\<close>, sent at any time: a retransmission differs in nothing
  else, because the other fields are not transmitted.
\<close>

definition carries :: "(u32 \<Rightarrow> sent_frame option) \<Rightarrow> u32 \<Rightarrow> nat \<Rightarrow> bytes \<Rightarrow> bool" where
  "carries tm k i m \<longleftrightarrow>
     (\<exists>sf t. tm k = Some sf \<and> i < length (sf_datagrams sf) \<and>
        m = datagram_serialize_to_string ((sf_datagrams sf ! i)\<lparr>dg_send_ts := t\<rparr>))"

text \<open>The frame counter does not wrap.\<close>

definition transmission :: "(u32 \<Rightarrow> sent_frame option) \<Rightarrow> bool" where
  "transmission tm \<longleftrightarrow>
     (\<forall>k sf. tm k = Some sf \<longrightarrow> k \<noteq> - 1 \<and> cut_into k (sf_type sf) (sf_data sf) (sf_datagrams sf))"

lemma carries_parsed:
  assumes "transmission tm" and "carries tm k i m"
  obtains d sf where "datagram_parse_from_string m new_datagram = (Inr True, d)" and "tm k = Some sf"
    and "i < length (sf_datagrams sf)" and "length (sf_datagrams sf) < 2 ^ 16"
    and "dg_frame_id d = k" and "dg_frame_type d = sf_type sf" and "unat (dg_frag_id d) = i"
    and "unat (dg_frag_cnt d) = length (sf_datagrams sf)" and "dg_payload d = dg_payload (sf_datagrams sf ! i)"
proof -
  obtain sf t where sf: "tm k = Some sf" "i < length (sf_datagrams sf)"
    and m: "m = datagram_serialize_to_string ((sf_datagrams sf ! i)\<lparr>dg_send_ts := t\<rparr>)"
    using assms(2) by (auto simp: carries_def)
  have cut: "cut_into k (sf_type sf) (sf_data sf) (sf_datagrams sf)"
    using assms(1) sf(1) by (simp add: transmission_def)
  let ?x = "sf_datagrams sf ! i"
  have small: "length (sf_datagrams sf) < 2 ^ 16" using cut by (simp add: cut_into_def)
  have x: "?x = make_datagram k (sf_type sf) (word_of_nat i) (word_of_nat (length (sf_datagrams sf))) (dg_payload ?x)"
    using cut sf(2) unfolding cut_into_def by blast
  have fields: "dg_frame_id ?x = k" "dg_frame_type ?x = sf_type sf" "dg_frag_id ?x = word_of_nat i"
    "dg_frag_cnt ?x = word_of_nat (length (sf_datagrams sf))"
    by (subst x, simp add: make_datagram_def)+
  have "unat (word_of_nat i :: u16) = i" "unat (word_of_nat (length (sf_datagrams sf)) :: u16) = length (sf_datagrams sf)"
    using sf(2) small by (simp_all add: unat_of_nat_small)
  with that [OF datagram_reparse [of "?x\<lparr>dg_send_ts := t\<rparr>" new_datagram, folded m] sf small] fields show thesis by simp
qed

lemma carries_unique:
  assumes "transmission tm" and "carries tm k i m" and "carries tm k' i' m"
  shows "k' = k \<and> i' = i"
  using carries_parsed [OF assms(1,2)] carries_parsed [OF assms(1,3)] by (metis prod.inject)


section \<open>The receiver's side\<close>

text \<open>
  A frame of the decoder holds, in every slot that is filled, the payload that was sent; and a slot of a frame
  that is still expected is filled when a message that carries its fragment was received.
\<close>

definition part_of :: "sent_frame \<Rightarrow> frame \<Rightarrow> bool" where
  "part_of sf f \<longleftrightarrow>
     frm_type f = sf_type sf \<and> length (frm_frags f) = length (sf_datagrams sf) \<and>
     (\<forall>i < length (frm_frags f). \<forall>x. frm_frags f ! i = Some x \<longrightarrow> dg_payload x = dg_payload (sf_datagrams sf ! i))"

definition received_inv :: "(u32 \<Rightarrow> sent_frame option) \<Rightarrow> bytes set \<Rightarrow> decoder \<Rightarrow> bool" where
  "received_inv tm ms d \<longleftrightarrow>
     decoder_inv d \<and> no_output d \<and>
     (\<forall>(k, f) \<in> set (dec_frame_buf d). \<exists>sf. tm k = Some sf \<and> part_of sf f) \<and>
     (\<forall>m \<in> ms. \<forall>k i. carries tm k i m \<and> dec_next_frame d \<le> k \<longrightarrow>
        (\<exists>f. (k, f) \<in> set (dec_frame_buf d) \<and> frm_frags f ! i \<noteq> None))"

lemma complete_part:
  assumes "part_of sf f" and "frame_inv f" and "frame_complete f"
    and "cut_into k (sf_type sf) (sf_data sf) (sf_datagrams sf)"
  shows "frame_bytes f = sf_data sf"
proof -
  have full: "None \<notin> set (frm_frags f)" using complete_iff [OF assms(2)] assms(3) by simp
  have "map frag_bytes (frm_frags f) = map dg_payload (sf_datagrams sf)"
  proof (rule nth_equalityI)
    show "length (map frag_bytes (frm_frags f)) = length (map dg_payload (sf_datagrams sf))"
      using assms(1) by (simp add: part_of_def)
    fix i assume "i < length (map frag_bytes (frm_frags f))"
    then have i: "i < length (frm_frags f)" by simp
    then obtain x where "frm_frags f ! i = Some x" using full by (metis nth_mem not_None_eq)
    with i show "map frag_bytes (frm_frags f) ! i = map dg_payload (sf_datagrams sf) ! i"
      using assms(1) by (simp add: part_of_def frag_bytes_def)
  qed
  then show ?thesis using assms(4) by (simp add: frame_bytes_def cut_into_def)
qed

lemma part_insert:
  assumes "part_of sf f" and "belongs d f" and "dg_payload d = dg_payload (sf_datagrams sf ! unat (dg_frag_id d))"
  shows "part_of sf (snd (insert_frag d f))"
  using assms by (auto simp: insert_frag_cases part_of_def belongs_def nth_list_update split: if_splits)

lemma insert_fills:
  assumes "belongs d f" and "frm_frags f ! i \<noteq> None \<or> i = unat (dg_frag_id d)"
  shows "frm_frags (snd (insert_frag d f)) ! i \<noteq> None"
  using assms by (auto simp: insert_frag_cases nth_list_update belongs_def)

lemma add_received:
  assumes tm: "transmission tm" and inv: "received_inv tm ms d" and carried: "carries tm k i m"
    and parsed: "datagram_parse_from_string m new_datagram = (Inr True, x)"
  shows "\<exists>b. add_datagram x d = (Inr (), d\<lparr>dec_frame_buf := b\<rparr>) \<and>
    received_inv tm (insert m ms) (d\<lparr>dec_frame_buf := b\<rparr>)"
proof -
  obtain sf where sf: "tm k = Some sf" "i < length (sf_datagrams sf)" "length (sf_datagrams sf) < 2 ^ 16"
    and x: "dg_frame_id x = k" "dg_frame_type x = sf_type sf" "unat (dg_frag_id x) = i"
      "unat (dg_frag_cnt x) = length (sf_datagrams sf)" "dg_payload x = dg_payload (sf_datagrams sf ! i)"
    using carries_parsed [OF tm carried] parsed by (metis prod.inject)
  have d: "decoder_inv d" using inv by (simp add: received_inv_def)
  note wf = decoder_invD(1) [OF d]
  have only: "k' = k \<and> i' = i" if "carries tm k' i' m" for k' i'
    using carries_unique [OF tm carried that] .
  show ?thesis
  proof (cases "k < dec_next_frame d")
    case True
    then have "add_datagram x d = (Inr (), d\<lparr>dec_frame_buf := dec_frame_buf d\<rparr>)"
      using add_datagram_result [OF d, of x] x(1) by simp
    moreover have "\<forall>k' i'. carries tm k' i' m \<and> dec_next_frame d \<le> k' \<longrightarrow> False"
    proof (intro allI impI, elim conjE)
      fix k' i' assume "carries tm k' i' m" "dec_next_frame d \<le> k'"
      with only [of k' i'] have "dec_next_frame d \<le> k" by simp
      with True show False by (simp add: not_le [symmetric])
    qed
    then have "received_inv tm (insert m ms) d" using inv unfolding received_inv_def by blast
    ultimately show ?thesis by (intro exI [of _ "dec_frame_buf d"]) simp
  next
    case False
    have "dg_frag_cnt x \<noteq> 0" using x(4) sf(2) by (metis gr_implies_not0 unat_eq_0)
    then obtain f where f: "target_frame d x = Inr f"
      by (cases "om_find (dec_frame_buf d) k") (auto simp: target_frame_def frame_new_def x(1))
    have buffered: "(k, g) \<in> set (dec_frame_buf d) \<Longrightarrow> g = f" for g
      using f x(1) wf by (simp add: target_frame_def flip: om.find_Some_iff)
    have part: "part_of sf f"
    proof (cases "om_find (dec_frame_buf d) k")
      case None
      then have "frame_new k (sf_type sf) (dg_frag_cnt x) = Inr f" using f x(1,2) by (simp add: target_frame_def)
      from frame_new_inv(3,5) [OF this] show ?thesis by (simp add: part_of_def x(4))
    next
      case (Some g)
      then have "(k, g) \<in> set (dec_frame_buf d)" using wf by (simp add: om.find_Some_iff)
      then have "(k, f) \<in> set (dec_frame_buf d)" using buffered by blast
      then show ?thesis using inv sf(1) by (fastforce simp: received_inv_def)
    qed
    have id: "frm_id f = k" using target_frame_facts(2) [OF d f] x(1) by simp
    then have belongs: "belongs x f" using part sf(2) x by (simp add: belongs_def part_of_def)
    let ?g = "snd (insert_frag x f)"
    obtain b where b: "add_datagram x d = (fst (insert_frag x f), d\<lparr>dec_frame_buf := b\<rparr>)" "om_wf b"
      "om_find b = (om_find (dec_frame_buf d))(k \<mapsto> ?g)"
      using add_datagram_result [OF d, of x] False f x(1) by auto
    have ok: "fst (insert_frag x f) = Inr ()" using belongs by (simp add: insert_frag_cases)
    have member: "(k', g) \<in> set b \<longleftrightarrow> (if k' = k then g = ?g else (k', g) \<in> set (dec_frame_buf d))" for k' g
      using om.find_Some_iff [OF b(2), of k' g] om.find_Some_iff [OF wf, of k' g] by (auto simp: b(3))
    have inv': "decoder_inv (d\<lparr>dec_frame_buf := b\<rparr>)" using add_datagram_inv [OF d, of x] b(1) by simp
    have parts: "\<exists>sf. tm k' = Some sf \<and> part_of sf g" if "(k', g) \<in> set b" for k' g
      using that inv sf(1) part_insert [OF part belongs] x(3,5)
      by (fastforce simp: member received_inv_def split: if_splits)
    have filled: "\<exists>g. (k', g) \<in> set b \<and> frm_frags g ! i' \<noteq> None"
      if m': "m' \<in> insert m ms" "carries tm k' i' m'" "dec_next_frame d \<le> k'" for m' k' i'
    proof (cases "k' = k")
      case True
      have "frm_frags f ! i' \<noteq> None \<or> i' = unat (dg_frag_id x)"
      proof (cases "m' = m")
        case False
        then obtain g where "(k, g) \<in> set (dec_frame_buf d)" "frm_frags g ! i' \<noteq> None"
          using m' True inv unfolding received_inv_def by blast
        then show ?thesis using buffered by blast
      qed (use only m'(2) x(3) in blast)
      from insert_fills [OF belongs this] True show ?thesis by (auto simp: member)
    next
      case False
      then have "m' \<noteq> m" using only m'(2) by blast
      then show ?thesis using m' False inv unfolding received_inv_def by (auto simp: member)
    qed
    have "no_output d" using inv by (simp add: received_inv_def)
    then have "received_inv tm (insert m ms) (d\<lparr>dec_frame_buf := b\<rparr>)"
      using inv' parts filled unfolding received_inv_def by (simp add: no_output_def) blast
    then show ?thesis using b(1) ok by (intro exI [of _ b]) simp
  qed
qed


text \<open>
  The contract of the network: the pending messages are received whole and in turn, and sending accepts all of
  the data.
\<close>

definition delivers :: "'w net \<Rightarrow> file_descriptor \<Rightarrow> ('w \<Rightarrow> bytes list) \<Rightarrow> ('w \<Rightarrow> bytes list) \<Rightarrow> bool" where
  "delivers net sock inbox outbox \<longleftrightarrow>
     (\<forall>w m rest. inbox w = m # rest \<longrightarrow>
        (\<exists>w'. pending_datagram net (fd_num sock) m w w' \<and> inbox w' = rest \<and> outbox w' = outbox w)) \<and>
     (\<forall>w data. \<exists>w'. net_send net (fd_num sock) data w = (int (length data), w') \<and>
        inbox w' = inbox w \<and> outbox w' = outbox w @ [data])"

text \<open>The acknowledgement of a message.\<close>

definition ack_for :: "bytes \<Rightarrow> bytes" where
  "ack_for m = serialize_to_string (AckMsg (ack_of_datagram (snd (datagram_parse_from_string m new_datagram))))"

lemma receive_step:
  assumes "delivers net sock inbox outbox" and "inbox w = m # rest" and "length m \<le> 65536"
    and "transmission tm" and "received_inv tm ms d" and "carries tm k i m"
  shows "\<exists>b w'. receive_datagram net sock (d, w) = (Inr (), d\<lparr>dec_frame_buf := b\<rparr>, w') \<and>
    inbox w' = rest \<and> outbox w' = outbox w @ [ack_for m] \<and>
    received_inv tm (insert m ms) (d\<lparr>dec_frame_buf := b\<rparr>)"
proof -
  obtain w1 where pending: "pending_datagram net (fd_num sock) m w w1" and w1: "inbox w1 = rest" "outbox w1 = outbox w"
    using assms(1,2) unfolding delivers_def by blast
  have received: "udp_recv net sock w = (Inr (Some m), w1)" using udp_recv_pending [OF pending] assms(3) by simp
  obtain x sf where x: "datagram_parse_from_string m new_datagram = (Inr True, x)"
    by (rule carries_parsed [OF assms(4,6)])
  let ?ack = "ack_for m"
  have ack: "?ack = serialize_to_string (AckMsg (ack_of_datagram x))" by (simp add: ack_for_def x)
  have "0 < length ?ack" by (simp add: ack ack_serialize_to_string_def base_serialize_to_string_def codec_laws)
  moreover have "\<exists>w'. net_send net (fd_num sock) ?ack w1 = (int (length ?ack), w') \<and> inbox w' = inbox w1 \<and>
      outbox w' = outbox w1 @ [?ack]"
    using assms(1) unfolding delivers_def by blast
  then obtain w2 where w2: "net_send net (fd_num sock) ?ack w1 = (int (length ?ack), w2)" "inbox w2 = rest"
    "outbox w2 = outbox w @ [?ack]"
    using w1 by auto
  ultimately have sent: "udp_send net sock ?ack w1 = (Inr True, w2)"
    by (simp add: udp_send_def check_bytes_sent_def)
  from add_received [OF assms(4-6) x] obtain b where
    "add_datagram x d = (Inr (), d\<lparr>dec_frame_buf := b\<rparr>)" "received_inv tm (insert m ms) (d\<lparr>dec_frame_buf := b\<rparr>)"
    by blast
  with received x sent w2(2,3) show ?thesis
    by (intro exI [of _ b] exI [of _ w2]) (simp add: receive_datagram_def optional_value_def ack)
qed


section \<open>The main loop\<close>

text \<open>The first \<open>n\<close> rounds of the main loop of the receiver, each with its own clock readings.\<close>

fun receiver_rounds :: "'w net \<Rightarrow> 'w os \<Rightarrow> file_descriptor \<Rightarrow> (nat \<Rightarrow> nat \<Rightarrow> int \<times> u64) \<Rightarrow> nat \<Rightarrow> decoder \<Rightarrow> 'w
    \<Rightarrow> (unit result \<times> decoder \<times> 'w) option" where
  "receiver_rounds net os sock clock 0 d w = Some (Inr (), d, w)"
| "receiver_rounds net os sock clock (Suc n) d w =
     (case receiver_round net os sock (clock n) d w of
        Some (Inr _, d', w') \<Rightarrow> receiver_rounds net os sock clock n d' w'
      | other \<Rightarrow> other)"

text \<open>The frames handed over so far are complete and the ones that were sent, in order; the next one is the one after them.\<close>

definition intact :: "(u32 \<Rightarrow> sent_frame option) \<Rightarrow> u32 \<Rightarrow> u32 \<Rightarrow> frame list \<Rightarrow> bool" where
  "intact tm from to fs \<longleftrightarrow>
     to = after_last from fs \<and> chained from fs \<and> sorted_wrt (<) (map frm_id fs) \<and>
     (\<forall>f \<in> set fs. from \<le> frm_id f \<and> frm_id f < to \<and> frame_inv f \<and> frame_complete f \<and>
        (\<exists>sf. tm (frm_id f) = Some sf \<and> frm_type f = sf_type sf \<and> frame_bytes f = sf_data sf))"

lemma intact_append:
  assumes "intact tm a b fs" and "intact tm b c gs" and "a \<le> b" and "b \<le> c"
  shows "intact tm a c (fs @ gs)"
proof -
  have "frm_id f < frm_id g" if "f \<in> set fs" "g \<in> set gs" for f g
    using assms(1,2) that less_le_trans unfolding intact_def by blast
  moreover have "frm_id f < c" if "f \<in> set fs" for f
    using assms(1,4) that less_le_trans unfolding intact_def by blast
  moreover have "a \<le> frm_id g" if "g \<in> set gs" for g
    using assms(2,3) that order_trans unfolding intact_def by blast
  ultimately show ?thesis
    using assms(1,2) unfolding intact_def by (auto simp: sorted_wrt_append)
qed

lemma received_no_last: "transmission tm \<Longrightarrow> received_inv tm ms d \<Longrightarrow> no_last_id d"
  by (fastforce simp: received_inv_def no_last_id_def transmission_def)

lemma round_step:
  assumes "delivers net sock inbox outbox" and "inbox w = m # rest" and "length m \<le> 65536"
    and "transmission tm" and "received_inv tm ms d" and "carries tm k i m"
  shows "\<exists>d' w' fs. receiver_round net os sock clock d w = Some (Inr (), d', w') \<and>
    inbox w' = rest \<and> outbox w' = outbox w @ [ack_for m] \<and> received_inv tm (insert m ms) d' \<and>
    next_frame_complete d' = (Inr False, d') \<and> dec_lazy_level d' = dec_lazy_level d \<and>
    dec_output_fd d' = dec_output_fd d \<and> dec_next_frame d \<le> dec_next_frame d' \<and> intact tm (dec_next_frame d) (dec_next_frame d') fs \<and>
    dec_shared_queue d' = dec_shared_queue d @ (if dec_lazy_level d \<le> DECODE_ONLY then fs else [])"
proof -
  obtain b w' where rcv: "receive_datagram net sock (d, w) = (Inr (), d\<lparr>dec_frame_buf := b\<rparr>, w')"
    "inbox w' = rest" "outbox w' = outbox w @ [ack_for m]"
    and inv: "received_inv tm (insert m ms) (d\<lparr>dec_frame_buf := b\<rparr>)"
    using receive_step [OF assms] by blast
  let ?d = "d\<lparr>dec_frame_buf := b\<rparr>"
  have d: "decoder_inv ?d" "no_output ?d" using inv by (simp_all add: received_inv_def)
  obtain d' fs where loop: "consume_loop os clock 0 ?d w' = Some (Inr (), d', w')" "decoder_inv d'"
    "next_frame_complete d' = (Inr False, d')" "dec_next_frame ?d \<le> dec_next_frame d'"
    "dec_shared_queue d' = dec_shared_queue ?d @ (if dec_lazy_level ?d \<le> DECODE_ONLY then fs else [])"
    "sorted_wrt (<) (map frm_id fs)"
    and fs: "\<forall>f \<in> set fs. (frm_id f, f) \<in> set b \<and> frame_complete f \<and>
       dec_next_frame ?d \<le> frm_id f \<and> frm_id f < dec_next_frame d'"
    and keeps: "no_output d'" "dec_lazy_level d' = dec_lazy_level ?d"
      "\<forall>k f. (k, f) \<in> set (dec_frame_buf d') \<longleftrightarrow> (k, f) \<in> set b \<and> dec_next_frame d' \<le> k"
      "dec_next_frame d' = after_last (dec_next_frame d) fs" "chained (dec_next_frame d) fs" "dec_output_fd d' = dec_output_fd d"
    using consume_loop_ends [OF d(1) received_no_last [OF assms(4) inv] d(2), of os clock 0 w']
    by (elim exE conjE) simp
  have parts: "\<exists>sf. tm k = Some sf \<and> part_of sf f" if "(k, f) \<in> set b" for k f
    using inv that by (fastforce simp: received_inv_def)
  have "frame_inv f \<and> frame_complete f \<and>
      (\<exists>sf. tm (frm_id f) = Some sf \<and> frm_type f = sf_type sf \<and> frame_bytes f = sf_data sf)"
    if "f \<in> set fs" for f
  proof -
    have f: "(frm_id f, f) \<in> set b" "frame_complete f" using fs that by simp_all
    then have frame: "frame_inv f" using decoder_invD(3) [OF d(1), of "frm_id f" f] by simp
    obtain sf where sf: "tm (frm_id f) = Some sf" "part_of sf f" using parts [OF f(1)] by blast
    have "cut_into (frm_id f) (sf_type sf) (sf_data sf) (sf_datagrams sf)"
      using assms(4) sf(1) by (simp add: transmission_def)
    from complete_part [OF sf(2) frame f(2) this] sf frame f(2) show ?thesis by (simp add: part_of_def)
  qed
  then have "intact tm (dec_next_frame d) (dec_next_frame d') fs"
    using loop(6) fs keeps(4,5) by (simp add: intact_def)
  moreover have "received_inv tm (insert m ms) d'"
    unfolding received_inv_def
  proof (intro conjI ballI allI impI, goal_cases)
    case (3 x)
    obtain k f where x: "x = (k, f)" by fastforce
    with 3 keeps(3) have "(k, f) \<in> set b" by blast
    from parts [OF this] x show ?case by simp
  next
    case (4 m' k' i')
    have "dec_next_frame ?d \<le> k'" using 4(2) loop(4) order_trans by blast
    moreover have "\<forall>m \<in> insert m ms. \<forall>k i. carries tm k i m \<and> dec_next_frame ?d \<le> k \<longrightarrow>
        (\<exists>f. (k, f) \<in> set b \<and> frm_frags f ! i \<noteq> None)"
      using inv by (simp add: received_inv_def del: not_None_eq)
    ultimately obtain f where "(k', f) \<in> set b" "frm_frags f ! i' \<noteq> None" using 4 by blast
    with 4(2) keeps(3) show ?case by blast
  qed (use loop(2) keeps(1) in simp_all)
  moreover have "receiver_round net os sock clock d w = Some (Inr (), d', w')"
    by (simp add: receiver_round_def rcv(1) loop(1))
  ultimately show ?thesis
    using rcv(2,3) loop(3,4,5) keeps(2,6) by (intro exI [of _ d'] exI [of _ w'] exI [of _ fs]) simp
qed


lemma next_frame_lacks:
  assumes "transmission tm" and "received_inv tm ms d" and "next_frame_complete d = (Inr False, d)"
    and "tm (dec_next_frame d) = Some sf"
  shows "\<exists>i < length (sf_datagrams sf). \<forall>m \<in> ms. \<not> carries tm (dec_next_frame d) i m"
proof (rule ccontr)
  let ?k = "dec_next_frame d"
  assume "\<not> ?thesis"
  then have slot: "\<exists>f. (?k, f) \<in> set (dec_frame_buf d) \<and> frm_frags f ! i \<noteq> None"
    if "i < length (sf_datagrams sf)" for i
    using assms(2) that unfolding received_inv_def by blast
  have d: "decoder_inv d" using assms(2) by (simp add: received_inv_def)
  have "0 < length (sf_datagrams sf)" using assms(1,4) by (simp add: transmission_def cut_into_def)
  with slot obtain f where f: "(?k, f) \<in> set (dec_frame_buf d)" by blast
  then have find: "om_find (dec_frame_buf d) ?k = Some f"
    using decoder_invD(1) [OF d] by (simp add: om.find_Some_iff)
  have only: "g = f" if "(?k, g) \<in> set (dec_frame_buf d)" for g
    using that find decoder_invD(1) [OF d] by (simp flip: om.find_Some_iff)
  have "part_of sf f" using assms(2,4) f by (fastforce simp: received_inv_def)
  then have len: "length (frm_frags f) = length (sf_datagrams sf)" by (simp add: part_of_def)
  have "frm_frags f ! i \<noteq> None" if "i < length (frm_frags f)" for i
    using slot [of i] only that len by auto
  then have "None \<notin> set (frm_frags f)" by (auto simp: in_set_conv_nth)
  then have "frame_complete f" using complete_iff decoder_invD(3) [OF d f] by blast
  then have "next_frame_complete d = (Inr True, d)" by (simp add: next_frame_complete_def find)
  with assms(3) show False by simp
qed

lemma rounds_deliver:
  assumes "delivers net sock inbox outbox" and "transmission tm" and "inbox w = msgs"
    and "\<forall>m \<in> set msgs. length m \<le> 65536 \<and> (\<exists>k i. carries tm k i m)"
    and "received_inv tm ms d" and "next_frame_complete d = (Inr False, d)"
  shows "\<exists>d' w' fs. receiver_rounds net os sock clock (length msgs) d w = Some (Inr (), d', w') \<and>
    inbox w' = [] \<and> outbox w' = outbox w @ map ack_for msgs \<and> received_inv tm (ms \<union> set msgs) d' \<and>
    next_frame_complete d' = (Inr False, d') \<and> dec_output_fd d' = dec_output_fd d \<and>
    dec_next_frame d \<le> dec_next_frame d' \<and> intact tm (dec_next_frame d) (dec_next_frame d') fs \<and>
    dec_shared_queue d' = dec_shared_queue d @ (if dec_lazy_level d \<le> DECODE_ONLY then fs else [])"
  using assms(3-6)
proof (induction msgs arbitrary: d w ms)
  case Nil
  then show ?case by (intro exI [of _ d] exI [of _ w] exI [of _ "[]"]) (simp add: intact_def)
next
  case (Cons m msgs)
  obtain k i where m: "length m \<le> 65536" "carries tm k i m" using Cons.prems(2) by auto
  obtain d1 w1 fs where r: "receiver_round net os sock (clock (length msgs)) d w = Some (Inr (), d1, w1)"
    "inbox w1 = msgs" "outbox w1 = outbox w @ [ack_for m]" "received_inv tm (insert m ms) d1"
    "next_frame_complete d1 = (Inr False, d1)" "dec_lazy_level d1 = dec_lazy_level d" "dec_output_fd d1 = dec_output_fd d"
    "dec_next_frame d \<le> dec_next_frame d1" "intact tm (dec_next_frame d) (dec_next_frame d1) fs"
    "dec_shared_queue d1 = dec_shared_queue d @ (if dec_lazy_level d \<le> DECODE_ONLY then fs else [])"
    using round_step [OF assms(1) Cons.prems(1) m(1) assms(2) Cons.prems(3) m(2), of os "clock (length msgs)"]
    by (elim exE conjE)
  have "\<forall>m \<in> set msgs. length m \<le> 65536 \<and> (\<exists>k i. carries tm k i m)" using Cons.prems(2) by simp
  from Cons.IH [OF r(2) this r(4,5)] obtain d' w' gs where
    IH: "receiver_rounds net os sock clock (length msgs) d1 w1 = Some (Inr (), d', w')" "inbox w' = []"
    "outbox w' = outbox w1 @ map ack_for msgs" "received_inv tm (insert m ms \<union> set msgs) d'"
    "next_frame_complete d' = (Inr False, d')" "dec_output_fd d' = dec_output_fd d1" "dec_next_frame d1 \<le> dec_next_frame d'"
    "intact tm (dec_next_frame d1) (dec_next_frame d') gs"
    "dec_shared_queue d' = dec_shared_queue d1 @ (if dec_lazy_level d1 \<le> DECODE_ONLY then gs else [])"
    by (elim exE conjE)
  have "intact tm (dec_next_frame d) (dec_next_frame d') (fs @ gs)"
    by (rule intact_append [OF r(9) IH(8) r(8) IH(7)])
  with IH r show ?case
    by (intro exI [of _ d'] exI [of _ w'] exI [of _ "fs @ gs"]) simp
qed

section \<open>Properties\<close>

text \<open>
  C4: the receiver delivers the bytes the encoder produced. Let the encoder packetise any set of frames and let the
  network deliver their datagrams to a fresh receiver in any order, with any losses and duplicates. Then the
  main loop takes one round for each message, never throws, and acknowledges each message once, in the order of
  arrival; the frames handed to the worker are frames that were sent, each with its type and, byte for byte, its
  data, in increasing order of their ids; and the loop waits for a frame only as long as one of its
  fragments did not arrive. (Frame ids do not wrap.)
\<close>

theorem frames_delivered_intact:
  assumes "delivers net sock inbox outbox"
    and "\<forall>k sf. tm k = Some sf \<longrightarrow> k \<noteq> - 1 \<and> (\<exists>vpx M e. encoded_as k vpx M (e :: 'c encoder) sf)"
    and "\<forall>m \<in> set (inbox w). length m \<le> 65536 \<and> (\<exists>k i. carries tm k i m)"
    and "decoder_init os now width height lazy_level [] w0 = (Inr d, w)"
  shows "\<exists>d' w' fs. receiver_rounds net os sock clock (length (inbox w)) d w = Some (Inr (), d', w') \<and>
    inbox w' = [] \<and> outbox w' = outbox w @ map ack_for (inbox w) \<and>
    dec_shared_queue d' = (if lazy_level \<le> DECODE_ONLY then fs else []) \<and>
    sorted_wrt (<) (map frm_id fs) \<and>
    (\<forall>f \<in> set fs. frm_id f < dec_next_frame d' \<and>
      (\<exists>sf. tm (frm_id f) = Some sf \<and> frm_type f = sf_type sf \<and> frame_bytes f = sf_data sf)) \<and>
    (\<forall>sf. tm (dec_next_frame d') = Some sf \<longrightarrow>
      (\<exists>i < length (sf_datagrams sf). \<forall>m \<in> set (inbox w). \<not> carries tm (dec_next_frame d') i m))"
proof -
  have tm: "transmission tm" using assms(2) encoded_cut unfolding transmission_def by blast
  have d: "dec_frame_buf d = []" "dec_next_frame d = 0" "dec_shared_queue d = []" "dec_output_fd d = None"
    "dec_lazy_level d = lazy_level"
    using assms(4) by (auto simp: decoder_init_def split: if_splits)
  then have inv: "received_inv tm {} d"
    by (simp add: received_inv_def decoder_inv_def no_output_def om_wf_def)
  have idle: "next_frame_complete d = (Inr False, d)"
    by (simp add: next_frame_complete_def skip_to_key_frame_def d(1) om_find_def)
  obtain d' w' fs where run: "receiver_rounds net os sock clock (length (inbox w)) d w = Some (Inr (), d', w')"
    "inbox w' = []" "outbox w' = outbox w @ map ack_for (inbox w)"
    and end': "received_inv tm (set (inbox w)) d'" "next_frame_complete d' = (Inr False, d')"
    and fs: "intact tm 0 (dec_next_frame d') fs" "dec_shared_queue d' = (if lazy_level \<le> DECODE_ONLY then fs else [])"
    using rounds_deliver [OF assms(1) tm refl assms(3) inv idle, of os clock] by (auto simp: d)
  from next_frame_lacks [OF tm end'] run fs show ?thesis
    by (intro exI [of _ d'] exI [of _ w'] exI [of _ fs]) (auto simp: intact_def)
qed


text \<open>A key frame of three bytes in two fragments, received twice, once in the reverse order.\<close>

definition small_encoder :: "cx_packet list encoder" where
  "small_encoder = scripted_encoder [Frame_Pkt [9, 8, 7] True]\<lparr>enc_frame_id := 0\<rparr>"

definition small_frame :: sent_frame where
  "small_frame = \<lparr>sf_type = KEY, sf_data = [9, 8, 7],
     sf_datagrams = enc_send_buf (snd (packetize_encoded_frame scripted_vpx 2 small_encoder))\<rparr>"

definition small_messages :: "bytes list" where
  "small_messages = map (\<lambda>d. datagram_serialize_to_string (d\<lparr>dg_send_ts := 5\<rparr>)) (sf_datagrams small_frame)"

lemma small_encoded: "encoded_as 0 scripted_vpx 2 small_encoder small_frame"
  unfolding encoded_as_def
  by (intro exI [of _ True]) (simp add: small_frame_def small_encoder_def scripted_encoder_def scripted_vpx_def)

theorem frames_delivered_intact_witness:
  "\<exists>d d' w' fs. fst (decoder_init idle_os 0 4 2 0 [] (rev small_messages @ small_messages, [] :: bytes list)) = Inr d \<and>
    receiver_rounds list_net idle_os \<lparr>fd_num = 3, fd_eof = False\<rparr> (\<lambda>_ _. (0, 0))
      (length (rev small_messages @ small_messages)) d (rev small_messages @ small_messages, []) =
      Some (Inr (), d', [], w') \<and>
    w' = map ack_for (rev small_messages @ small_messages) \<and> dec_shared_queue d' = fs \<and> dec_next_frame d' \<noteq> 0 \<and>
    (\<forall>f \<in> set fs. frame_bytes f = [9, 8, 7])"
proof -
  let ?inbox = "rev small_messages @ small_messages" and ?tm = "[0 \<mapsto> small_frame]"
  obtain d where d: "decoder_init idle_os 0 4 2 0 [] (?inbox, [] :: bytes list) = (Inr d, ?inbox, [])"
    by (simp add: decoder_init_def DECODE_DISPLAY_def NO_DECODE_DISPLAY_def)
  have cut: "cut_into 0 KEY [9, 8, 7] (sf_datagrams small_frame)"
    using encoded_cut [OF small_encoded] by (simp add: small_frame_def)
  have carried: "carries ?tm 0 i (small_messages ! i)" if "i < length (sf_datagrams small_frame)" for i
    unfolding carries_def using that by (intro exI [of _ small_frame] exI [of _ 5]) (simp add: small_messages_def)
  have short: "length m \<le> 65536 \<and> (\<exists>k i. carries ?tm k i m)" if "m \<in> set ?inbox" for m
  proof -
    have "\<exists>i. i < length (sf_datagrams small_frame) \<and> m = small_messages ! i"
    proof -
      have "m \<in> set small_messages" using that by auto
      then obtain i where "i < length small_messages" "m = small_messages ! i" by (auto simp: in_set_conv_nth)
      then show ?thesis by (intro exI [of _ i]) (simp add: small_messages_def)
    qed
    then obtain i where i: "i < length (sf_datagrams small_frame)" "m = small_messages ! i" by blast
    let ?p = "dg_payload (sf_datagrams small_frame ! i)"
    have "length ?p \<le> length (concat (map dg_payload (sf_datagrams small_frame)))"
      using i(1) nth_mem by (fastforce simp: length_concat o_def intro: member_le_sum_list)
    also have "\<dots> = 3" using cut by (simp add: cut_into_def)
    finally have "length m \<le> 65536" using i by (simp add: small_messages_def length_datagram_serialize)
    then show ?thesis using carried [OF i(1)] i(2) by blast
  qed
  have net: "delivers list_net \<lparr>fd_num = 3, fd_eof = False\<rparr> fst snd"
    by (auto simp: delivers_def pending_datagram_def list_net_def)
  have "\<forall>k sf. ?tm k = Some sf \<longrightarrow> k \<noteq> - 1 \<and> (\<exists>vpx M e. encoded_as k vpx M (e :: cx_packet list encoder) sf)"
    using small_encoded by auto
  moreover have "\<forall>m \<in> set (fst (?inbox, [] :: bytes list)). length m \<le> 65536 \<and> (\<exists>k i. carries ?tm k i m)"
    using short by (simp del: set_append set_rev)
  ultimately have "\<exists>d' w' fs. receiver_rounds list_net idle_os \<lparr>fd_num = 3, fd_eof = False\<rparr> (\<lambda>_ _. (0, 0))
      (length ?inbox) d (?inbox, []) = Some (Inr (), d', w') \<and> fst w' = [] \<and> snd w' = [] @ map ack_for ?inbox \<and>
    dec_shared_queue d' = (if 0 \<le> DECODE_ONLY then fs else []) \<and> sorted_wrt (<) (map frm_id fs) \<and>
    (\<forall>f \<in> set fs. frm_id f < dec_next_frame d' \<and>
      (\<exists>sf. ?tm (frm_id f) = Some sf \<and> frm_type f = sf_type sf \<and> frame_bytes f = sf_data sf)) \<and>
    (\<forall>sf. ?tm (dec_next_frame d') = Some sf \<longrightarrow>
      (\<exists>i < length (sf_datagrams sf). \<forall>m \<in> set ?inbox. \<not> carries ?tm (dec_next_frame d') i m))"
    using frames_delivered_intact [OF net _ _ d, of ?tm "\<lambda>_ _. (0, 0)"] by (simp only: fst_conv snd_conv)
  then obtain d' w' fs where run: "receiver_rounds list_net idle_os \<lparr>fd_num = 3, fd_eof = False\<rparr> (\<lambda>_ _. (0, 0))
      (length ?inbox) d (?inbox, []) = Some (Inr (), d', w')" "fst w' = []" "snd w' = map ack_for ?inbox"
    and fs: "dec_shared_queue d' = fs" "\<forall>f \<in> set fs. \<exists>sf. ?tm (frm_id f) = Some sf \<and> frame_bytes f = sf_data sf"
    and waits: "?tm (dec_next_frame d') = Some small_frame \<longrightarrow>
      (\<exists>i < length (sf_datagrams small_frame). \<forall>m \<in> set ?inbox. \<not> carries ?tm (dec_next_frame d') i m)"
    by (elim exE conjE) (rule that, assumption, assumption, simp, simp add: DECODE_ONLY_def, blast, blast)
  have "dec_next_frame d' \<noteq> 0"
  proof
    assume "dec_next_frame d' = 0"
    with waits obtain i where i: "i < length (sf_datagrams small_frame)" "\<forall>m \<in> set ?inbox. \<not> carries ?tm 0 i m"
      by auto
    then have "small_messages ! i \<in> set ?inbox" by (simp add: small_messages_def)
    with i carried show False by blast
  qed
  moreover have "\<forall>f \<in> set fs. frame_bytes f = [9, 8, 7]"
    using fs(2) by (auto simp: small_frame_def split: if_splits)
  moreover obtain acks where "w' = ([], acks)" using run(2) by (cases w') simp
  ultimately have "fst (decoder_init idle_os 0 4 2 0 [] (?inbox, [] :: bytes list)) = Inr d \<and>
    receiver_rounds list_net idle_os \<lparr>fd_num = 3, fd_eof = False\<rparr> (\<lambda>_ _. (0, 0)) (length ?inbox) d (?inbox, []) =
      Some (Inr (), d', [], acks) \<and>
    acks = map ack_for ?inbox \<and> dec_shared_queue d' = fs \<and> dec_next_frame d' \<noteq> 0 \<and>
    (\<forall>f \<in> set fs. frame_bytes f = [9, 8, 7])"
    using d run fs(1) by simp
  then show ?thesis by blast
qed

end
