(* ===== verification/Session.thy ===== *)
theory Session
  imports Video_Sender Delivery
begin

text \<open>
  The two \<open>main\<close> functions up to their loops (\<open>src/app/video_sender.cc\<close>, \<open>src/app/video_receiver.cc\<close>): command
  line, sockets, the handshake in which the receiver requests a configuration, and the construction of
  the parts that the loops work on; then what holds from there on.
\<close>

section \<open>The platform\<close>

text \<open>What the programs call: the kernel, the resolver, libvpx, the clock. \<open>UDPSocket()\<close> opens a datagram socket.\<close>

record ('c, 'w) platform =
  pf_os :: "'w os"
  pf_net :: "'w net"
  pf_timers :: "'w timers"
  pf_poll :: "'w sys_poll"
  pf_getaddrinfo :: "bytes \<Rightarrow> bytes \<Rightarrow> int \<times> bytes"
  pf_getnameinfo :: "address \<Rightarrow> int \<times> bytes \<times> bytes"
  pf_vpx :: "'c vpx_encoder"
  pf_nprocs :: int
  pf_img_alloc :: "u32 \<Rightarrow> u32 \<Rightarrow> vpx_image"
  pf_now :: "'w \<Rightarrow> int \<times> 'w"
  pf_encode_times :: "'w \<Rightarrow> encode_times \<times> 'w"

definition udp_open :: "'w net \<Rightarrow> 'w os \<Rightarrow> 'w \<Rightarrow> file_descriptor result \<times> 'w" where
  "udp_open net os = socket_open net os ''AF_INET'' ''SOCK_DGRAM''"

text \<open>A computation that does not touch the world.\<close>

definition pure :: "'a result \<Rightarrow> ('w, 'a) process" where
  "pure r = (\<lambda>w. Some (r, w))"

section \<open>The sender\<close>

text \<open>
  The socket is bound to the port on all interfaces; the receiver that sends the first configuration becomes
  its peer. The addresses are converted to strings for the log, which can throw.
\<close>

definition sender_connect :: "('c, 'w) platform \<Rightarrow> u16 \<Rightarrow> ('w, file_descriptor \<times> config_msg) process" where
  "sender_connect pf port =
     bind_process (total (udp_open (pf_net pf) (pf_os pf))) (\<lambda>udp_sock.
     bind_process (pure (address_resolve (pf_getaddrinfo pf) (ascii ''0'') port)) (\<lambda>local_addr.
     bind_process (total (socket_bind (pf_net pf) udp_sock local_addr)) (\<lambda>_.
     bind_process (total (local_address (pf_net pf) udp_sock)) (\<lambda>bound.
     bind_process (pure (address_str (pf_getnameinfo pf) bound)) (\<lambda>_.
     bind_process (recv_config_msg (pf_net pf) udp_sock) (\<lambda>(peer_addr, config).
     bind_process (pure (address_str (pf_getnameinfo pf) peer_addr)) (\<lambda>_.
     bind_process (total (socket_connect (pf_net pf) udp_sock peer_addr)) (\<lambda>_.
     pure (Inr (udp_sock, config))))))))))"

definition sender_env_of :: "('c, 'w) platform \<Rightarrow> sender_config \<Rightarrow> file_descriptor \<Rightarrow> file_descriptor
    \<Rightarrow> file_descriptor \<Rightarrow> ('c, 'w) sender_env" where
  "sender_env_of pf cfg fps_timer udp_sock stats_timer =
     \<lparr>env_vpx = pf_vpx pf, env_os = pf_os pf, env_net = pf_net pf, env_poll = pf_poll pf,
      env_max_payload = sc_max_payload cfg, env_fps_timer = fps_timer, env_udp_sock = udp_sock,
      env_stats_timer = stats_timer, env_now = pf_now pf, env_encode_times = pf_encode_times pf\<rparr>"

text \<open>Everything before the loop; \<open>None\<close> is the exit after printing the usage.\<close>

definition sender_start :: "('c, 'w) platform \<Rightarrow> (char \<times> bytes) list \<Rightarrow> bytes list
    \<Rightarrow> ('w, (('c, 'w) sender_env \<times> sender_callback poller \<times> 'c sender) option) process" where
  "sender_start pf opts args =
     bind_process (pure (sender_options opts sender_defaults)) (\<lambda>cfg.
     case cfg of None \<Rightarrow> pure (Inr None) | Some cfg \<Rightarrow>
     bind_process (pure (sender_positional args)) (\<lambda>pos.
     case pos of None \<Rightarrow> pure (Inr None) | Some (port, y4m_path) \<Rightarrow>
     bind_process (sender_connect pf port) (\<lambda>(udp_sock, config).
     bind_process (sender_setup (pf_os pf) (pf_timers pf) (pf_vpx pf) (pf_nprocs pf) (pf_img_alloc pf) cfg y4m_path
       config udp_sock) (\<lambda>(s, fps_timer, stats_timer).
     let env = sender_env_of pf cfg fps_timer udp_sock stats_timer;
         (r, poller) = perform poller_request (sender_registrations env) empty_poller
     in pure (bind_result r (\<lambda>_. Inr (Some (env, poller, s))))))))"

section \<open>The receiver\<close>

text \<open>
  The socket is connected to the sender, the configuration requested (whether or not it would block) and the
  decoder constructed.
\<close>

definition receiver_connect :: "('c, 'w) platform \<Rightarrow> receiver_config \<Rightarrow> receiver_args \<Rightarrow> ('w, file_descriptor) process" where
  "receiver_connect pf cfg args =
     bind_process (pure (address_resolve (pf_getaddrinfo pf) (ra_host args) (ra_port args))) (\<lambda>peer_addr.
     bind_process (pure (address_str (pf_getnameinfo pf) peer_addr)) (\<lambda>_.
     bind_process (total (udp_open (pf_net pf) (pf_os pf))) (\<lambda>udp_sock.
     bind_process (total (socket_connect (pf_net pf) udp_sock peer_addr)) (\<lambda>_.
     bind_process (total (local_address (pf_net pf) udp_sock)) (\<lambda>bound.
     bind_process (pure (address_str (pf_getnameinfo pf) bound)) (\<lambda>_.
     bind_process (total (request_config (pf_net pf) udp_sock cfg args)) (\<lambda>_.
     pure (Inr udp_sock))))))))"

definition receiver_start :: "('c, 'w) platform \<Rightarrow> int \<Rightarrow> (char \<times> bytes) list \<Rightarrow> bytes list
    \<Rightarrow> ('w, (file_descriptor \<times> decoder) option) process" where
  "receiver_start pf now opts args =
     bind_process (pure (receiver_options opts receiver_defaults)) (\<lambda>cfg.
     case cfg of None \<Rightarrow> pure (Inr None) | Some cfg \<Rightarrow>
     bind_process (pure (receiver_positional args)) (\<lambda>pos.
     case pos of None \<Rightarrow> pure (Inr None) | Some pos \<Rightarrow>
     bind_process (receiver_connect pf cfg pos) (\<lambda>udp_sock.
     bind_process (total (decoder_init (pf_os pf) now (ra_width pos) (ra_height pos) (rc_lazy_level cfg)
       (rc_output_path cfg))) (\<lambda>decoder.
     pure (Inr (Some (udp_sock, decoder_set_verbose (rc_verbose cfg) decoder)))))))"


section \<open>Dimensions\<close>

text \<open>The parts of the sender were made for one width and height.\<close>

definition encoder_sized :: "u16 \<Rightarrow> u16 \<Rightarrow> 'c encoder \<Rightarrow> bool" where
  "encoder_sized width height e \<longleftrightarrow> enc_display_width e = width \<and> enc_display_height e = height"

definition input_sized :: "u16 \<Rightarrow> u16 \<Rightarrow> 'w y4m_state \<Rightarrow> bool" where
  "input_sized width height = (\<lambda>(v, img, w). y4m_width v = width \<and> y4m_height v = height \<and> image_room width height img)"

definition sender_sized :: "u16 \<Rightarrow> u16 \<Rightarrow> ('c, 'w) sender_state \<Rightarrow> bool" where
  "sender_sized width height = (\<lambda>(p, s, w).
     encoder_sized width height (snd_encoder s) \<and> input_sized width height (snd_input s, snd_image s, w))"

text \<open>Reading frames.\<close>

lemma copy_plane_room: "copy_plane_from msg sz plane src = Inr y \<Longrightarrow> length y = length plane"
  by (cases sz) (auto simp: copy_plane_from_def memcpy_plane_def length_blit split: if_splits)

lemma copies_keep_room:
  assumes "image_room width height img"
  shows "image_room width height (snd (copy_y_from src img))" "image_room width height (snd (copy_u_from src img))"
    "image_room width height (snd (copy_v_from src img))"
  using assms copy_plane_room
  by (force simp: image_room_def copy_y_from_def copy_u_from_def copy_v_from_def split: sum.split)+

lemma keeps_fetch_frames: "keeps (input_sized width height) (fetch_frames os n)"
proof -
  have on_fd: "keeps (input_sized width height) (on_fd m)" for m :: "(file_descriptor \<times> 'w, 'd) process"
    by (auto simp: keeps_def on_fd_def input_sized_def)
  show ?thesis
    by (intro keeps_fetch on_fd) (auto simp: input_sized_def copies_keep_room)
qed


text \<open>The encoder.\<close>

lemma encoder_sized_simps [simp]:
  "encoder_sized width height (e\<lparr>enc_send_buf := buf\<rparr>) = encoder_sized width height e"
  "encoder_sized width height (e\<lparr>enc_unacked := m\<rparr>) = encoder_sized width height e"
  "encoder_sized width height (e\<lparr>enc_context := c\<rparr>) = encoder_sized width height e"
  "encoder_sized width height (e\<lparr>enc_frame_id := k\<rparr>) = encoder_sized width height e"
  "encoder_sized width height (e\<lparr>enc_output_fd := fd\<rparr>) = encoder_sized width height e"
  "encoder_sized width height (add_rtt_sample rtt e) = encoder_sized width height e"
  "encoder_sized width height (output_periodic_stats e) = encoder_sized width height e"
  by (simp_all add: encoder_sized_def add_rtt_sample_def output_periodic_stats_def)

lemma packet_loop_sized: "encoder_sized width height (snd (packet_loop M pkts n sz e)) = encoder_sized width height e"
  by (induction M pkts n sz e rule: packet_loop.induct) (auto simp: Let_def split: sum.split prod.split)

lemma encode_frame_sized: "encoder_sized width height (snd (encode_frame vpx now ms img e)) = encoder_sized width height e"
  by (auto simp: encode_frame_def Let_def split: prod.split sum.split) (simp_all add: encoder_sized_def)

lemma compress_frame_sized:
  "encoder_sized width height (fst (snd (compress_frame vpx os M ts img (e, w)))) = encoder_sized width height e"
proof -
  have "encoder_sized width height (snd (bind_action (encode_frame vpx (ts_now ts) (ts_encode_ms ts) img)
      (\<lambda>_. packetize_encoded_frame vpx M) e)) = encoder_sized width height e"
    using encode_frame_sized [of width height vpx "ts_now ts" "ts_encode_ms ts" img e]
    by (auto simp: bind_action_def packetize_encoded_frame_def packet_loop_sized split: prod.split sum.split)
  then show ?thesis
    by (auto simp: compress_frame_def Let_def split: prod.split sum.split option.split)
qed

lemma add_unacked_sized: "encoder_sized width height (snd (add_unacked d e)) = encoder_sized width height e"
  by (simp add: add_unacked_def split: prod.split)

lemma handle_ack_sized: "encoder_sized width height (snd (handle_ack now ack e)) = encoder_sized width height e"
  by (auto simp: handle_ack_def Let_def split: prod.split sum.split option.split)

lemma send_loop_sized:
  "encoder_sized width height (fst (snd (send_loop env buf (e, w)))) = encoder_sized width height e"
proof (induction buf arbitrary: e w)
  case (Cons d buf)
  obtain now w1 where now: "env_now env w = (now, w1)" by fastforce
  let ?d = "d\<lparr>dg_send_ts := timestamp_us now\<rparr>"
  let ?e = "e\<lparr>enc_send_buf := ?d # buf\<rparr>"
  obtain r w2 where sent: "udp_send (env_net env) (env_udp_sock env) (datagram_serialize_to_string ?d) w1 = (r, w2)"
    by fastforce
  obtain r' e2 where track: "(if dg_num_rtx ?d = 0 then add_unacked ?d ?e else (Inr (), ?e)) = (r', e2)" by fastforce
  then have "encoder_sized width height e2 = encoder_sized width height e"
    using add_unacked_sized [of width height ?d ?e] by (auto split: if_splits)
  then show ?case
    using now sent track Cons.IH by (cases r') (auto simp: Let_def split: sum.split bool.split)
qed (simp add: return_action_def)

text \<open>The callbacks.\<close>

lemma want_writable_sized: "sender_sized width height st \<Longrightarrow> sender_sized width height (snd (want_writable env st))"
  by (auto simp: want_writable_def sender_sized_def split: prod.splits)

lemma on_fps_timer_sized: "keeps (sender_sized width height) (on_fps_timer env)"
  unfolding keeps_def
proof (intro allI impI)
  fix st r t
  assume sized: "sender_sized width height st" and run: "on_fps_timer env st = Some (r, t)"
  obtain p s w where st: "st = (p, s, w)" by (cases st)
  obtain q w1 where exp: "read_expirations (env_os env) (env_fps_timer env) w = (q, w1)" by fastforce
  show "sender_sized width height t"
  proof (cases q)
    case (Inl e)
    with run exp sized show ?thesis by (auto simp: on_fps_timer_def st sender_sized_def input_sized_def)
  next
    case (Inr n)
    with run exp obtain q2 v img w2 where
      fetch: "fetch_frames (env_os env) (unat n) (snd_input s, snd_image s, w1) = Some (q2, v, img, w2)"
      by (auto simp: on_fps_timer_def st split: option.splits)
    have "input_sized width height (snd_input s, snd_image s, w1)"
      using sized by (simp add: st sender_sized_def input_sized_def)
    from keepsD [OF keeps_fetch_frames fetch this] have input: "input_sized width height (v, img, x)" for x
      by (simp add: input_sized_def)
    have enc: "encoder_sized width height (snd_encoder s)" using sized by (simp add: st sender_sized_def)
    obtain ts w3 where ts: "env_encode_times env w2 = (ts, w3)" by fastforce
    obtain q3 e4 w4 where c: "compress_frame (env_vpx env) (env_os env) (env_max_payload env) ts img
        (snd_encoder s, w3) = (q3, e4, w4)" by (metis prod.collapse)
    have e4: "encoder_sized width height e4"
      using compress_frame_sized [of width height "env_vpx env" "env_os env" "env_max_payload env" ts img
          "snd_encoder s" w3] enc by (simp add: c)
    let ?s = "s\<lparr>snd_input := v, snd_image := img, snd_encoder := e4\<rparr>"
    have wanted: "sender_sized width height (snd (want_writable env (p, ?s, w4)))"
      using e4 input by (intro want_writable_sized) (simp add: sender_sized_def)
    consider e where "q2 = Inl e" | e where "q2 = Inr ()" "q3 = Inl e" | "q2 = Inr ()" "q3 = Inr ()"
      by (cases q2; cases q3) auto
    then show ?thesis
    proof cases
      case 1
      then have "t = (p, s\<lparr>snd_input := v, snd_image := img\<rparr>, w2)"
        using run exp Inr fetch by (simp add: on_fps_timer_def st)
      then show ?thesis using enc input by (simp add: sender_sized_def)
    next
      case 2
      then have "t = (p, ?s, w4)" using run exp Inr fetch ts c by (simp add: on_fps_timer_def st)
      then show ?thesis using e4 input by (simp add: sender_sized_def)
    next
      case 3
      then have "t = snd (want_writable env (p, ?s, w4))"
        using run exp Inr fetch ts c by (auto simp: on_fps_timer_def st)
      then show ?thesis using wanted by simp
    qed
  qed
qed

lemma on_writable_sized: "keeps (sender_sized width height) (on_writable env)"
proof -
  have "sender_sized width height t"
    if "sender_sized width height (p, s, w)" "on_writable env (p, s, w) = Some (r, t)" for p s w r t
  proof -
    obtain q enc w' where loop: "send_loop env (enc_send_buf (snd_encoder s)) (snd_encoder s, w) = (q, enc, w')"
      by (metis prod.collapse)
    have "encoder_sized width height enc"
      using send_loop_sized [of width height env "enc_send_buf (snd_encoder s)" "snd_encoder s" w] that(1)
      by (simp add: loop sender_sized_def)
    then show ?thesis
      using that loop by (auto simp: on_writable_def sender_sized_def input_sized_def Let_def
          split: sum.splits if_splits prod.splits)
  qed
  then show ?thesis by (auto simp: keeps_def)
qed

lemma on_stats_timer_sized: "keeps (sender_sized width height) (on_stats_timer env)"
  by (auto simp: keeps_def on_stats_timer_def sender_sized_def input_sized_def split: prod.splits sum.splits)


text \<open>The loop over the acknowledgements keeps what receiving, the clock, an acknowledgement and the poller do not change.\<close>

lemma keeps_on_readable:
  assumes recv: "\<And>p s w. P (p, s, w) \<Longrightarrow> P (p, s, snd (udp_recv (env_net env) (env_udp_sock env) w))"
    and clock: "\<And>p s w. P (p, s, w) \<Longrightarrow> P (p, s, snd (env_now env w))"
    and acked: "\<And>p s w now a. P (p, s, w) \<Longrightarrow> P (p, s\<lparr>snd_encoder := snd (handle_ack now a (snd_encoder s))\<rparr>, w)"
    and poller: "\<And>p p' s w. P (p, s, w) \<Longrightarrow> P (p', s, w)"
  shows "keeps P (on_readable (env :: ('c, 'w) sender_env))"
proof -
  have "env' = env \<longrightarrow> P st \<longrightarrow> P (snd res)" if "on_readable env' st = Some res" for env' st res
  proof (rule on_readable.raw_induct [where P = "\<lambda>env' st res. env' = env \<longrightarrow> P st \<longrightarrow> P (snd res)", OF _ that], intro impI)
    fix on_readable' and env' :: "('c, 'w) sender_env" and st res
    assume IH: "\<And>env' (st :: ('c, 'w) sender_state) res. on_readable' env' st = Some res \<Longrightarrow> env' = env \<longrightarrow> P st \<longrightarrow> P (snd res)"
      and res: "(case st of (p, s, w) \<Rightarrow>
        case udp_recv (env_net env') (env_udp_sock env') w of
          (Inl e, w') \<Rightarrow> Some (Inl e, p, s, w')
        | (Inr None, w') \<Rightarrow> Some (Inr (), p, s, w')
        | (Inr (Some raw_data), w') \<Rightarrow>
            (case msg_parse_from_string raw_data of
               Inl e \<Rightarrow> Some (Inl e, p, s, w')
             | Inr None \<Rightarrow> Some (Inr (), p, s, w')
             | Inr (Some m) \<Rightarrow>
                 if msg_type m \<noteq> MSG_ACK then Some (Inr (), p, s, w')
                 else (case m of
                         AckMsg ack \<Rightarrow>
                           (let (now, w1) = env_now env' w';
                                (r, enc) = handle_ack (timestamp_us now) ack (snd_encoder s)
                            in case r of
                                 Inl e \<Rightarrow> Some (Inl e, p, s\<lparr>snd_encoder := enc\<rparr>, w1)
                               | Inr _ \<Rightarrow>
                                   (case want_writable env' (p, s\<lparr>snd_encoder := enc\<rparr>, w1) of
                                      (Inl e, st') \<Rightarrow> Some (Inl e, st')
                                    | (Inr _, st') \<Rightarrow> on_readable' env' st'))
                       | _ \<Rightarrow> Some (Inl (Undefined_Behaviour ''null pointer''), p, s, w')))) = Some res"
      and same: "env' = env" and holds: "P st"
    obtain p s w where st: "st = (p, s, w)" by (cases st)
    let ?w = "snd (udp_recv (env_net env) (env_udp_sock env) w)"
    let ?w1 = "snd (env_now env ?w)"
    consider (stop) "snd res = (p, s, ?w)"
      | (ack) now a enc r where "handle_ack now a (snd_encoder s) = (r, enc)" "snd res = (p, s\<lparr>snd_encoder := enc\<rparr>, ?w1)"
      | (want) now a enc r where "handle_ack now a (snd_encoder s) = (r, enc)"
          "snd res = snd (want_writable env (p, s\<lparr>snd_encoder := enc\<rparr>, ?w1))"
      | (more) now a enc r where "handle_ack now a (snd_encoder s) = (r, enc)"
          "on_readable' env (snd (want_writable env (p, s\<lparr>snd_encoder := enc\<rparr>, ?w1))) = Some res"
      using res [unfolded same] by (auto simp: st split: prod.splits sum.splits option.splits if_splits msg.splits)
    note outcome = this
    have here: "P (p, s, ?w)" using recv holds by (simp add: st)
    have enc: "P (p', s\<lparr>snd_encoder := enc\<rparr>, ?w1)" if "handle_ack now a (snd_encoder s) = (r, enc)" for p' now a r enc
      using poller [OF acked [OF clock [OF here]], of p' now a] that by simp
    have wanted: "P (snd (want_writable env (p, s\<lparr>snd_encoder := enc\<rparr>, ?w1)))"
      if "handle_ack now a (snd_encoder s) = (r, enc)" for now a r enc
      using enc [OF that] by (auto simp: want_writable_def split: prod.split)
    from outcome show "P (snd res)"
    proof cases
      case (ack now a enc r)
      then show ?thesis using enc by simp
    next
      case (want now a enc r)
      then show ?thesis using wanted by simp
    next
      case (more now a enc r)
      show ?thesis by (rule mp [OF mp [OF IH [OF more(2)] refl] wanted [OF more(1)]])
    qed (use here in simp)
  qed
  then show ?thesis by (fastforce simp: keeps_def)
qed

lemma on_readable_sized: "keeps (sender_sized width height) (on_readable env)"
  by (rule keeps_on_readable) (simp_all add: sender_sized_def input_sized_def handle_ack_sized)

lemma run_sender_sized: "keeps (sender_sized width height) (run_sender env cb)"
  by (cases cb) (simp_all add: run_sender_def on_fps_timer_sized on_writable_sized on_readable_sized on_stats_timer_sized)

text \<open>A round of the loop.\<close>

lemma sender_round_sized: "keeps (sender_sized width height) (sender_round env order flag_order)"
  unfolding sender_round_def
  by (intro keeps_poller_poll run_sender_sized)
    (auto simp: sender_sized_def input_sized_def split: prod.splits)


section \<open>The start\<close>

lemma pure_Inr_iff: "pure r w = Some (Inr x, t) \<longleftrightarrow> r = Inr x \<and> t = w"
  by (auto simp: pure_def)

lemma sender_start_facts:
  assumes "sender_start pf opts args w = Some (Inr (Some (env, p, s)), w')"
  obtains cfg port y4m_path udp_sock config w1 fps_timer stats_timer where
    "sender_connect pf port w = Some (Inr (udp_sock, config), w1)"
    and "sender_setup (pf_os pf) (pf_timers pf) (pf_vpx pf) (pf_nprocs pf) (pf_img_alloc pf) cfg y4m_path
       config udp_sock w1 = Some (Inr (s, fps_timer, stats_timer), w')"
    and "env = sender_env_of pf cfg fps_timer udp_sock stats_timer"
    and "perform poller_request (sender_registrations env) empty_poller = (Inr (), p)"
  using assms unfolding sender_start_def
  by (auto simp: bind_process_Inr_iff pure_Inr_iff bind_result_Inr_iff Let_def
      split: option.split_asm prod.split_asm) (metis prod.collapse)

lemma setup_sized:
  assumes "sender_setup os tm vpx nprocs img_alloc cfg y4m_path config udp_sock w = Some (Inr (s, fps, stats), w')"
    and "image_room (cfg_width config) (cfg_height config) (raw_image_alloc img_alloc (cfg_width config) (cfg_height config))"
  shows "sender_sized (cfg_width config) (cfg_height config) (p, s, w'')"
proof -
  have "snd_image s = raw_image_alloc img_alloc (cfg_width config) (cfg_height config)"
    using assms(1) unfolding sender_setup_def
    by (auto simp: bind_process_Inr_iff total_def return_action_def)
  then show ?thesis
    using sender_setup_agrees [OF assms(1)] assms(2) by (simp add: sender_sized_def encoder_sized_def input_sized_def)
qed

lemma run_sized:
  assumes "run (sender_step env) evs st st'" and "sender_sized width height st"
  shows "sender_sized width height st'"
  using assms
proof (induction rule: run.induct)
  case (run_Cons ev s t evs u)
  from run_Cons.hyps(1) have "sender_sized width height t"
    using run_Cons.prems keepsD [OF sender_round_sized] by (elim sender_stepE) blast
  then show ?case by (rule run_Cons.IH)
qed

section \<open>Properties\<close>

text \<open>
  C6: from its start on, whatever the command line, the receiver's configuration, the kernel's reports and the
  order in which the maps are traversed, every state that the sender's loop reaches is consistent: the four
  registrations are there and acknowledgements and both timers are listened for; whenever datagrams are queued,
  the socket is monitored for being writable, so none is forgotten; the unacknowledged datagrams are sorted by
  their own sequence numbers, belong to frames encoded before and were retransmitted at most three times; and no
  datagram queued for its first transmission is queued twice or already unacknowledged. (Frame ids do not wrap.)
\<close>

theorem sender_main_invariant:
  assumes "sender_start pf opts args w = Some (Inr (Some (env, p, s)), w0)" and "distinct_fds env"
    and "run (sender_step env) evs (p, s, w0) (p', s', w')" and "Round (Some (- 1)) \<notin> set evs"
  shows "(\<forall>fd f. callback_at (pl_roster p') fd f = sender_roster env fd f) \<and>
    (\<forall>f \<in> {env_fps_timer env, env_udp_sock env, env_stats_timer env}. poller_requested p' (fd_num f) In) \<and>
    (enc_send_buf (snd_encoder s') \<noteq> [] \<longrightarrow> poller_requested p' (fd_num (env_udp_sock env)) Out) \<and>
    om_wf (enc_unacked (snd_encoder s')) \<and>
    (\<forall>(k, d) \<in> set (enc_unacked (snd_encoder s')). k = seq_num d \<and>
       dg_frame_id d < enc_frame_id (snd_encoder s') \<and> dg_num_rtx d \<le> 3) \<and>
    (let first = map seq_num (filter (\<lambda>d. dg_num_rtx d = 0) (enc_send_buf (snd_encoder s')))
     in distinct first \<and> set first \<inter> fst ` set (enc_unacked (snd_encoder s')) = {})"
proof -
  obtain cfg path udp_sock config w1 fps stats where
    setup_ok: "sender_setup (pf_os pf) (pf_timers pf) (pf_vpx pf) (pf_nprocs pf) (pf_img_alloc pf) cfg path
       config udp_sock w1 = Some (Inr (s, fps, stats), w0)"
    and reg: "perform poller_request (sender_registrations env) empty_poller = (Inr (), p)"
    using sender_start_facts [OF assms(1)] by metis
  have "enc_send_buf (snd_encoder s) = []" "enc_unacked (snd_encoder s) = []"
    using sender_setup_agrees [OF setup_ok] by simp_all
  from sender_loop_invariant [OF assms(2) this reg assms(3,4)] show ?thesis .
qed

text \<open>
  C11: the parts of the sender fit together in every state that the loop reaches: the encoder, the video and the
  image have the same width and height, those that the receiver requested, and the planes of the image have room
  for a frame, if \<open>vpx_img_alloc\<close> makes them large enough. So the checks of the dimensions, in \<open>read_frame\<close> and
  in \<open>compress_frame\<close>, never fail.
\<close>

theorem sender_parts_agree:
  assumes "sender_start pf opts args w = Some (Inr (Some (env, p, s)), w0)"
    and "\<forall>width height :: u16. image_room width height (raw_image_alloc (pf_img_alloc pf) width height)"
    and "run (sender_step env) evs (p, s, w0) (p', s', w')"
  shows "\<exists>port udp_sock config w1 width height.
    sender_connect pf port w = Some (Inr (udp_sock, config), w1) \<and> width = cfg_width config \<and> height = cfg_height config \<and>
    enc_display_width (snd_encoder s') = width \<and> enc_display_height (snd_encoder s') = height \<and>
    y4m_width (snd_input s') = width \<and> y4m_height (snd_input s') = height \<and>
    raw_display_width (snd_image s') = width \<and> raw_display_height (snd_image s') = height \<and>
    unat width * unat height \<le> length (vpx_plane_y (raw_vpx_img (snd_image s'))) \<and>
    unat width * unat height div 4 \<le> length (vpx_plane_u (raw_vpx_img (snd_image s'))) \<and>
    unat width * unat height div 4 \<le> length (vpx_plane_v (raw_vpx_img (snd_image s')))"
proof -
  obtain cfg port path udp_sock config w1 fps stats where
    connected: "sender_connect pf port w = Some (Inr (udp_sock, config), w1)"
    and setup_ok: "sender_setup (pf_os pf) (pf_timers pf) (pf_vpx pf) (pf_nprocs pf) (pf_img_alloc pf) cfg path
       config udp_sock w1 = Some (Inr (s, fps, stats), w0)"
    using sender_start_facts [OF assms(1)] by metis
  have room: "image_room (cfg_width config) (cfg_height config)
      (raw_image_alloc (pf_img_alloc pf) (cfg_width config) (cfg_height config))"
    using assms(2) by blast
  have "sender_sized (cfg_width config) (cfg_height config) (p', s', w')"
    by (rule run_sized [OF assms(3) setup_sized [OF setup_ok room]])
  with connected show ?thesis
    by (auto simp: sender_sized_def encoder_sized_def input_sized_def image_room_def)
qed


section \<open>What goes out\<close>

definition stamped :: "datagram \<Rightarrow> u64 \<Rightarrow> bytes" where
  "stamped d t = datagram_serialize_to_string (d\<lparr>dg_send_ts := t\<rparr>)"

text \<open>
  The contract of a non-blocking \<open>send\<close>: all of the data is accepted, or it would block. Reading the clock sends
  nothing.
\<close>

definition accepts :: "'w net \<Rightarrow> file_descriptor \<Rightarrow> ('w \<Rightarrow> bytes list) \<Rightarrow> bool" where
  "accepts net sock outbox \<longleftrightarrow>
     (\<forall>w data. \<exists>w'. net_send net (fd_num sock) data w = (int (length data), w') \<and> outbox w' = outbox w @ [data] \<or>
        net_send net (fd_num sock) data w = (- 1, w') \<and> net_errno net w' = EWOULDBLOCK \<and> outbox w' = outbox w)"

lemma stamped_nonempty: "stamped d t \<noteq> []"
  using length_datagram_serialize [of "d\<lparr>dg_send_ts := t\<rparr>"] by (auto simp: stamped_def)

lemma send_loop_transmits:
  assumes "accepts (env_net env) (env_udp_sock env) outbox" and "\<forall>w. outbox (snd (env_now env w)) = outbox w"
    and "encoder_inv e" and "enc_send_buf e = buf"
  shows "\<exists>ts e' w'. send_loop env buf (e, w) = (Inr (), e', w') \<and> length ts \<le> length buf \<and>
    outbox w' = outbox w @ map2 stamped (take (length ts) buf) ts \<and>
    map seq_num (enc_send_buf e') = map seq_num (drop (length ts) buf)"
  using assms(3,4)
proof (induction buf arbitrary: e w)
  case Nil
  then show ?case by (intro exI [of _ "[]"] exI [of _ e] exI [of _ w]) (simp add: return_action_def)
next
  case (Cons d buf)
  obtain now w1 where now: "env_now env w = (now, w1)" by (cases "env_now env w")
  have quiet: "outbox w1 = outbox w" using assms(2) now by (metis snd_conv)
  let ?t = "timestamp_us now"
  let ?data = "stamped d ?t"
  have data: "datagram_serialize_to_string (d\<lparr>dg_send_ts := ?t\<rparr>) = ?data" by (simp add: stamped_def)
  have "0 < length ?data" using stamped_nonempty by simp
  obtain w2 where "net_send (env_net env) (fd_num (env_udp_sock env)) ?data w1 = (int (length ?data), w2) \<and>
        outbox w2 = outbox w1 @ [?data] \<or>
      net_send (env_net env) (fd_num (env_udp_sock env)) ?data w1 = (- 1, w2) \<and>
        net_errno (env_net env) w2 = EWOULDBLOCK \<and> outbox w2 = outbox w1"
    using assms(1) unfolding accepts_def by blast
  then show ?case
  proof
    assume sent: "net_send (env_net env) (fd_num (env_udp_sock env)) ?data w1 = (int (length ?data), w2) \<and>
        outbox w2 = outbox w1 @ [?data]"
    then have ok: "udp_send (env_net env) (env_udp_sock env) ?data w1 = (Inr True, w2)"
      using \<open>0 < length ?data\<close> by (simp add: udp_send_def check_bytes_sent_def)
    obtain e2 where e2: "(if dg_num_rtx d = 0
          then add_unacked (d\<lparr>dg_send_ts := ?t\<rparr>) (e\<lparr>enc_send_buf := d\<lparr>dg_send_ts := ?t\<rparr> # buf\<rparr>)
          else (Inr (), e\<lparr>enc_send_buf := d\<lparr>dg_send_ts := ?t\<rparr> # buf\<rparr>)) = (Inr (), e2)"
      "encoder_inv (e2\<lparr>enc_send_buf := buf\<rparr>)"
      by (rule sent_front [OF Cons.prems, of ?t])
    have step: "send_loop env (d # buf) (e, w) = send_loop env buf (e2\<lparr>enc_send_buf := buf\<rparr>, w2)"
      using now ok e2(1) by (simp add: data)
    from Cons.IH [OF e2(2), of w2] obtain ts e' w' where
      IH: "send_loop env buf (e2\<lparr>enc_send_buf := buf\<rparr>, w2) = (Inr (), e', w')" "length ts \<le> length buf"
      "outbox w' = outbox w2 @ map2 stamped (take (length ts) buf) ts"
      "map seq_num (enc_send_buf e') = map seq_num (drop (length ts) buf)" by auto
    with step sent quiet show ?thesis by (intro exI [of _ "?t # ts"] exI [of _ e'] exI [of _ w']) simp
  next
    assume blocked: "net_send (env_net env) (fd_num (env_udp_sock env)) ?data w1 = (- 1, w2) \<and>
        net_errno (env_net env) w2 = EWOULDBLOCK \<and> outbox w2 = outbox w1"
    then have "udp_send (env_net env) (env_udp_sock env) ?data w1 = (Inr False, w2)"
      using stamped_nonempty by (simp add: udp_send_def check_bytes_sent_def)
    then have "send_loop env (d # buf) (e, w) = (Inr (), e\<lparr>enc_send_buf := d\<lparr>dg_send_ts := 0\<rparr> # buf\<rparr>, w2)"
      using now by (simp add: data)
    with blocked quiet show ?thesis
      by (intro exI [of _ "[]"] exI [of _ "e\<lparr>enc_send_buf := d\<lparr>dg_send_ts := 0\<rparr> # buf\<rparr>"] exI [of _ w2])
        (simp add: seq_num_def)
  qed
qed

lemma deactivated: "poller_deactivate fd f p = (Inr u, p') \<Longrightarrow> \<not> poller_requested p' fd f"
  by (auto simp: poller_deactivate_def poller_requested_def has_flag_and_not split: option.splits)



section \<open>Witnesses\<close>

text \<open>
  A platform whose world is the data that arrive and the data that were sent: the configuration of a receiver and a
  video file that has only a header. Sockets are created with number 4 and timers with 5, 6, ...; \<open>poll\<close> reports nothing.
\<close>

definition inbox_os :: "(bytes list \<times> bytes list) os" where
  "inbox_os = idle_os\<lparr>sys_read := (\<lambda>_ n (inp, outp).
     case inp of [] \<Rightarrow> ((0, []), inp, outp)
     | data # rest \<Rightarrow> ((int (length (take n data)), take n data), drop n data # rest, outp))\<rparr>"

definition demo_platform :: "(cx_packet list, bytes list \<times> bytes list) platform" where
  "demo_platform = \<lparr>pf_os = inbox_os, pf_net = list_net\<lparr>net_socket := (\<lambda>_ _ w. (4, w))\<rparr>,
     pf_timers = \<lparr>tm_create = (\<lambda>_ _ (inp, outp). (5 + int (length outp), inp, outp @ [[0]])),
                  tm_settime = (\<lambda>_ _ _ w. (0, w))\<rparr>,
     pf_poll = (\<lambda>fds timeout_ms w. ((0, map (\<lambda>_. 0) fds), w)),
     pf_getaddrinfo = (\<lambda>_ _. (0, [2])), pf_getnameinfo = (\<lambda>_. (0, ascii ''0'', to_string 8080)),
     pf_vpx = scripted_vpx, pf_nprocs = 4,
     pf_img_alloc = (\<lambda>w h. (raw_vpx_img tiny_image)\<lparr>vpx_plane_y := replicate (unat w * unat h) 0,
       vpx_plane_u := replicate (unat w * unat h) 0, vpx_plane_v := replicate (unat w * unat h) 0\<rparr>),
     pf_now = (\<lambda>w. (5000, w)),
     pf_encode_times = (\<lambda>w. (\<lparr>ts_generation = 0, ts_now = 0, ts_encode_ms = 0, ts_encoded = 0\<rparr>, w))\<rparr>"

definition demo_inbox :: "bytes list \<times> bytes list" where
  "demo_inbox = ([config_serialize_to_string demo_config, ascii ''YUV4MPEG2'' @ [10]], [])"

definition session_env :: "(cx_packet list, bytes list \<times> bytes list) sender_env" where
  "session_env = sender_env_of demo_platform sender_defaults \<lparr>fd_num = 5, fd_eof = False\<rparr>
     \<lparr>fd_num = 4, fd_eof = False\<rparr> \<lparr>fd_num = 6, fd_eof = False\<rparr>"

lemma demo_str: "address_str (pf_getnameinfo demo_platform) a = Inr (ascii ''0'' @ ascii '':'' @ to_string 8080)"
proof -
  have "strict_stoi (to_string 8080) 10 = Inr 8080" by (simp add: strict_stoi_to_string)
  then obtain pos where "std_stoi int_t ''stoi'' (to_string 8080) 10 = Inr (8080, pos)"
    by (auto simp: strict_stoi_def bind_result_Inr_iff split: if_splits)
  then show ?thesis by (simp add: address_str_def address_ip_port_def demo_platform_def)
qed

lemma demo_recv:
  "recv_config_msg (list_net\<lparr>net_socket := sock\<rparr>) f (config_serialize_to_string demo_config # rest, outp) =
     Some (Inr (\<lparr>addr_bytes = 2 # replicate 15 0, addr_size = 1\<rparr>, demo_config), rest, outp)"
proof -
  let ?data = "config_serialize_to_string demo_config"
  have len: "length ?data = 11"
    by (simp add: config_serialize_to_string_def base_serialize_to_string_def codec_laws del: put_u8)
  then have "received_string ?data 11 = ?data" by (simp add: received_string_def blit_def UDP_MTU_def)
  with len have "udp_recvfrom (list_net\<lparr>net_socket := sock\<rparr>) f (?data # rest, outp) =
      (Inr (\<lparr>addr_bytes = 2 # replicate 15 0, addr_size = 1\<rparr>, Some ?data), rest, outp)"
    by (simp add: udp_recvfrom_def list_net_def UDP_MTU_def check_bytes_received_def address_copy_def
        SOCKADDR_SIZE_def blit_def)
  then have "arrive (list_net\<lparr>net_socket := sock\<rparr>) f ([] @ [(\<lparr>addr_bytes = 2 # replicate 15 0, addr_size = 1\<rparr>, ?data)])
      (?data # rest, outp) = Some (rest, outp)" by simp
  from recv_config_skips_others [OF this] show ?thesis by simp
qed

lemma demo_connects_rest:
  "sender_connect demo_platform port (config_serialize_to_string demo_config # rest, []) =
     Some (Inr (\<lparr>fd_num = 4, fd_eof = False\<rparr>, demo_config), rest, [])"
proof -
  have net: "pf_net demo_platform = list_net\<lparr>net_socket := (\<lambda>_ _ w. (4, w))\<rparr>" by (simp add: demo_platform_def)
  have "udp_open (pf_net demo_platform) (pf_os demo_platform) w = (Inr \<lparr>fd_num = 4, fd_eof = False\<rparr>, w)" for w
    by (simp add: udp_open_def socket_open_def demo_platform_def list_net_def check_syscall_int fd_open_def
        inbox_os_def idle_os_def)
  moreover have "address_resolve (pf_getaddrinfo demo_platform) ip port =
      Inr \<lparr>addr_bytes = 2 # replicate 15 0, addr_size = 1\<rparr>" for ip
    by (simp add: address_resolve_def demo_platform_def SOCKADDR_SIZE_def blit_def)
  moreover have "socket_bind (pf_net demo_platform) f a w = (Inr (), w)"
    "socket_connect (pf_net demo_platform) f a w = (Inr (), w)"
    "local_address (pf_net demo_platform) f w = (Inr \<lparr>addr_bytes = replicate 16 0, addr_size = 0\<rparr>, w)" for f a w
    by (simp_all add: socket_bind_def socket_connect_def local_address_def address_copy_def net list_net_def
        check_syscall_int SOCKADDR_SIZE_def blit_def)
  ultimately show ?thesis
    by (simp add: sender_connect_def bind_process_def pure_def total_def demo_str net [symmetric])
      (simp add: net demo_recv)
qed

lemma demo_connects:
  "sender_connect demo_platform port demo_inbox =
     Some (Inr (\<lparr>fd_num = 4, fd_eof = False\<rparr>, demo_config), [ascii ''YUV4MPEG2'' @ [10]], [])"
  by (simp add: demo_inbox_def demo_connects_rest)


lemma demo_opens_rest:
  "y4m_open inbox_os path 2 2 True ([ascii ''YUV4MPEG2'' @ [10] @ rest], []) = Some (Inr tiny_video, [rest], [])"
proof -
  have "y4m_header inbox_os 2 2 (\<lparr>fd_num = 3, fd_eof = False\<rparr>, [ascii ''YUV4MPEG2'' @ [10] @ rest], []) =
      Some (Inr (), \<lparr>fd_num = 3, fd_eof = False\<rparr>, [rest], [])"
    by (simp add: y4m_header_def bind_process_def total_def fd_readn_def readn_loop.simps checked_read_def
        inbox_os_def idle_os_def ascii_def check_syscall_int fd_getline_def getline_loop.simps fd_read_def
        MAX_BUF_SIZE_def split_string_def split_loop.simps)
  then show ?thesis
    by (simp add: y4m_open_def open_file_def fd_open_def inbox_os_def idle_os_def check_syscall_int tiny_video_def)
qed

lemma demo_opens:
  "y4m_open inbox_os path 2 2 True ([ascii ''YUV4MPEG2'' @ [10]], []) = Some (Inr tiny_video, [[]], [])"
  using demo_opens_rest [of path "[]"] by simp

lemma demo_starts:
  "\<exists>s. sender_start demo_platform [] [to_string 8080, ascii ''v.y4m''] demo_inbox =
     Some (Inr (Some (session_env, registered_poller session_env, s)), [[]], [[0], [0]])"
proof -
  have args: "sender_positional [to_string 8080, ascii ''v.y4m''] = Inr (Some (8080, ascii ''v.y4m''))"
    by (simp add: sender_positional_def strict_stoi_to_string narrow_cast_def static_cast_def in_range_def)
  have "\<exists>s. sender_setup (pf_os demo_platform) (pf_timers demo_platform) (pf_vpx demo_platform)
      (pf_nprocs demo_platform) (pf_img_alloc demo_platform) sender_defaults (ascii ''v.y4m'') demo_config
      \<lparr>fd_num = 4, fd_eof = False\<rparr> ([ascii ''YUV4MPEG2'' @ [10]], []) =
    Some (Inr (s, \<lparr>fd_num = 5, fd_eof = False\<rparr>, \<lparr>fd_num = 6, fd_eof = False\<rparr>), [[]], [[0], [0]])"
    using demo_opens [of "ascii ''v.y4m''"]
    by (simp add: sender_setup_def bind_process_def total_def fd_set_blocking_def inbox_os_def idle_os_def
        check_syscall_int demo_config_def encoder_init_def sender_defaults_def encoder_codec_def scripted_vpx_def
        check_call_def encoder_controls_def set_target_bitrate_def timerfd_open_def timerfd_set_time_def
        fd_open_def frame_interval_def return_action_def demo_platform_def)
  then obtain s where s: "sender_setup (pf_os demo_platform) (pf_timers demo_platform) (pf_vpx demo_platform)
      (pf_nprocs demo_platform) (pf_img_alloc demo_platform) sender_defaults (ascii ''v.y4m'') demo_config
      \<lparr>fd_num = 4, fd_eof = False\<rparr> ([ascii ''YUV4MPEG2'' @ [10]], []) =
    Some (Inr (s, \<lparr>fd_num = 5, fd_eof = False\<rparr>, \<lparr>fd_num = 6, fd_eof = False\<rparr>), [[]], [[0], [0]])" by (elim exE)
  have "distinct_fds session_env" by (simp add: distinct_fds_def session_env_def sender_env_of_def)
  from sender_registrations_poller [OF this] s show ?thesis
    by (intro exI [of _ s]) (simp add: sender_start_def bind_process_def pure_def args demo_connects
        session_env_def [symmetric])
qed

text \<open>One round in which nothing is reported.\<close>

lemma session_round:
  "sender_step session_env (Round None) (registered_poller session_env, s, w) (registered_poller session_env, s, w)"
proof -
  let ?p = "registered_poller session_env"
  have distinct: "distinct_fds session_env" by (simp add: distinct_fds_def session_env_def sender_env_of_def)
  have leaving: "poller_do_deregister ?p = ?p" by (simp add: poller_do_deregister_def registered_poller_def fun_eq_iff)
  have fds: "fds_to_poll [5, 4, 6] ?p = [(5, 1), (4, 5), (6, 1)]"
    by (simp add: fds_to_poll_def registered_poller_def session_env_def sender_env_of_def flag_value_def)
  have answer: "env_poll session_env [(5, 1), (4, 5), (6, 1)] (- 1) w = ((0, [0, 0, 0]), w)" for w
    by (simp add: session_env_def sender_env_of_def demo_platform_def)
  have answers: "poll_answers [(5, 1), (4, 5), (6, 1)] (0, [0, 0, 0])"
    by (auto simp: poll_answers_def has_flag_def flag_value_def split: flag.splits)
  have order: "set [5, 4, 6] = {fd. pl_active ?p fd \<noteq> None}"
    by (auto simp: registered_poller_def session_env_def sender_env_of_def split: if_splits)
  have flags: "\<forall>fd. distinct ((\<lambda>_. [In, Out]) fd) \<and> set ((\<lambda>_. [In, Out]) (fd :: int)) = UNIV"
    using flag.exhaust by auto
  have quiet: "\<not> reported [(5, 1), (4, 5), (6, 1)] [0, 0, 0] (fd_num (env_fps_timer session_env)) In"
    by (simp add: reported_def has_flag_def)
  have inv: "poller_inv ?p" using registered_poller_ready(1) [OF distinct] by (simp add: poller_ready_def)
  have none: "ready_events (pl_roster ?p) (\<lambda>_. [In, Out]) (polled [(5, 1), (4, 5), (6, 1)] [0, 0, 0]) = []"
    by (simp add: ready_events_def polled_def has_flag_def)
  have round: "sender_round session_env [5, 4, 6] (\<lambda>_. [In, Out]) (?p, s, w) = Some (Inr (), ?p, s, w)"
    unfolding sender_round_def
    using poller_poll_ready [OF inv run_sender_requests, of
        "\<lambda>fds timeout_ms (s, w). let (answer, w') = env_poll session_env fds timeout_ms w in (answer, s, w')"
        "[5, 4, 6]" "- 1" "(s, w)" 0 "[0, 0, 0]" "(s, w)" session_env "\<lambda>_. [In, Out]"] answers
    by (simp add: leaving fds answer none callbacks_of_def total_def return_action_def)
  show ?thesis
    using sender_step.Round [of "[5, 4, 6]" ?p "\<lambda>_. [In, Out]" session_env w s "(?p, s, w)"]
      order flags answers quiet round by (simp add: leaving fds answer)
qed

theorem sender_main_invariant_witness:
  "\<exists>s p'. sender_start demo_platform [] [to_string 8080, ascii ''v.y4m''] demo_inbox =
       Some (Inr (Some (session_env, registered_poller session_env, s)), [[]], [[0], [0]]) \<and>
     run (sender_step session_env) [Round None] (registered_poller session_env, s, [[]], [[0], [0]])
       (p', s, [[]], [[0], [0]]) \<and> poller_requested p' 4 In"
proof -
  let ?p = "registered_poller session_env" and ?w = "([[]], [[0], [0]]) :: bytes list \<times> bytes list"
  obtain s where started: "sender_start demo_platform [] [to_string 8080, ascii ''v.y4m''] demo_inbox =
       Some (Inr (Some (session_env, ?p, s)), ?w)" using demo_starts by (elim exE)
  have distinct: "distinct_fds session_env" by (simp add: distinct_fds_def session_env_def sender_env_of_def)
  have ran: "run (sender_step session_env) [Round None] (?p, s, ?w) (?p, s, ?w)"
    using session_round by (auto simp: run_Cons_iff)
  have "fd_num (env_udp_sock session_env) = 4" by (simp add: session_env_def sender_env_of_def)
  then have "poller_requested ?p 4 In" using sender_main_invariant [OF started distinct ran] by auto
  with started ran show ?thesis by (intro exI [of _ s] exI [of _ ?p] conjI)
qed

theorem sender_parts_agree_witness:
  "\<exists>s. sender_start demo_platform [] [to_string 8080, ascii ''v.y4m''] demo_inbox =
       Some (Inr (Some (session_env, registered_poller session_env, s)), [[]], [[0], [0]]) \<and>
     enc_display_width (snd_encoder s) = y4m_width (snd_input s) \<and> 4 \<le> length (vpx_plane_y (raw_vpx_img (snd_image s)))"
proof -
  let ?p = "registered_poller session_env" and ?w = "([[]], [[0], [0]]) :: bytes list \<times> bytes list"
  obtain s where started: "sender_start demo_platform [] [to_string 8080, ascii ''v.y4m''] demo_inbox =
       Some (Inr (Some (session_env, ?p, s)), ?w)" using demo_starts by (elim exE)
  have "unat (ucast a :: u32) = unat a" for a :: u16
  proof -
    have "unat a < 65536" using unsigned_less [of a] by simp
    then show ?thesis by (simp add: unsigned_ucast_eq take_bit_nat_eq_self_iff)
  qed
  then have room: "\<forall>width height :: u16. image_room width height (raw_image_alloc (pf_img_alloc demo_platform) width height)"
    by (simp add: image_room_def raw_image_alloc_def demo_platform_def div_le_dividend)
  have ran: "run (sender_step session_env) [Round None] (?p, s, ?w) (?p, s, ?w)"
    using session_round by (auto simp: run_Cons_iff)
  from sender_parts_agree [OF started room ran] show ?thesis
    using started demo_connects by (auto simp: demo_config_def)
qed



section \<open>What comes back\<close>

text \<open>
  The contract of a non-blocking \<open>recv\<close>: the pending messages in turn, then it would block. Reading the clock
  receives nothing.
\<close>

definition receives :: "'w net \<Rightarrow> file_descriptor \<Rightarrow> ('w \<Rightarrow> bytes list) \<Rightarrow> bool" where
  "receives net sock inbox \<longleftrightarrow>
     (\<forall>w m rest. inbox w = m # rest \<longrightarrow> (\<exists>w'. pending_datagram net (fd_num sock) m w w' \<and> inbox w' = rest)) \<and>
     (\<forall>w. inbox w = [] \<longrightarrow> (\<exists>stored w'. net_recv net (fd_num sock) UDP_MTU w = ((- 1, stored), w') \<and>
        net_errno net w' = EWOULDBLOCK \<and> inbox w' = []))"

lemma ack_for_datagram: "ack_for (datagram_serialize_to_string d) = serialize_to_string (AckMsg (ack_of_datagram d))"
  by (simp add: ack_for_def datagram_reparse ack_of_datagram_def)

lemma handle_ack_keys:
  assumes "encoder_inv e"
  shows "fst ` set (enc_unacked (snd (handle_ack now ack e))) =
      fst ` set (enc_unacked e) - {SeqNum (ack_frame_id ack) (ack_frag_id ack)}"
    and "fresh (enc_send_buf (snd (handle_ack now ack e))) = fresh (enc_send_buf e)"
proof -
  have wf: "om_wf (enc_unacked e)" using assms by (simp add: encoder_inv_def)
  let ?acked = "SeqNum (ack_frame_id ack) (ack_frag_id ack)"
  have "fst ` set (om_erase ?acked (enc_unacked e)) = fst ` set (enc_unacked e) - {?acked}"
    by (force simp: om_erase_def)
  then show "fst ` set (enc_unacked (snd (handle_ack now ack e))) = fst ` set (enc_unacked e) - {?acked}"
    using om.find_None_iff [OF wf, of ?acked]
    by (auto simp: handle_ack_result [OF wf] Let_def add_rtt_sample_def image_image)
  show "fresh (enc_send_buf (snd (handle_ack now ack e))) = fresh (enc_send_buf e)"
    by (simp add: handle_ack_result [OF wf] Let_def add_rtt_sample_def retransmissions_not_fresh)
qed

text \<open>
  C7: every datagram that reached the receiver is off the sender's list after its acknowledgement came back.
  When the readable socket has the acknowledgements of any datagrams pending, in whatever order and number, the
  callback takes them all, returns without an exception once \<open>recv\<close> would block, and then exactly the
  acknowledged sequence numbers are no longer unacknowledged; no datagram waiting for its first transmission is lost,
  and if any is queued, now or as a retransmission, the socket is monitored for being writable.
\<close>

theorem acknowledgements_clear:
  assumes "receives (env_net env) (env_udp_sock env) inbox" and "\<forall>w. inbox (snd (env_now env w)) = inbox w"
    and "sender_inv env (p, s, w)" and "inbox w = map (\<lambda>d. ack_for (datagram_serialize_to_string d)) ds"
  shows "\<exists>p' e' w'. on_readable env (p, s, w) = Some (Inr (), p', s\<lparr>snd_encoder := e'\<rparr>, w') \<and> inbox w' = [] \<and>
    fst ` set (enc_unacked e') = fst ` set (enc_unacked (snd_encoder s)) - seq_num ` set ds \<and>
    filter (\<lambda>d. dg_num_rtx d = 0) (enc_send_buf e') = filter (\<lambda>d. dg_num_rtx d = 0) (enc_send_buf (snd_encoder s)) \<and>
    (enc_send_buf e' \<noteq> [] \<longrightarrow> poller_requested p' (fd_num (env_udp_sock env)) Out)"
  using assms(3,4)
proof (induction ds arbitrary: p s w)
  case Nil
  then obtain stored w' where recv: "net_recv (env_net env) (fd_num (env_udp_sock env)) UDP_MTU w = ((- 1, stored), w')"
    "net_errno (env_net env) w' = EWOULDBLOCK" "inbox w' = []"
    using assms(1) unfolding receives_def by auto
  then have "udp_recv (env_net env) (env_udp_sock env) w = (Inr None, w')"
    by (simp add: udp_recv_def check_bytes_received_def)
  then have "on_readable env (p, s, w) = Some (Inr (), p, s\<lparr>snd_encoder := snd_encoder s\<rparr>, w')"
    by (subst on_readable.simps) simp
  with recv(3) Nil.prems(1) show ?case by (intro exI [of _ p] exI [of _ "snd_encoder s"] exI [of _ w']) (simp add: sender_inv_def)
next
  case (Cons d ds)
  let ?m = "serialize_to_string (AckMsg (ack_of_datagram d))"
  let ?rest = "map (\<lambda>d. ack_for (datagram_serialize_to_string d)) ds"
  have inv: "poller_ready env p" "encoder_inv (snd_encoder s)" using Cons.prems(1) by (simp_all add: sender_inv_def)
  have "inbox w = ?m # ?rest" using Cons.prems(2) by (simp add: ack_for_datagram)
  then obtain w1 where pending: "pending_datagram (env_net env) (fd_num (env_udp_sock env)) ?m w w1" "inbox w1 = ?rest"
    using assms(1) unfolding receives_def by blast
  have "length ?m \<le> 65536"
    by (simp add: ack_serialize_to_string_def base_serialize_to_string_def codec_laws)
  then have received: "udp_recv (env_net env) (env_udp_sock env) w = (Inr (Some ?m), w1)"
    using udp_recv_pending [OF pending(1)] by simp
  have parsed: "msg_parse_from_string ?m = Inr (Some (AckMsg (ack_of_datagram d)))"
    using ack_roundtrip [of _ "[]"] by simp
  obtain now w2 where now: "env_now env w1 = (now, w2)" by (cases "env_now env w1")
  let ?t = "timestamp_us now"
  obtain e where e: "handle_ack ?t (ack_of_datagram d) (snd_encoder s) = (Inr (), e)" "encoder_inv e"
    using handle_ack_inv [OF inv(2), of ?t "ack_of_datagram d"] by (metis prod.collapse)
  let ?s = "s\<lparr>snd_encoder := e\<rparr>"
  obtain p1 where want: "want_writable env (p, ?s, w2) = (Inr (), p1, ?s, w2)" "sender_inv env (p1, ?s, w2)"
    using want_writable_inv [OF inv(1), of ?s w2] e(2) by auto
  have step: "on_readable env (p, s, w) = on_readable env (p1, ?s, w2)"
    using received parsed now e(1) want(1) by (subst on_readable.simps) simp
  have "inbox w2 = ?rest" using pending(2) assms(2) now by (metis snd_conv)
  from Cons.IH [OF want(2) this] obtain p' e' w' where IH:
    "on_readable env (p1, ?s, w2) = Some (Inr (), p', ?s\<lparr>snd_encoder := e'\<rparr>, w')" "inbox w' = []"
    "fst ` set (enc_unacked e') = fst ` set (enc_unacked e) - seq_num ` set ds"
    "fresh (enc_send_buf e') = fresh (enc_send_buf e)"
    "enc_send_buf e' \<noteq> [] \<longrightarrow> poller_requested p' (fd_num (env_udp_sock env)) Out"
    by (auto simp: fresh_def)
  have "SeqNum (ack_frame_id (ack_of_datagram d)) (ack_frag_id (ack_of_datagram d)) = seq_num d"
    by (simp add: ack_of_datagram_def seq_num_def)
  note keys = handle_ack_keys [OF inv(2), of ?t "ack_of_datagram d", unfolded this e(1) snd_conv]
  have "fst ` set (enc_unacked e') = fst ` set (enc_unacked (snd_encoder s)) - seq_num ` set (d # ds)"
    using IH(3) keys(1) by auto
  with step IH keys(2) show ?case
    by (intro exI [of _ p'] exI [of _ e'] exI [of _ w']) (simp add: fresh_def)
qed

section \<open>The handshake\<close>

text \<open>
  C10: both ends agree on the configuration. The receiver sends one message; when it arrives, the waiting sender
  returns the receiver's width, height, frame rate and bitrate with the address the message came from, whatever
  empty, unknown or acknowledging datagrams arrive before it.
\<close>

theorem session_agrees_on_config:
  assumes "delivers rnet rsock inbox outbox"
    and "request_config rnet rsock cfg args r = (res, r')" and "outbox r' = outbox r @ sent"
    and "arrive net f (ms @ map (Pair peer) sent) w = Some w'"
    and "\<forall>(addr, data) \<in> set ms. msg_parse_from_string data = Inr None \<or>
      (\<exists>ack. msg_parse_from_string data = Inr (Some (AckMsg ack)))"
  shows "res = Inr True \<and> (\<exists>config. recv_config_msg net f w = Some (Inr (peer, config), w') \<and>
    cfg_width config = ra_width args \<and> cfg_height config = ra_height args \<and>
    cfg_frame_rate config = rc_frame_rate cfg \<and> cfg_target_bitrate config = rc_bitrate cfg)"
proof -
  let ?config = "\<lparr>cfg_width = ra_width args, cfg_height = ra_height args, cfg_frame_rate = rc_frame_rate cfg,
    cfg_target_bitrate = rc_bitrate cfg\<rparr>"
  let ?msg = "config_serialize_to_string ?config"
  obtain r1 where r1: "net_send rnet (fd_num rsock) ?msg r = (int (length ?msg), r1)" "outbox r1 = outbox r @ [?msg]"
    using assms(1) unfolding delivers_def by blast
  have "0 < length ?msg" by (simp add: config_serialize_to_string_def base_serialize_to_string_def codec_laws)
  with r1(1) have "udp_send rnet rsock ?msg r = (Inr True, r1)" by (simp add: udp_send_def check_bytes_sent_def)
  then have "res = Inr True" and "r' = r1" using assms(2) by (simp_all add: request_config_def config_msg_new_def)
  with r1(2) assms(3) have "sent = [?msg]" by simp
  then have "arrive net f (ms @ [(peer, ?msg)]) w = Some w'" using assms(4) by simp
  from recv_config_skips_others [OF this assms(5)] \<open>res = Inr True\<close> show ?thesis by simp
qed

text \<open>The receiver's request, and the sender that receives it after two other datagrams.\<close>

definition demo_args :: receiver_args where
  "demo_args = \<lparr>ra_host = ascii ''h'', ra_port = 8080, ra_width = 2, ra_height = 2\<rparr>"

definition demo_request :: bytes where
  "demo_request = config_serialize_to_string \<lparr>cfg_width = 2, cfg_height = 2, cfg_frame_rate = 30, cfg_target_bitrate = 0\<rparr>"

theorem session_agrees_on_config_witness:
  "request_config list_net \<lparr>fd_num = 3, fd_eof = False\<rparr> receiver_defaults demo_args ([], []) = (Inr True, [], [demo_request]) \<and>
   (\<exists>config. recv_config_msg list_net \<lparr>fd_num = 4, fd_eof = False\<rparr> ([[], [9, 9], demo_request], []) =
     Some (Inr (\<lparr>addr_bytes = 2 # replicate 15 0, addr_size = 1\<rparr>, config), [], []) \<and> cfg_frame_rate config = 30)"
proof -
  let ?a = "\<lparr>addr_bytes = 2 # replicate 15 0, addr_size = 1\<rparr>"
  have net: "delivers list_net \<lparr>fd_num = 3, fd_eof = False\<rparr> fst snd"
    by (auto simp: delivers_def pending_datagram_def list_net_def)
  have whole: "udp_recvfrom list_net f (data # rest, out) = (Inr (?a, Some data), rest, out)"
    if "length data \<le> 65536" for f data rest out
  proof -
    have "received_string data (int (length data)) = data"
      using that by (simp add: received_string_def blit_def UDP_MTU_def)
    then show ?thesis using that
      by (simp add: udp_recvfrom_def list_net_def UDP_MTU_def check_bytes_received_def address_copy_def
          SOCKADDR_SIZE_def blit_def)
  qed
  have len: "length demo_request = 11"
    by (simp add: demo_request_def config_serialize_to_string_def base_serialize_to_string_def codec_laws del: put_u8)
  then have "demo_request \<noteq> []" by auto
  then have sent: "request_config list_net \<lparr>fd_num = 3, fd_eof = False\<rparr> receiver_defaults demo_args ([], []) =
      (Inr True, [], [demo_request])"
    by (simp add: request_config_def config_msg_new_def receiver_defaults_def demo_args_def demo_request_def udp_send_def
        list_net_def check_bytes_sent_def)
  have out: "snd ([] :: bytes list, [demo_request]) = snd ([] :: bytes list, []) @ [demo_request]" by simp
  have arrives: "arrive list_net \<lparr>fd_num = 4, fd_eof = False\<rparr>
      ([(?a, []), (?a, [9, 9])] @ map (Pair ?a) [demo_request]) ([[], [9, 9], demo_request], []) = Some ([], [])"
    using len by (simp add: whole)
  have "msg_parse_from_string [9, 9] = Inr None"
  proof -
    have "read_uint8 [9, 9] = (Inr 9, [9])" using w8.get_put [of 9 "[9]"] by simp
    then show ?thesis
      by (simp add: msg_parse_from_string_def sizeof_def bind_action_def return_action_def MSG_ACK_def MSG_CONFIG_def)
  qed
  then have "\<forall>(addr, data) \<in> set [(?a, []), (?a, [9, 9])]. msg_parse_from_string data = Inr None \<or>
      (\<exists>ack. msg_parse_from_string data = Inr (Some (AckMsg ack)))"
    by (simp add: msg_parse_from_string_def sizeof_def)
  from session_agrees_on_config [OF net sent out arrives this] sent show ?thesis
    by (auto simp: receiver_defaults_def)
qed

text \<open>Two fragments of a frame are unacknowledged; the acknowledgement of the second one comes back.\<close>

definition waiting_sender :: "cx_packet list sender" where
  "waiting_sender = demo_sender\<lparr>snd_encoder := two_unacked\<lparr>enc_frame_id := 6\<rparr>\<rparr>"

theorem acknowledgements_clear_witness:
  "\<exists>p' e' w'. on_readable demo_env (registered_poller demo_env, waiting_sender,
      [ack_for (datagram_serialize_to_string (make_datagram 5 KEY 1 2 [3]))], []) =
      Some (Inr (), p', waiting_sender\<lparr>snd_encoder := e'\<rparr>, w') \<and>
    fst ` set (enc_unacked e') = {SeqNum 5 0}"
proof -
  let ?d = "make_datagram 5 KEY 1 2 [3]"
  let ?w = "([ack_for (datagram_serialize_to_string ?d)], []) :: bytes list \<times> bytes list"
  have receives: "receives (env_net demo_env) (env_udp_sock demo_env) fst"
    by (auto simp: receives_def demo_env_def list_net_def pending_datagram_def)
  have quiet: "\<forall>w. fst (snd (env_now demo_env w)) = fst w" by (simp add: demo_env_def)
  have "encoder_inv (snd_encoder waiting_sender)"
    by (simp add: waiting_sender_def two_unacked_def scripted_encoder_def encoder_inv_def om_wf_def tracked_def
        make_datagram_def new_datagram_def MAX_NUM_RTX_def less_SeqNum_def seq_num_def)
  moreover have "enc_send_buf (snd_encoder waiting_sender) = []"
    by (simp add: waiting_sender_def two_unacked_def scripted_encoder_def)
  ultimately have inv: "sender_inv demo_env (registered_poller demo_env, waiting_sender, ?w)"
    using registered_poller_ready [OF demo_distinct] by (simp add: sender_inv_def)
  have keys: "fst ` set (enc_unacked (snd_encoder waiting_sender)) - seq_num ` set [?d] = {SeqNum 5 0}"
    by (auto simp: waiting_sender_def two_unacked_def scripted_encoder_def make_datagram_def new_datagram_def seq_num_def)
  have pending: "fst ?w = map (\<lambda>d. ack_for (datagram_serialize_to_string d)) [?d]" by simp
  show ?thesis using acknowledgements_clear [OF receives quiet inv pending, unfolded keys] by blast
qed

end
