(* ===== verification/Receiver_Threads.thy ===== *)
theory Receiver_Threads
  imports Video_Receiver Transition_System
begin

text \<open>
  The two threads of the receiver as a step relation: the main thread alternates between adding one
  datagram and consuming decodable frames, the worker between taking over the shared queue and
  decoding the frames of its local queue; any interleaving of their steps is possible, since the
  mutex makes each access to the shared queue one step. Two history variables record the frames
  dispatched by the main thread and the frames decoded by the worker.
\<close>

section \<open>Steps\<close>

record 'c receiver =
  rcv_main :: decoder
  rcv_draining :: bool
  rcv_worker :: "'c worker"
  rcv_checked :: bool
  rcv_dispatched :: "frame list"
  rcv_decoded :: "frame list"

datatype event = Add datagram | Consume int u64 | Stop_Draining | Check_Display | Take | Decode double u64 int

inductive step :: "'w sdl \<Rightarrow> 'c vpx_decoder \<Rightarrow> 'w os \<Rightarrow> event \<Rightarrow> 'c receiver \<times> 'w \<Rightarrow> 'c receiver \<times> 'w \<Rightarrow> bool"
  for sdl vpx os where
  Add: "\<not> rcv_draining r \<Longrightarrow> add_datagram datagram (rcv_main r) = (Inr (), d) \<Longrightarrow>
    step sdl vpx os (Add datagram) (r, w) (r\<lparr>rcv_main := d, rcv_draining := True\<rparr>, w)"
| Consume: "rcv_draining r \<Longrightarrow> next_frame_complete (rcv_main r) = (Inr True, d) \<Longrightarrow>
    consume_next_frame os now ts (d, w) = (Inr (), d', w') \<Longrightarrow>
    step sdl vpx os (Consume now ts) (r, w)
      (r\<lparr>rcv_main := d', rcv_dispatched := rcv_dispatched r @
          drop (length (dec_shared_queue d)) (dec_shared_queue d')\<rparr>, w')"
| Stop_Draining: "rcv_draining r \<Longrightarrow> next_frame_complete (rcv_main r) = (Inr False, d) \<Longrightarrow>
    step sdl vpx os Stop_Draining (r, w) (r\<lparr>rcv_main := d, rcv_draining := False\<rparr>, w)"
| Check_Display: "wk_local_queue (rcv_worker r) = [] \<Longrightarrow> \<not> rcv_checked r \<Longrightarrow>
    check_display sdl (rcv_worker r) w = Some (wk, w') \<Longrightarrow>
    step sdl vpx os Check_Display (r, w) (r\<lparr>rcv_worker := wk, rcv_checked := True\<rparr>, w')"
| Take: "wk_local_queue (rcv_worker r) = [] \<Longrightarrow> rcv_checked r \<Longrightarrow>
    take_shared (rcv_main r, rcv_worker r) = Some (d, wk) \<Longrightarrow>
    step sdl vpx os Take (r, w) (r\<lparr>rcv_main := d, rcv_worker := wk, rcv_checked := False\<rparr>, w)"
| Decode: "wk_local_queue (rcv_worker r) = f # rest \<Longrightarrow>
    worker_frame sdl vpx os ms ts now (dec_output_fd (rcv_main r), rcv_worker r, w) =
      (Inr (), fd, wk, w') \<Longrightarrow>
    step sdl vpx os (Decode ms ts now) (r, w)
      (r\<lparr>rcv_main := (rcv_main r)\<lparr>dec_output_fd := fd\<rparr>, rcv_worker := wk,
         rcv_decoded := rcv_decoded r @ [f]\<rparr>, w')"

inductive_cases stepE: "step sdl vpx os ev s s'"

section \<open>The invariant\<close>

definition ids_sorted :: "frame list \<Rightarrow> bool" where
  "ids_sorted fs = sorted_wrt (<) (map frm_id fs)"

definition receiver_inv :: "'c receiver \<Rightarrow> bool" where
  "receiver_inv r =
     (decoder_inv (rcv_main r) \<and> no_last_id (rcv_main r) \<and> dec_lazy_level (rcv_main r) \<le> DECODE_ONLY \<and>
      rcv_decoded r @ wk_local_queue (rcv_worker r) @ dec_shared_queue (rcv_main r) = rcv_dispatched r \<and>
      ids_sorted (rcv_dispatched r) \<and> chained 0 (rcv_dispatched r) \<and>
      after_last 0 (rcv_dispatched r) = dec_next_frame (rcv_main r) \<and>
      (\<forall>f \<in> set (rcv_dispatched r). frame_complete f \<and> frame_inv f \<and>
         frm_id f < dec_next_frame (rcv_main r)))"

definition plain_id :: "event \<Rightarrow> bool" where
  "plain_id ev = (case ev of Add datagram \<Rightarrow> dg_frame_id datagram \<noteq> - 1 | _ \<Rightarrow> True)"

lemma add_datagram_keeps:
  assumes "decoder_inv d" and "add_datagram datagram d = (r, d')"
  shows "dec_next_frame d' = dec_next_frame d" and "dec_shared_queue d' = dec_shared_queue d"
    and "dec_lazy_level d' = dec_lazy_level d"
    and "no_last_id d \<Longrightarrow> dg_frame_id datagram \<noteq> - 1 \<Longrightarrow> no_last_id d'"
proof -
  have "d' = d \<or> (\<exists>m f. d' = d\<lparr>dec_frame_buf := m\<rparr> \<and> om_wf m \<and>
      om_find m = (om_find (dec_frame_buf d))(dg_frame_id datagram \<mapsto> f))"
    using add_datagram_result [OF assms(1), of datagram] assms(2)
    by (auto split: if_splits sum.splits)
  then show "dec_next_frame d' = dec_next_frame d" "dec_shared_queue d' = dec_shared_queue d"
    "dec_lazy_level d' = dec_lazy_level d" by auto
  assume last: "no_last_id d" and id: "dg_frame_id datagram \<noteq> - 1"
  have key: "no_last_id e \<longleftrightarrow> om_find (dec_frame_buf e) (- 1) = None" if "om_wf (dec_frame_buf e)" for e
    using om.find_None_iff [OF that, of "- 1"] unfolding no_last_id_def by blast
  from \<open>d' = d \<or> _\<close> show "no_last_id d'"
    using last id key [of d] key [of d'] decoder_invD(1) [OF assms(1)] by auto
qed

lemma step_inv:
  assumes "step sdl vpx os ev s s'" and "receiver_inv (fst s)" and "plain_id ev"
  shows "receiver_inv (fst s')"
  using assms
proof (induction rule: step.induct)
  case (Add r datagram d w)
  have inv: "decoder_inv (rcv_main r)" using Add.prems by (simp add: receiver_inv_def)
  have "decoder_inv d" using add_datagram_inv [OF inv, of datagram] Add.hyps(2) by simp
  with add_datagram_keeps [OF inv Add.hyps(2)] Add.prems show ?case
    by (simp add: receiver_inv_def plain_id_def)
next
  case (Consume r d now ts w d' w')
  have inv: "decoder_inv (rcv_main r)" "no_last_id (rcv_main r)" "no_output (rcv_main r)"
    and lazy: "dec_lazy_level (rcv_main r) \<le> DECODE_ONLY"
    using Consume.prems by (simp_all add: receiver_inv_def no_output_def)
  note ready = next_frame_complete_ready [OF inv(1) Consume.hyps(2)]
  obtain f d2 where c: "consume_next_frame os now ts (d, w) = (Inr (), d2, w)"
    "decoder_inv d2" "no_last_id d2" "(frm_id f, f) \<in> set (dec_frame_buf (rcv_main r))" "frame_complete f"
    "dec_next_frame (rcv_main r) \<le> frm_id f" "dec_next_frame d2 = frm_id f + 1" "chained (dec_next_frame (rcv_main r)) [f]"
    "dec_shared_queue d2 = dec_shared_queue (rcv_main r) @
       (if dec_lazy_level (rcv_main r) \<le> DECODE_ONLY then [f] else [])"
    "dec_lazy_level d2 = dec_lazy_level (rcv_main r)" "frm_id f < frm_id f + 1"
    by (rule consume_step [OF inv Consume.hyps(2), of os now ts w])
  have d': "d' = d2" using c(1) Consume.hyps(3) by simp
  have "frame_inv f" using decoder_invD(3) [OF inv(1) c(4)] by simp
  moreover have "frm_id g < frm_id f" if "g \<in> set (rcv_dispatched r)" for g
    using that Consume.prems(1) c(6) by (auto simp: receiver_inv_def intro: less_le_trans)
  ultimately show ?case
    using Consume.prems c lazy ready(6) less_trans [OF _ c(11)]
    by (auto simp: receiver_inv_def d' ids_sorted_def sorted_wrt_append simp flip: after_last_simps(3))
next
  case (Stop_Draining r d w)
  then have "d = rcv_main r"
    using next_frame_complete_inv [of "rcv_main r"] skip_to_key_frame_result [of "rcv_main r"]
    by (auto simp: receiver_inv_def next_frame_complete_cases split: option.splits)
  with Stop_Draining.prems show ?case by (simp add: receiver_inv_def)
next
  case (Check_Display r w wk w')
  then have "wk_local_queue wk = wk_local_queue (rcv_worker r)"
    by (auto simp: check_display_def split: option.splits prod.splits if_splits)
  with Check_Display.prems show ?case by (simp add: receiver_inv_def)
next
  case (Take r d wk w)
  then show ?case
    by (auto simp: receiver_inv_def take_shared_def decoder_inv_def no_last_id_def split: if_splits)
next
  case (Decode r f rest ms ts now w fd wk w')
  have "wk_local_queue wk = rest" by (rule worker_frame_pops [OF Decode.hyps])
  then show ?case
    using Decode.hyps(1) Decode.prems by (auto simp: receiver_inv_def decoder_inv_def no_last_id_def)
qed

interpretation receiver: step_invariant "step sdl vpx os" "\<lambda>s. receiver_inv (fst s)" plain_id
  by unfold_locales (rule step_inv)

section \<open>Properties\<close>

text \<open>The receiver after its construction, before the first datagram.\<close>

definition initial_receiver :: "decoder \<Rightarrow> 'c worker \<Rightarrow> 'c receiver" where
  "initial_receiver d wk = \<lparr>rcv_main = d, rcv_draining = False, rcv_worker = wk, rcv_checked = False,
     rcv_dispatched = [], rcv_decoded = []\<rparr>"

lemma initial_receiver_inv:
  assumes "decoder_init os now width height lazy path w0 = (Inr d, w1)" and "lazy \<le> DECODE_ONLY"
    and "wk_local_queue wk = []"
  shows "receiver_inv (initial_receiver d wk)"
proof -
  have "decoder_inv d" by (rule decoder_inv_initial [OF assms(1)])
  moreover have "dec_frame_buf d = [] \<and> dec_shared_queue d = [] \<and> dec_lazy_level d = lazy \<and> dec_next_frame d = 0"
    using assms(1) by (auto simp: decoder_init_def Let_def split: if_splits prod.splits sum.splits)
  ultimately show ?thesis
    using assms(2,3) by (simp add: receiver_inv_def initial_receiver_def no_last_id_def ids_sorted_def)
qed

text \<open>
  C3: in every interleaving of the two threads, the frames decoded so far, those in the worker's local
  queue and those in the shared queue are, in this order, exactly the frames the main thread has
  dispatched: none is lost, duplicated or reordered on the way. The dispatched frames are complete,
  their ids strictly increase, and each of them is the successor of the one before it, the first one frame 0, or a key
  frame, so that no frame is decoded without the one it refers to; \<open>next_frame_\<close> is the one after the last of them. (No datagram carries the frame
  id \<open>2^32 - 1\<close>, where the counter wraps.)
\<close>

theorem frames_in_order:
  assumes "decoder_init os now width height lazy path w0 = (Inr d, w1)" and "lazy \<le> DECODE_ONLY"
    and "wk_local_queue wk = []"
    and "run (step sdl vpx os) evs (initial_receiver d wk, w) (r, w')"
    and "\<forall>datagram. Add datagram \<in> set evs \<longrightarrow> dg_frame_id datagram \<noteq> - 1"
  shows "rcv_decoded r @ wk_local_queue (rcv_worker r) @ dec_shared_queue (rcv_main r) = rcv_dispatched r \<and>
    sorted_wrt (<) (map frm_id (rcv_dispatched r)) \<and> chained 0 (rcv_dispatched r) \<and>
    dec_next_frame (rcv_main r) = after_last 0 (rcv_dispatched r) \<and>
    (\<forall>f \<in> set (rcv_dispatched r). frame_complete f \<and> frm_id f < dec_next_frame (rcv_main r) \<and>
       frm_frame_size f = length (frame_bytes f))"
proof -
  have "\<forall>ev \<in> set evs. plain_id ev" using assms(5) by (auto simp: plain_id_def split: event.split)
  with receiver.run_preserves [OF assms(4)] initial_receiver_inv [OF assms(1,2,3)]
  have "receiver_inv r" by simp
  then show ?thesis
    by (auto simp: receiver_inv_def ids_sorted_def frame_inv_def frame_bytes_def length_concat o_def)
qed

definition idle_worker :: "bytes list worker" where
  "idle_worker = \<lparr>wk_context = [], wk_display = None, wk_local_queue = [], wk_num_decoded_frames = 0,
     wk_total_decode_time_ms = 0, wk_max_decode_time_ms = 0, wk_last_stats_time = 0\<rparr>"

definition no_sdl :: "(bytes \<times> bytes) sdl" where
  "no_sdl = \<lparr>sdl_init = (\<lambda>w. (True, w)), sdl_create_window = (\<lambda>_ _ w. (True, w)),
     sdl_create_renderer = (\<lambda>w. (True, w)), sdl_create_texture = (\<lambda>_ _ w. (True, w)),
     sdl_draw = (\<lambda>_ w. w), sdl_poll_event = (\<lambda>w. (None, w)), sdl_destroy_texture = (\<lambda>w. w), sdl_destroy_renderer = (\<lambda>w. w),
     sdl_destroy_window = (\<lambda>w. w), sdl_quit = (\<lambda>w. w)\<rparr>"

definition fresh_decoder :: decoder where
  "fresh_decoder = \<lparr>dec_display_width = 4, dec_display_height = 2, dec_lazy_level = 1,
     dec_output_fd = None, dec_epoch = 0, dec_verbose = False, dec_next_frame = 0, dec_frame_buf = [],
     dec_num_decodable_frames = 0, dec_total_decodable_frame_size = 0, dec_last_stats_time = 0,
     dec_shared_queue = [], dec_worker = True\<rparr>"

lemma fresh_decoder_init: "decoder_init (stream_os 1) 0 4 2 1 [] ([], []) = (Inr fresh_decoder, ([], []))"
  by (simp add: decoder_init_def fresh_decoder_def DECODE_DISPLAY_def NO_DECODE_DISPLAY_def DECODE_ONLY_def)

text \<open>A run: a key frame of one fragment arrives, is dispatched, taken over and decoded.\<close>

definition one_frame_events :: "event list" where
  "one_frame_events = [Add (make_datagram 0 KEY 0 1 [5]), Consume 0 0, Stop_Draining, Check_Display,
     Take, Decode 1 0 0]"

definition frame_zero :: frame where
  "frame_zero = \<lparr>frm_id = 0, frm_type = KEY, frm_frags = [Some (make_datagram 0 KEY 0 1 [5])],
     frm_null_frags = 0, frm_frame_size = 1\<rparr>"

lemma one_frame_run:
  "\<exists>r w'. run (step no_sdl recording_vpx (stream_os 1)) one_frame_events
     (initial_receiver fresh_decoder idle_worker, [], []) (r, w') \<and> rcv_decoded r = [frame_zero]"
proof -
  let ?d1 = "fresh_decoder\<lparr>dec_frame_buf := [(0, frame_zero)]\<rparr>"
  let ?d2 = "fresh_decoder\<lparr>dec_num_decodable_frames := 1, dec_total_decodable_frame_size := 1,
    dec_next_frame := 1, dec_shared_queue := [frame_zero]\<rparr>"
  have add: "add_datagram (make_datagram 0 KEY 0 1 [5]) fresh_decoder = (Inr (), ?d1)"
    by (simp add: add_datagram_def add_datagram_common_def bind_action_def fresh_decoder_def
        make_datagram_def om_find_def om_emplace_def frame_new_def map_at_def insert_frag_cases
        belongs_def map_set_def frame_zero_def)
  have ready: "next_frame_complete ?d1 = (Inr True, ?d1)"
    by (simp add: next_frame_complete_def fresh_decoder_def om_find_def frame_complete_def frame_zero_def)
  have consume: "consume_next_frame (stream_os 1) 0 0 (?d1, [], []) = (Inr (), ?d2, [], [])"
    by (simp add: consume_next_frame_def fresh_decoder_def map_at_def om_find_def frame_complete_def
        frame_zero_def frame_size_def optional_value_def Let_def stats_loop.simps DECODE_ONLY_def
        advance_next_frame_def map_set_def)
  have idle: "next_frame_complete ?d2 = (Inr False, ?d2)"
    by (simp add: next_frame_complete_def skip_to_key_frame_def fresh_decoder_def om_find_def)
  let ?step = "step no_sdl recording_vpx (stream_os 1)"
  let ?w = "([], []) :: bytes \<times> bytes"
  let ?r0 = "initial_receiver fresh_decoder idle_worker"
  let ?r1 = "?r0\<lparr>rcv_main := ?d1, rcv_draining := True\<rparr>"
  let ?r2 = "?r1\<lparr>rcv_main := ?d2, rcv_dispatched := [frame_zero]\<rparr>"
  let ?r3 = "?r2\<lparr>rcv_main := ?d2, rcv_draining := False\<rparr>"
  let ?r4 = "?r3\<lparr>rcv_worker := idle_worker, rcv_checked := True\<rparr>"
  let ?wk = "idle_worker\<lparr>wk_local_queue := [frame_zero]\<rparr>"
  let ?r5 = "?r4\<lparr>rcv_main := ?d2\<lparr>dec_shared_queue := []\<rparr>, rcv_worker := ?wk, rcv_checked := False\<rparr>"
  have s1: "?step (Add (make_datagram 0 KEY 0 1 [5])) (?r0, ?w) (?r1, ?w)"
    using add by (intro step.Add) (simp_all add: initial_receiver_def)
  have s2: "?step (Consume 0 0) (?r1, ?w) (?r2, ?w)"
    using step.Consume [of ?r1 ?d1 "stream_os 1" 0 0 ?w ?d2 ?w] ready consume
    by (simp add: initial_receiver_def fresh_decoder_def)
  have s3: "?step Stop_Draining (?r2, ?w) (?r3, ?w)"
    using idle by (intro step.Stop_Draining) (simp_all add: initial_receiver_def)
  have s4: "?step Check_Display (?r3, ?w) (?r4, ?w)"
    by (intro step.Check_Display) (simp_all add: initial_receiver_def idle_worker_def check_display_def)
  have s5: "?step Take (?r4, ?w) (?r5, ?w)"
    by (intro step.Take) (simp_all add: initial_receiver_def idle_worker_def take_shared_def fresh_decoder_def)
  obtain fd wk' w' where decode: "worker_frame no_sdl recording_vpx (stream_os 1) 1 0 0
      (dec_output_fd (rcv_main ?r5), rcv_worker ?r5, ?w) = (Inr (), fd, wk', w')"
    by (simp add: worker_frame_def idle_worker_def fresh_decoder_def decode_frame_def frame_complete_def
        frame_zero_def optional_value_def make_datagram_def MAX_DECODING_BUF_def recording_vpx_def
        check_call_def Let_def)
  have s6: "?step (Decode 1 0 0) (?r5, ?w) (?r5\<lparr>rcv_main := (rcv_main ?r5)\<lparr>dec_output_fd := fd\<rparr>,
      rcv_worker := wk', rcv_decoded := rcv_decoded ?r5 @ [frame_zero]\<rparr>, w')"
    by (rule step.Decode [where rest = "[]", OF _ decode]) simp
  let ?r6 = "?r5\<lparr>rcv_main := (rcv_main ?r5)\<lparr>dec_output_fd := fd\<rparr>,
      rcv_worker := wk', rcv_decoded := rcv_decoded ?r5 @ [frame_zero]\<rparr>"
  have "run ?step one_frame_events (?r0, ?w) (?r6, w')"
    unfolding one_frame_events_def
    by (rule run_Cons, rule s1, rule run_Cons, rule s2, rule run_Cons, rule s3, rule run_Cons, rule s4,
        rule run_Cons, rule s5, rule run_Cons, rule s6, rule run_Nil)
  moreover have "rcv_decoded ?r6 = [frame_zero]" by (simp add: initial_receiver_def)
  ultimately show ?thesis by blast
qed

theorem frames_in_order_witness:
  "\<exists>r w'. run (step no_sdl recording_vpx (stream_os 1)) one_frame_events
     (initial_receiver fresh_decoder idle_worker, [], []) (r, w') \<and>
   rcv_decoded r = [frame_zero] \<and> sorted_wrt (<) (map frm_id (rcv_dispatched r))"
proof -
  have "DECODE_ONLY = 1" "wk_local_queue idle_worker = []"
    "\<forall>datagram. Add datagram \<in> set one_frame_events \<longrightarrow> dg_frame_id datagram \<noteq> - 1"
    by (auto simp: DECODE_ONLY_def idle_worker_def one_frame_events_def make_datagram_def)
  with one_frame_run frames_in_order [OF fresh_decoder_init, of idle_worker] show ?thesis
    by (metis order_refl)
qed

end
