(* ===== verification/End_To_End.thy ===== *)
theory End_To_End
  imports Session Receiver_Threads "HOL-Library.Sublist"
begin

text \<open>
  The two programs from their command lines on: what the sender's loop (\<open>src/app/video_sender.cc\<close>) sends are fragments
  of the frames that libvpx returned to its encoder, whatever the order of events, acknowledgements and
  retransmissions; and a receiver (\<open>src/app/video_receiver.cc\<close>) to which any of these messages are delivered hands
  exactly such frames to its worker.
\<close>

section \<open>What the codec produced\<close>

text \<open>
  The frames that libvpx returned, each with the number it was compressed under. A journal is read off
  the context of the codec; one can be kept for any codec, as \<open>recorded\<close> shows.
\<close>

type_synonym journal = "(u32 \<times> bytes \<times> bool) list"

definition journals :: "'c vpx_encoder \<Rightarrow> ('c \<Rightarrow> journal) \<Rightarrow> bool" where
  "journals vpx hist \<longleftrightarrow>
     (\<forall>cfg. hist (snd (vpx_enc_init vpx cfg)) = []) \<and>
     (\<forall>c control arg. hist (snd (vpx_enc_control vpx c control arg)) = hist c) \<and>
     (\<forall>c cfg. hist (snd (vpx_config_set vpx c cfg)) = hist c) \<and>
     (\<forall>c img pts flags c'. vpx_encode vpx c img pts flags = (VPX_CODEC_OK, c') \<longrightarrow>
        hist c' = hist c @ map (Pair pts) (frame_pkts (vpx_get_cx_data vpx c')))"

definition recorded :: "'c vpx_encoder \<Rightarrow> ('c \<times> journal) vpx_encoder" where
  "recorded vpx =
     \<lparr>vpx_config_default = vpx_config_default vpx,
      vpx_enc_init = (\<lambda>cfg. let (code, c) = vpx_enc_init vpx cfg in (code, c, [])),
      vpx_enc_control = (\<lambda>(c, h) control arg. let (code, c') = vpx_enc_control vpx c control arg in (code, c', h)),
      vpx_encode = (\<lambda>(c, h) img pts flags. let (code, c') = vpx_encode vpx c img pts flags
        in (code, c', h @ map (Pair pts) (frame_pkts (vpx_get_cx_data vpx c')))),
      vpx_get_cx_data = (\<lambda>(c, h). vpx_get_cx_data vpx c),
      vpx_config_set = (\<lambda>(c, h) cfg. let (code, c') = vpx_config_set vpx c cfg in (code, c', h))\<rparr>"

lemma recorded_journals: "journals (recorded vpx) snd"
  by (auto simp: journals_def recorded_def Let_def split: prod.split)

text \<open>The frames of a journal, each with the datagrams it is cut into.\<close>

definition sent_as :: "nat \<Rightarrow> u32 \<Rightarrow> bytes \<times> bool \<Rightarrow> sent_frame" where
  "sent_as M k = (\<lambda>(data, is_key).
     let t = (if is_key then KEY else NONKEY)
     in \<lparr>sf_type = t, sf_data = data,
         sf_datagrams = frame_datagrams M k t (word_of_nat (length data div (M + 1) + 1)) data\<rparr>)"

definition frames_of :: "nat \<Rightarrow> journal \<Rightarrow> u32 \<Rightarrow> sent_frame option" where
  "frames_of M h k = map_option (sent_as M k) (map_of h k)"

text \<open>Frames are numbered in increasing order, below the next number, and not empty or too large.\<close>

definition journal_inv :: "nat \<Rightarrow> u32 \<Rightarrow> journal \<Rightarrow> bool" where
  "journal_inv M frame_id h \<longleftrightarrow>
     sorted_wrt (<) (map fst h) \<and>
     (\<forall>(k, data, is_key) \<in> set h. k < frame_id \<and> data \<noteq> [] \<and> length data div (M + 1) + 1 < 2 ^ 16)"

lemma frames_of_Some:
  assumes "frames_of M h k = Some sf"
  obtains data is_key where "(k, data, is_key) \<in> set h" and "sf = sent_as M k (data, is_key)"
  using assms by (auto simp: frames_of_def dest: map_of_SomeD)

lemma journal_transmission:
  assumes "journal_inv M frame_id h"
  shows "transmission (frames_of M h)"
  unfolding transmission_def
proof (intro allI impI)
  fix k sf assume "frames_of M h k = Some sf"
  then obtain data is_key where h: "(k, data, is_key) \<in> set h" and sf: "sf = sent_as M k (data, is_key)"
    by (rule frames_of_Some)
  then have k: "k < frame_id" "length data div (M + 1) + 1 < 2 ^ 16" using assms by (auto simp: journal_inv_def)
  have "\<not> (- 1 :: u32) < frame_id" by (simp add: not_less)
  with k(1) have "k \<noteq> - 1" by blast
  with frame_datagrams_cut [OF k(2)] show "k \<noteq> - 1 \<and> cut_into k (sf_type sf) (sf_data sf) (sf_datagrams sf)"
    by (simp add: sf sent_as_def Let_def)
qed

lemma frames_of_append:
  assumes "k \<notin> fst ` set h"
  shows "frames_of M (h @ [(k, x)]) = (frames_of M h)(k \<mapsto> sent_as M k x)"
proof -
  have "map_of h k = None" using assms by (simp add: map_of_eq_None_iff)
  then show ?thesis by (cases x) (auto simp: frames_of_def fun_eq_iff map_add_def split: option.split)
qed

lemma frames_of_entry:
  assumes "journal_inv M frame_id h" and "(k, data, is_key) \<in> set h"
  shows "frames_of M h k = Some (sent_as M k (data, is_key))"
proof -
  have "distinct (map fst h)" using assms(1) by (simp add: journal_inv_def strict_sorted_iff)
  with assms(2) show ?thesis by (simp add: frames_of_def)
qed

text \<open>A selection from a list with increasing keys that has increasing keys is in the order of the list.\<close>

lemma sorted_selection_subseq:
  assumes "sorted_wrt (<) (map fst xs)" and "sorted_wrt (<) (map fst ys)" and "set xs \<subseteq> set ys"
  shows "subseq xs (ys :: ('k :: linorder \<times> 'v) list)"
  using assms
proof (induction ys arbitrary: xs)
  case (Cons y ys)
  show ?case
  proof (cases "y \<in> set xs")
    case False
    then have "set xs \<subseteq> set ys" using Cons.prems(3) by auto
    with Cons.IH Cons.prems show ?thesis by (simp add: list_emb_Cons)
  next
    case True
    then obtain x xs' where xs: "xs = x # xs'" by (cases xs) auto
    have "x = y"
    proof (rule ccontr)
      assume "x \<noteq> y"
      then have "fst x < fst y" using True Cons.prems(1) by (auto simp: xs)
      moreover have "x \<in> set ys" using \<open>x \<noteq> y\<close> Cons.prems(3) by (auto simp: xs)
      then have "fst y < fst x" using Cons.prems(2) by auto
      ultimately show False by simp
    qed
    moreover have "set xs' \<subseteq> set ys" using Cons.prems by (force simp: xs \<open>x = y\<close>)
    ultimately show ?thesis using Cons.IH [of xs'] Cons.prems by (simp add: xs)
  qed
qed simp

lemma subseq_map_member: "subseq (map g xs) ys \<Longrightarrow> x \<in> set xs \<Longrightarrow> g x \<in> set ys"
  using list_emb_set [of "(=)" "map g xs" ys "g x"] by auto

section \<open>What is queued and what was sent\<close>

text \<open>A datagram that is one of those that a frame was cut into, apart from the times and the count of its retransmission.\<close>

definition from_frames :: "(u32 \<Rightarrow> sent_frame option) \<Rightarrow> datagram \<Rightarrow> bool" where
  "from_frames tm d \<longleftrightarrow>
     (\<exists>k sf i. tm k = Some sf \<and> i < length (sf_datagrams sf) \<and> stamped d = stamped (sf_datagrams sf ! i))"

lemma from_frames_simps [simp]:
  "from_frames tm (d\<lparr>dg_send_ts := t\<rparr>) = from_frames tm d"
  "from_frames tm (d\<lparr>dg_last_send_ts := t\<rparr>) = from_frames tm d"
  "from_frames tm (d\<lparr>dg_num_rtx := n\<rparr>) = from_frames tm d"
  by (simp_all add: from_frames_def stamped_def [abs_def] datagram_serialize_to_string_def)

lemma from_frames_carries: "from_frames tm d \<Longrightarrow> \<exists>k i. carries tm k i (stamped d t)"
  by (auto simp: from_frames_def carries_def stamped_def [abs_def]) metis

lemma from_frames_mono: "from_frames tm d \<Longrightarrow> tm \<subseteq>\<^sub>m tm' \<Longrightarrow> from_frames tm' d"
  unfolding from_frames_def map_le_def by (metis domI)

lemma carries_mono: "carries tm k i m \<Longrightarrow> tm \<subseteq>\<^sub>m tm' \<Longrightarrow> carries tm' k i m"
  unfolding carries_def map_le_def by (metis domI)

text \<open>
  The encoder holds only datagrams of the frames in its codec's journal, and the messages sent since the start, after
  \<open>out\<close>, carry them.
\<close>

definition queue_from :: "(u32 \<Rightarrow> sent_frame option) \<Rightarrow> 'c encoder \<Rightarrow> bool" where
  "queue_from tm e \<longleftrightarrow>
     (\<forall>d \<in> set (enc_send_buf e). from_frames tm d) \<and> (\<forall>d \<in> snd ` set (enc_unacked e). from_frames tm d)"

definition sent_from :: "(u32 \<Rightarrow> sent_frame option) \<Rightarrow> bytes list \<Rightarrow> bytes list \<Rightarrow> bool" where
  "sent_from tm start out \<longleftrightarrow> (\<exists>ms. out = start @ ms \<and> (\<forall>m \<in> set ms. \<exists>k i. carries tm k i m))"

definition sending :: "nat \<Rightarrow> ('c \<Rightarrow> journal) \<Rightarrow> bytes list \<Rightarrow> 'c encoder \<Rightarrow> bytes list \<Rightarrow> bool" where
  "sending M hist start e out \<longleftrightarrow>
     (let h = hist (enc_context e) in
      journal_inv M (enc_frame_id e) h \<and> queue_from (frames_of M h) e \<and> sent_from (frames_of M h) start out)"

lemma sending_cong:
  assumes "sending M hist start e out" and "enc_context e' = enc_context e" and "enc_frame_id e' = enc_frame_id e"
    and "\<And>tm. queue_from tm e \<Longrightarrow> queue_from tm e'"
  shows "sending M hist start e' out"
  using assms by (simp add: sending_def Let_def)

section \<open>Acknowledgements\<close>

lemma rtx_loop_from:
  assumes "\<forall>d \<in> snd ` set rev_range. from_frames tm d" and "\<forall>d \<in> set buf. from_frames tm d"
    and "rtx_loop now ewma rev_range buf = (r, upd, buf')"
  shows "(\<forall>d \<in> snd ` set upd. from_frames tm d) \<and> (\<forall>d \<in> set buf'. from_frames tm d)"
  using assms
proof (induction now ewma rev_range buf arbitrary: r upd buf' rule: rtx_loop.induct)
  case (2 now ewma k d rev_range buf)
  show ?case
  proof (cases "rtx_due now ewma d")
    case (Inl e)
    with 2 show ?thesis by auto
  next
    case (Inr due)
    let ?d = "if due then d\<lparr>dg_num_rtx := dg_num_rtx d + 1, dg_last_send_ts := now\<rparr> else d"
    let ?buf = "if due then ?d # buf else buf"
    obtain r1 upd1 buf1 where rest: "rtx_loop now ewma rev_range ?buf = (r1, upd1, buf1)" by (metis prod.collapse)
    have d: "from_frames tm ?d" using "2.prems"(1) by simp
    then have "(\<forall>d \<in> snd ` set upd1. from_frames tm d) \<and> (\<forall>d \<in> set buf1. from_frames tm d)"
      using "2.prems" by (intro "2.IH" [OF Inr refl _ _ rest]) auto
    moreover have "upd = (k, ?d) # upd1" "buf' = buf1" using "2.prems"(3) Inr rest by (simp_all add: Let_def)
    ultimately show ?thesis using d by simp
  qed
qed auto

lemma handle_ack_from:
  assumes "queue_from tm e"
  shows "queue_from tm (snd (handle_ack now ack e))"
proof -
  let ?e = "add_rtt_sample (ucast (now - ack_send_ts ack)) e" and ?acked = "SeqNum (ack_frame_id ack) (ack_frag_id ack)"
  obtain r upd buf where loop: "rtx_loop now (enc_ewma_rtt_us ?e) (rev (om_before ?acked (enc_unacked e)))
      (enc_send_buf e) = (r, upd, buf)" by (metis prod.collapse)
  have sub: "set (om_before ?acked (enc_unacked e)) \<subseteq> set (enc_unacked e)"
    "set (om_from ?acked (enc_unacked e)) \<subseteq> set (enc_unacked e)"
    by (auto simp: om_before_def om_from_def dest: set_takeWhileD set_dropWhileD)
  have "(\<forall>d \<in> snd ` set upd. from_frames tm d) \<and> (\<forall>d \<in> set buf. from_frames tm d)"
    using assms sub(1) by (intro rtx_loop_from [OF _ _ loop]) (auto simp: queue_from_def)
  moreover have e: "enc_unacked ?e = enc_unacked e" "enc_send_buf ?e = enc_send_buf e" by (simp_all add: add_rtt_sample_def)
  ultimately show ?thesis
    using assms sub(2) loop
    by (cases "om_find (enc_unacked e) ?acked"; cases r)
      (fastforce simp: handle_ack_def Let_def queue_from_def om_erase_def)+
qed

lemma handle_ack_sending:
  assumes "sending M hist start e out"
  shows "sending M hist start (snd (handle_ack now ack e)) out"
proof (rule sending_cong [OF assms])
  show "enc_context (snd (handle_ack now ack e)) = enc_context e"
    by (auto simp: handle_ack_def add_rtt_sample_def Let_def split: option.split prod.split sum.split)
qed (simp_all add: handle_ack_frame_id handle_ack_from)

section \<open>Compression\<close>

lemma packetize_success:
  assumes "packetize_encoded_frame vpx M e = (Inr n, e')"
  shows "frame_pkts (vpx_get_cx_data vpx (enc_context e)) = [] \<and> e' = e \<or>
    (\<exists>data is_key. frame_pkts (vpx_get_cx_data vpx (enc_context e)) = [(data, is_key)] \<and> data \<noteq> [] \<and>
       length data div (M + 1) + 1 < 2 ^ 16 \<and>
       e' = e\<lparr>enc_send_buf := enc_send_buf e @ sf_datagrams (sent_as M (enc_frame_id e) (data, is_key))\<rparr>)"
proof (cases "frame_pkts (vpx_get_cx_data vpx (enc_context e))")
  case Nil
  then show ?thesis using assms by (simp add: packetize_first)
next
  case (Cons p rest)
  obtain data is_key where p: "p = (data, is_key)" by (cases p)
  have data: "data \<noteq> []" using assms unfolding packetize_first Cons p by auto
  moreover obtain c where "fragment_count M (length data) = Inr c"
    using assms unfolding packetize_first Cons p by (auto simp: Let_def split: if_splits sum.splits)
  then have small: "length data div (M + 1) + 1 < 2 ^ 16" using fragment_count_limit by blast
  note loop = packet_loop_frame [OF data small, of is_key _ e]
  have "rest = []" using assms unfolding packetize_first Cons p by (auto simp: loop packet_loop_rest simp del: packet_loop.simps split: if_splits)
  moreover from this have "e' = e\<lparr>enc_send_buf := enc_send_buf e @ sf_datagrams (sent_as M (enc_frame_id e) (data, is_key))\<rparr>"
    using assms unfolding packetize_first Cons p by (auto simp: loop sent_as_def packet_loop_rest simp del: packet_loop.simps)
  ultimately show ?thesis using small Cons p by simp
qed

lemma encode_frame_success:
  assumes "encode_frame vpx now ms img e = (Inr (), e')" and "journals vpx hist"
  shows "hist (enc_context e') = hist (enc_context e) @
      map (Pair (enc_frame_id e)) (frame_pkts (vpx_get_cx_data vpx (enc_context e'))) \<and>
    enc_frame_id e' = enc_frame_id e \<and> (queue_from tm e \<longrightarrow> queue_from tm e')"
proof -
  obtain flags e1 where e1: "enc_frame_id e1 = enc_frame_id e" "enc_context e1 = enc_context e" "queue_from tm e \<longrightarrow> queue_from tm e1"
    and r: "(case vpx_encode vpx (enc_context e1) (raw_vpx_img img) (enc_frame_id e1) flags of (code, ctx) \<Rightarrow>
        let e2 = e1\<lparr>enc_context := ctx\<rparr>
        in case check_call code VPX_CODEC_OK ''failed to encode a frame'' of
             Inl er \<Rightarrow> (Inl er, e2)
           | Inr _ \<Rightarrow> (Inr (), e2
               \<lparr>enc_num_encoded_frames := enc_num_encoded_frames e2 + 1,
                enc_total_encode_time_ms := double_add (enc_total_encode_time_ms e2) ms,
                enc_max_encode_time_ms := max (enc_max_encode_time_ms e2) ms\<rparr>)) = (Inr (), e')"
  proof (cases "gives_up now e")
    case True
    with assms(1) show ?thesis
      by (intro that [of "e\<lparr>enc_send_buf := [], enc_unacked := []\<rparr>" "[''VPX_EFLAG_FORCE_KF'']"])
        (auto simp: encode_frame_def Let_def queue_from_def split: if_splits)
  next
    case False
    with assms(1) show ?thesis
      by (intro that [of e "[]"]) (auto simp: encode_frame_def Let_def split: if_splits)
  qed
  obtain ctx where enc: "vpx_encode vpx (enc_context e1) (raw_vpx_img img) (enc_frame_id e1) flags = (VPX_CODEC_OK, ctx)"
    and e': "enc_context e' = ctx" "enc_frame_id e' = enc_frame_id e1" "queue_from tm e1 \<longrightarrow> queue_from tm e'"
    using r by (auto simp: check_call_def Let_def queue_from_def split: prod.splits if_splits)
  have "hist ctx = hist (enc_context e1) @ map (Pair (enc_frame_id e1)) (frame_pkts (vpx_get_cx_data vpx ctx))"
    using assms(2) enc unfolding journals_def by blast
  with e' e1 show ?thesis by simp
qed

lemma from_frames_new:
  assumes "tm k = Some sf" and "d \<in> set (sf_datagrams sf)"
  shows "from_frames tm d"
  using assms unfolding from_frames_def by (metis in_set_conv_nth)

lemma queue_from_mono: "queue_from tm e \<Longrightarrow> tm \<subseteq>\<^sub>m tm' \<Longrightarrow> queue_from tm' e"
  unfolding queue_from_def by (blast intro: from_frames_mono)

lemma sent_from_mono: "sent_from tm start out \<Longrightarrow> tm \<subseteq>\<^sub>m tm' \<Longrightarrow> sent_from tm' start out"
  unfolding sent_from_def by (metis carries_mono)

lemma compress_frame_sending:
  assumes "sending M hist start e out" and "journals vpx hist" and "unat (enc_frame_id e) + 1 < 2 ^ 32"
    and "compress_frame vpx os M ts img (e, w) = (Inr (), e', w')"
  shows "sending M hist start e' out"
proof -
  obtain e1 where e1: "encode_frame vpx (ts_now ts) (ts_encode_ms ts) img e = (Inr (), e1)"
    using assms(4) by (cases "encode_frame vpx (ts_now ts) (ts_encode_ms ts) img e" rule: prod.exhaust)
      (auto simp: compress_frame_def bind_action_def split: sum.splits)
  obtain n e2 where e2: "packetize_encoded_frame vpx M e1 = (Inr n, e2)"
    using assms(4) e1 by (cases "packetize_encoded_frame vpx M e1" rule: prod.exhaust)
      (auto simp: compress_frame_def bind_action_def split: sum.splits)
  have step: "bind_action (encode_frame vpx (ts_now ts) (ts_encode_ms ts) img) (\<lambda>_. packetize_encoded_frame vpx M) e =
      (Inr n, e2)" by (simp add: bind_action_def e1 e2)
  have "e' = e2\<lparr>enc_frame_id := enc_frame_id e2 + 1\<rparr> \<or> (\<exists>fd. e' = e2\<lparr>enc_frame_id := enc_frame_id e2 + 1, enc_output_fd := fd\<rparr>)"
  proof (cases "enc_output_fd e2")
    case None
    then show ?thesis using assms(4) unfolding compress_frame_def by (simp add: step Let_def)
  next
    case (Some fd)
    let ?line = "comma_separated [unat (enc_frame_id e2), unat (enc_target_bitrate e2), n, unat (ts_generation ts),
      unat (ts_encoded ts)]"
    obtain q fd' w1 where "fd_write os ?line (fd, w) = (q, fd', w1)" by (metis prod.collapse)
    then show ?thesis using assms(4) Some unfolding compress_frame_def by (cases q) (auto simp add: step Let_def)
  qed
  then have e': "enc_context e' = enc_context e2" "enc_frame_id e' = enc_frame_id e2 + 1"
    "queue_from tm e' = queue_from tm e2" for tm by (auto simp: queue_from_def)
  let ?k = "enc_frame_id e" and ?h = "hist (enc_context e)"
  have inv: "journal_inv M ?k ?h" "queue_from (frames_of M ?h) e" "sent_from (frames_of M ?h) start out"
    using assms(1) by (simp_all add: sending_def Let_def)
  have suc: "unat (?k + 1) = unat ?k + 1" using unat_add_no_wrap [of ?k 1] assms(3) by simp
  then have less: "i < ?k + 1" if "i \<le> ?k" for i using that by (simp add: word_less_nat_alt word_le_nat_alt)
  have old: "journal_inv M (?k + 1) ?h" using inv(1) less by (fastforce simp: journal_inv_def)
  note enc = encode_frame_success [OF e1 assms(2)]
  from packetize_success [OF e2] show ?thesis
  proof (elim disjE exE conjE)
    assume "frame_pkts (vpx_get_cx_data vpx (enc_context e1)) = []" "e2 = e1"
    with enc e' inv old show ?thesis by (simp add: sending_def Let_def)
  next
    fix data is_key
    assume pkts: "frame_pkts (vpx_get_cx_data vpx (enc_context e1)) = [(data, is_key)]" and small: "data \<noteq> []"
      "length data div (M + 1) + 1 < 2 ^ 16"
      and e2: "e2 = e1\<lparr>enc_send_buf := enc_send_buf e1 @ sf_datagrams (sent_as M (enc_frame_id e1) (data, is_key))\<rparr>"
    have h: "hist (enc_context e') = ?h @ [(?k, data, is_key)]" using enc pkts e' e2 by simp
    have below: "\<forall>x \<in> set ?h. fst x < ?k" using inv(1) by (auto simp: journal_inv_def)
    then have new: "?k \<notin> fst ` set ?h" by force
    let ?tm = "frames_of M (?h @ [(?k, data, is_key)])"
    have tm: "?tm = (frames_of M ?h)(?k \<mapsto> sent_as M ?k (data, is_key))" by (rule frames_of_append [OF new])
    have "frames_of M ?h ?k = None" using new by (simp add: frames_of_def map_of_eq_None_iff)
    then have grows: "frames_of M ?h \<subseteq>\<^sub>m ?tm" unfolding tm by (auto simp: map_le_def)
    have q1: "queue_from ?tm e1" using enc queue_from_mono [OF inv(2) grows] by blast
    have "from_frames ?tm d" if "d \<in> set (sf_datagrams (sent_as M ?k (data, is_key)))" for d
      by (rule from_frames_new [OF _ that, of _ ?k]) (simp add: tm)
    then have "queue_from ?tm e2" using q1 conjunct1 [OF conjunct2 [OF enc]] by (auto simp: e2 queue_from_def simp del: fun_upd_apply)
    moreover have "journal_inv M (?k + 1) (?h @ [(?k, data, is_key)])"
      using old below small less by (auto simp: journal_inv_def sorted_wrt_append)
    moreover have "sent_from ?tm start out"
      by (rule sent_from_mono [OF inv(3) grows])
    ultimately show ?thesis using enc e' h e2 by (simp add: sending_def Let_def)
  qed
qed

section \<open>Sending\<close>

text \<open>What the world outside of the socket does not change: only \<open>send\<close> sends, the data it is given or nothing.\<close>

definition only_sends :: "('c, 'w) sender_env \<Rightarrow> ('w \<Rightarrow> bytes list) \<Rightarrow> bool" where
  "only_sends env outbox \<longleftrightarrow>
     quiet_os (env_os env) outbox \<and>
     (\<forall>fds timeout_ms w. outbox (snd (env_poll env fds timeout_ms w)) = outbox w) \<and>
     (\<forall>fd n w. outbox (snd (net_recv (env_net env) fd n w)) = outbox w) \<and>
     (\<forall>w. outbox (snd (env_now env w)) = outbox w) \<and>
     (\<forall>w. outbox (snd (env_encode_times env w)) = outbox w) \<and>
     (\<forall>fd data w. outbox (snd (net_send (env_net env) fd data w)) \<in> {outbox w, outbox w @ [data]})"

lemma only_sendsD:
  assumes "only_sends env outbox"
  shows "quiet_os (env_os env) outbox" "outbox (snd (env_poll env fds timeout_ms w)) = outbox w"
    "outbox (snd (net_recv (env_net env) fd n w)) = outbox w" "outbox (snd (env_now env w)) = outbox w"
    "outbox (snd (env_encode_times env w)) = outbox w"
    "outbox (snd (net_send (env_net env) fd data w)) \<in> {outbox w, outbox w @ [data]}"
  using assms unfolding only_sends_def by blast+

lemma udp_send_outbox:
  assumes "only_sends env outbox" and "udp_send (env_net env) f data w = (r, w')"
  shows "outbox w' \<in> {outbox w, outbox w @ [data]}"
  using only_sendsD(6) [OF assms(1), of "fd_num f" data w] assms(2)
  by (auto simp: udp_send_def split: prod.splits if_splits)

lemma udp_recv_outbox:
  assumes "only_sends env outbox"
  shows "outbox (snd (udp_recv (env_net env) f w)) = outbox w"
  using only_sendsD(3) [OF assms, of "fd_num f" UDP_MTU w]
  by (auto simp: udp_recv_def Let_def split: prod.splits if_splits)

lemma add_unacked_from:
  assumes "queue_from tm e" and "from_frames tm d"
  shows "queue_from tm (snd (add_unacked d e))"
proof -
  have "set (om_insert k v m) \<subseteq> insert (k, v) (set m)" for k and v :: datagram and m :: "(SeqNum, datagram) omap"
    by (induction k v m rule: om_insert.induct) auto
  with assms show ?thesis
    by (fastforce simp: add_unacked_def om_emplace_def queue_from_def split: option.split)
qed

lemma sent_from_more:
  "sent_from tm start out \<Longrightarrow> from_frames tm d \<Longrightarrow> out' \<in> {out, out @ [stamped d t]} \<Longrightarrow> sent_from tm start out'"
  unfolding sent_from_def using from_frames_carries [of tm d t] by fastforce

lemma send_loop_from:
  assumes "only_sends env outbox" and "queue_from tm e" and "\<forall>d \<in> set buf. from_frames tm d"
    and "sent_from tm start (outbox w)" and "send_loop env buf (e, w) = (r, e', w')"
  shows "queue_from tm e' \<and> sent_from tm start (outbox w') \<and> enc_context e' = enc_context e \<and> enc_frame_id e' = enc_frame_id e"
  using assms(2-5)
proof (induction buf arbitrary: e w)
  case Nil
  then show ?case by (simp add: return_action_def)
next
  case (Cons d buf)
  obtain now w1 where now: "env_now env w = (now, w1)" by (cases "env_now env w")
  have w1: "outbox w1 = outbox w" using only_sendsD(4) [OF assms(1), of w] now by simp
  let ?d = "d\<lparr>dg_send_ts := timestamp_us now\<rparr>"
  let ?e1 = "e\<lparr>enc_send_buf := ?d # buf\<rparr>"
  obtain sent w2 where sent: "udp_send (env_net env) (env_udp_sock env) (datagram_serialize_to_string ?d) w1 = (sent, w2)"
    by (cases "udp_send (env_net env) (env_udp_sock env) (datagram_serialize_to_string ?d) w1")
  have out: "sent_from tm start (outbox w2)"
    using sent_from_more [OF Cons.prems(3), of d "outbox w2" "timestamp_us now"] Cons.prems(2)
      udp_send_outbox [OF assms(1) sent] w1 by (simp add: stamped_def)
  have e1: "queue_from tm ?e1" "queue_from tm (e\<lparr>enc_send_buf := d\<lparr>dg_send_ts := 0\<rparr> # buf\<rparr>)"
    using Cons.prems(1,2) by (simp_all add: queue_from_def)
  obtain q e2 where track: "(if dg_num_rtx ?d = 0 then add_unacked ?d ?e1 else (Inr (), ?e1)) = (q, e2)" by fastforce
  have e2: "queue_from tm e2" "enc_context e2 = enc_context e" "enc_frame_id e2 = enc_frame_id e"
    using add_unacked_from [OF e1(1), of ?d] Cons.prems(2) e1(1) track
    by (auto simp: add_unacked_def split: if_splits prod.splits)
  then have "queue_from tm (e2\<lparr>enc_send_buf := buf\<rparr>)" using Cons.prems(2) by (simp add: queue_from_def)
  note rest = Cons.IH [OF this _ out]
  show ?case
    using Cons.prems(2,4) now sent track e1 e2 out rest
    by (cases sent; cases q) (auto simp: Let_def split: bool.splits)
qed

section \<open>The loop of the sender\<close>

lemma quiet_compress:
  assumes "quiet_os os g" and "compress_frame vpx os M ts img (e, w) = (r, e', w')"
  shows "g w' = g w"
proof -
  obtain q e1 where step: "bind_action (encode_frame vpx (ts_now ts) (ts_encode_ms ts) img)
      (\<lambda>_. packetize_encoded_frame vpx M) e = (q, e1)" by (metis prod.collapse)
  show ?thesis
  proof (cases "\<exists>n f. q = Inr n \<and> enc_output_fd e1 = Some f")
    case True
    then obtain n f where q: "q = Inr n" "enc_output_fd e1 = Some f" by blast
    obtain x f' w1 where line: "fd_write os (comma_separated [unat (enc_frame_id e1), unat (enc_target_bitrate e1), n,
        unat (ts_generation ts), unat (ts_encoded ts)]) (f, w) = (x, f', w1)" by (metis prod.collapse)
    have "w' = w1" using assms(2) q line unfolding compress_frame_def by (cases x) (auto simp: step Let_def)
    moreover have "g w1 = g w" using quiet_write [OF assms(1)] line by (metis snd_conv)
    ultimately show ?thesis by simp
  next
    case False
    then have "w' = w" using assms(2) unfolding compress_frame_def
      by (cases q; cases "enc_output_fd e1") (auto simp: step Let_def)
    then show ?thesis by simp
  qed
qed

definition loop_sending :: "('c, 'w) sender_env \<Rightarrow> ('c \<Rightarrow> journal) \<Rightarrow> ('w \<Rightarrow> bytes list) \<Rightarrow> bytes list
    \<Rightarrow> ('c, 'w) sender_state \<Rightarrow> bool" where
  "loop_sending env hist outbox start = (\<lambda>(p, s, w). sending (env_max_payload env) hist start (snd_encoder s) (outbox w))"

lemma want_writable_parts: "\<exists>p'. snd (want_writable env (p, s, w)) = (p', s, w)"
  by (auto simp: want_writable_def split: prod.split)

lemma on_readable_sending:
  assumes "only_sends env outbox"
  shows "keeps (loop_sending env hist outbox start) (on_readable env)"
  by (rule keeps_on_readable)
    (simp_all add: loop_sending_def handle_ack_sending udp_recv_outbox [OF assms] only_sendsD(4) [OF assms])

lemma on_stats_timer_sending:
  assumes "only_sends env outbox"
  shows "keeps (loop_sending env hist outbox start) (on_stats_timer env)"
proof -
  have "sending M hist start (output_periodic_stats e) out" if "sending M hist start e out" for M e out
    by (rule sending_cong [OF that]) (simp_all add: output_periodic_stats_def queue_from_def)
  moreover have "outbox w' = outbox w" if "read_expirations (env_os env) (env_stats_timer env) w = (r, w')" for w r w'
    using quiet_expirations [OF only_sendsD(1) [OF assms], of "env_stats_timer env" w] that by simp
  ultimately show ?thesis
    by (auto simp: keeps_def on_stats_timer_def loop_sending_def split: prod.splits sum.splits)
qed

lemma on_writable_sending:
  assumes "only_sends env outbox"
  shows "keeps (loop_sending env hist outbox start) (on_writable env)"
proof -
  have "loop_sending env hist outbox start t"
    if sending: "loop_sending env hist outbox start (p, s, w)" and run: "on_writable env (p, s, w) = Some (r, t)" for p s w r t
  proof -
    obtain q enc w' where loop: "send_loop env (enc_send_buf (snd_encoder s)) (snd_encoder s, w) = (q, enc, w')"
      by (metis prod.collapse)
    let ?tm = "frames_of (env_max_payload env) (hist (enc_context (snd_encoder s)))"
    have "queue_from ?tm (snd_encoder s)" "sent_from ?tm start (outbox w)"
      using sending by (simp_all add: loop_sending_def sending_def Let_def)
    with send_loop_from [OF assms this(1) _ this(2) loop] have "queue_from ?tm enc \<and> sent_from ?tm start (outbox w') \<and>
        enc_context enc = enc_context (snd_encoder s) \<and> enc_frame_id enc = enc_frame_id (snd_encoder s)"
      by (simp add: queue_from_def)
    then have "sending (env_max_payload env) hist start enc (outbox w')"
      using sending by (simp add: loop_sending_def sending_def Let_def)
    moreover have "\<exists>p'. t = (p', s\<lparr>snd_encoder := enc\<rparr>, w')"
      using run loop by (auto simp: on_writable_def Let_def split: sum.splits if_splits prod.splits)
    ultimately show ?thesis by (auto simp: loop_sending_def)
  qed
  then show ?thesis by (auto simp: keeps_def)
qed

lemma on_fps_timer_sending:
  assumes "only_sends env outbox" and "journals (env_vpx env) hist" and "loop_sending env hist outbox start (p, s, w)"
    and "on_fps_timer env (p, s, w) = Some (Inr (), st')" and "unat (enc_frame_id (snd_encoder s)) + 1 < 2 ^ 32"
  shows "loop_sending env hist outbox start st'"
proof -
  note quiet = only_sendsD(1) [OF assms(1)]
  obtain n w1 where n: "read_expirations (env_os env) (env_fps_timer env) w = (Inr n, w1)"
    using assms(4) by (auto simp: on_fps_timer_def split: prod.splits sum.splits)
  obtain v img w2 where fetch: "fetch_frames (env_os env) (unat n) (snd_input s, snd_image s, w1) = Some (Inr (), v, img, w2)"
    using assms(4) n by (auto simp: on_fps_timer_def Let_def split: option.splits prod.splits sum.splits)
  let ?s = "s\<lparr>snd_input := v, snd_image := img\<rparr>"
  obtain ts w3 where ts: "env_encode_times env w2 = (ts, w3)" by (cases "env_encode_times env w2")
  obtain enc w4 where comp: "compress_frame (env_vpx env) (env_os env) (env_max_payload env) ts img (snd_encoder s, w3) =
      (Inr (), enc, w4)"
    and st': "want_writable env (p, ?s\<lparr>snd_encoder := enc\<rparr>, w4) = (Inr (), st')"
    using assms(4) n fetch ts by (auto simp: on_fps_timer_def Let_def split: prod.splits sum.splits)
  have "outbox w1 = outbox w" using quiet_expirations [OF quiet, of "env_fps_timer env" w] n by simp
  moreover have "outbox w2 = outbox w1" by (rule quiet_fetch [OF quiet fetch])
  moreover have "outbox w3 = outbox w2" using only_sendsD(5) [OF assms(1), of w2] ts by simp
  moreover have "outbox w4 = outbox w3" by (rule quiet_compress [OF quiet comp])
  ultimately have out: "outbox w4 = outbox w" by simp
  have "sending (env_max_payload env) hist start (snd_encoder s) (outbox w)"
    using assms(3) by (simp add: loop_sending_def)
  from compress_frame_sending [OF this assms(2,5) comp] have "sending (env_max_payload env) hist start enc (outbox w4)"
    by (simp add: out)
  moreover obtain p' where "st' = (p', ?s\<lparr>snd_encoder := enc\<rparr>, w4)"
    using want_writable_parts [of env p "?s\<lparr>snd_encoder := enc\<rparr>" w4] st' by auto
  ultimately show ?thesis by (simp add: loop_sending_def)
qed

lemma loop_keeps_sending:
  assumes "only_sends env outbox" and "journals (env_vpx env) hist"
  shows "loop_keeps env (loop_sending env hist outbox start)"
  unfolding loop_keeps_def
proof (intro conjI allI impI)
  fix cb st st'
  assume run: "run_sender env cb st = Some (Inr (), st')" and sending: "loop_sending env hist outbox start st"
    and small: "cb = Fps_Timer \<longrightarrow> unat (sender_frame_id st) + 1 < 2 ^ 32"
  obtain p s w where st: "st = (p, s, w)" by (cases st)
  show "loop_sending env hist outbox start st'"
  proof (cases cb)
    case Fps_Timer
    with on_fps_timer_sending [OF assms sending [unfolded st]] run small show ?thesis
      by (simp add: run_sender_def st sender_frame_id_def)
  next
    case Socket_Writable
    with keepsD [OF on_writable_sending [OF assms(1)] _ sending] run show ?thesis by (simp add: run_sender_def)
  next
    case Socket_Readable
    with keepsD [OF on_readable_sending [OF assms(1)] _ sending] run show ?thesis by (simp add: run_sender_def)
  next
    case Stats_Timer
    with keepsD [OF on_stats_timer_sending [OF assms(1)] _ sending] run show ?thesis by (simp add: run_sender_def)
  qed
next
  fix p s w fds assume "loop_sending env hist outbox start (p, s, w)"
  then show "loop_sending env hist outbox start (p, s, snd (env_poll env fds (- 1) w))"
    by (simp add: loop_sending_def only_sendsD(2) [OF assms(1)])
qed

section \<open>From start to start\<close>

lemma codec_controls_journal:
  "journals vpx hist \<Longrightarrow> codec_controls vpx c controls = Inr c' \<Longrightarrow> hist c' = hist c"
proof (induction controls arbitrary: c)
  case (Cons control controls)
  obtain code c1 where c1: "vpx_enc_control vpx c (fst control) (snd control) = (code, c1)" by fastforce
  then have "hist c1 = hist c" using Cons.prems(1) unfolding journals_def by (metis snd_conv)
  moreover have "codec_controls vpx c1 controls = Inr c'"
    using Cons.prems(2) c1 by (cases control) (auto simp: bind_result_Inr_iff)
  ultimately show ?case using Cons.IH [OF Cons.prems(1)] by simp
qed simp

lemma encoder_init_journal:
  assumes "journals vpx hist" and "encoder_init vpx os nprocs width height frame_rate path w = (Inr e, w')"
  shows "hist (enc_context e) = []"
proof -
  obtain cfg ctx where codec: "encoder_codec vpx nprocs width height frame_rate 0 = Inr (cfg, ctx)" "enc_context e = ctx"
    using assms(2) by (auto simp: encoder_init_def Let_def split: prod.splits sum.splits if_splits)
  obtain code ctx0 where init: "vpx_enc_init vpx cfg = (code, ctx0)" "codec_controls vpx ctx0 (encoder_controls (min nprocs 16)) = Inr ctx"
    using codec(1) by (auto simp: encoder_codec_def Let_def bind_result_Inr_iff split: prod.splits)
  have "hist ctx0 = []" using assms(1) init(1) unfolding journals_def by (metis snd_conv)
  with codec_controls_journal [OF assms(1) init(2)] codec(2) show ?thesis by simp
qed

lemma setup_journal:
  assumes "journals vpx hist"
    and "sender_setup os tm vpx nprocs img_alloc cfg y4m_path config udp_sock w = Some (Inr (s, fps, stats), w')"
  shows "hist (enc_context (snd_encoder s)) = []"
proof -
  from assms(2) obtain e w1 w2 where
    e: "encoder_init vpx os nprocs (cfg_width config) (cfg_height config) (cfg_frame_rate config)
      (sc_output_path cfg) w1 = (Inr e, w2)"
    and s: "enc_context (snd_encoder s) = enc_context (snd (set_target_bitrate vpx (cfg_target_bitrate config) e))"
    unfolding sender_setup_def
    by (auto simp: bind_process_Inr_iff total_def return_action_def bind_result_Inr_iff split_beta set_verbose_def)
  have "hist (enc_context (snd (set_target_bitrate vpx b e))) = hist (enc_context e)" for b
    using assms(1) by (simp add: set_target_bitrate_def journals_def case_prod_unfold Let_def)
  with encoder_init_journal [OF assms(1) e] s show ?thesis by simp
qed

text \<open>Everything that the sender sent since its start carries frames of its codec.\<close>

lemma sender_sends_frames:
  assumes "sender_start pf opts args w = Some (Inr (Some (env, p, s)), w0)" and "distinct_fds env"
    and "journals (env_vpx env) hist" and "only_sends env outbox"
    and "run (sender_step env) evs (p, s, w0) (p', s', w')" and "Round (Some (- 1)) \<notin> set evs"
  shows "loop_sending env hist outbox (outbox w0) (p', s', w')"
proof -
  obtain cfg port path udp_sock config w1 fps stats where
    started: "sender_setup (pf_os pf) (pf_timers pf) (pf_vpx pf) (pf_nprocs pf) (pf_img_alloc pf) cfg path
       config udp_sock w1 = Some (Inr (s, fps, stats), w0)"
    and env: "env = sender_env_of pf cfg fps udp_sock stats"
    and reg: "perform poller_request (sender_registrations env) empty_poller = (Inr (), p)"
    using sender_start_facts [OF assms(1)] by metis
  have empty: "enc_send_buf (snd_encoder s) = []" "enc_unacked (snd_encoder s) = []"
    using sender_setup_agrees [OF started] by simp_all
  have "journals (pf_vpx pf) hist" using assms(3) by (simp add: env sender_env_of_def)
  from setup_journal [OF this started] have "loop_sending env hist outbox (outbox w0) (p, s, w0)"
    by (simp add: loop_sending_def sending_def journal_inv_def queue_from_def sent_from_def empty)
  moreover have "sender_inv env (p, s, w0)"
    using registered_inv [OF assms(2) empty] sender_registrations_poller [OF assms(2)] reg by simp
  moreover have "\<forall>ev \<in> set evs. no_wrap ev"
    using assms(6) by (auto simp: no_wrap_def split: sender_event.split)
  ultimately show ?thesis
    using step_invariant.run_preserves [OF sender_kept [OF loop_keeps_sending [OF assms(4,3)]] assms(5)] by blast
qed

lemma receiver_start_decoder:
  assumes "receiver_start pf now opts args w = Some (Inr (Some (sock, d)), w')"
  shows "dec_frame_buf d = [] \<and> dec_next_frame d = 0 \<and> dec_shared_queue d = [] \<and>
    dec_lazy_level d \<le> NO_DECODE_DISPLAY"
proof -
  obtain cfg :: receiver_config and pos :: receiver_args and w1 d0 where
    "decoder_init (pf_os pf) now (ra_width pos) (ra_height pos) (rc_lazy_level cfg) (rc_output_path cfg) w1 = (Inr d0, w')"
    and "d = decoder_set_verbose (rc_verbose cfg) d0"
    using assms unfolding receiver_start_def
    by (auto simp: bind_process_Inr_iff pure_Inr_iff total_def split: option.split_asm)
  then show ?thesis
    by (auto simp: decoder_init_def Let_def decoder_set_verbose_def split: if_splits prod.splits sum.splits)
qed

lemma intact_sent:
  "intact tm a b fs \<Longrightarrow> f \<in> set fs \<Longrightarrow> \<exists>sf. tm (frm_id f) = Some sf \<and> frm_type f = sf_type sf \<and> frame_bytes f = sf_data sf"
  by (simp add: intact_def)

text \<open>
  A frame as the journal has it; and a fragment of a frame of the given data that none of the messages carries.
\<close>

definition entry_of :: "frame \<Rightarrow> u32 \<times> bytes \<times> bool" where
  "entry_of f = (frm_id f, frame_bytes f, frm_type f = KEY)"

definition lacks_fragment :: "nat \<Rightarrow> u32 \<Rightarrow> bytes \<Rightarrow> bytes list \<Rightarrow> bool" where
  "lacks_fragment max_payload k data msgs \<longleftrightarrow> (\<exists>i \<le> length data div (max_payload + 1). \<forall>m \<in> set msgs.
     let x = snd (datagram_parse_from_string m new_datagram) in \<not> (dg_frame_id x = k \<and> unat (dg_frag_id x) = i))"

lemma worker_start_fresh:
  assumes "worker_start sdl vpx nprocs d x = (Inr (Some wk), x')"
  shows "dec_lazy_level d \<noteq> NO_DECODE_DISPLAY" and "wk_local_queue wk = []"
  using assms
  by (auto simp: worker_start_def Let_def split: if_splits prod.splits sum.splits)

text \<open>What the receiver's main loop makes of messages of the sender.\<close>

lemma frames_reach_queue:
  assumes "sender_start pf opts args w = Some (Inr (Some (env, p, s)), w0)" and "distinct_fds env"
    and "run (sender_step env) evs (p, s, w0) (p', s', w')" and "Round (Some (- 1)) \<notin> set evs"
    and "journals (env_vpx env) hist" and "only_sends env outbox" and "outbox w' = outbox w0 @ sent"
    and "receiver_start rpf now ropts rargs r = Some (Inr (Some (sock, d)), r0)" and "dec_output_fd d = None"
    and "delivers (pf_net rpf) sock inbox acks" and "\<forall>m \<in> set (inbox r0). m \<in> set sent \<and> length m \<le> 65536"
  shows "\<exists>d' r' fs. receiver_rounds (pf_net rpf) (pf_os rpf) sock clock (length (inbox r0)) d r0 = Some (Inr (), d', r') \<and>
    dec_shared_queue d' = (if dec_lazy_level d \<le> DECODE_ONLY then fs else []) \<and> dec_output_fd d' = None \<and>
    dec_next_frame d' = after_last 0 fs \<and> chained 0 fs \<and> (\<forall>f \<in> set fs. frame_inv f \<and> frame_complete f) \<and>
    subseq (map entry_of fs) (hist (enc_context (snd_encoder s'))) \<and>
    (\<forall>data is_key. (dec_next_frame d', data, is_key) \<in> set (hist (enc_context (snd_encoder s'))) \<longrightarrow>
      lacks_fragment (env_max_payload env) (dec_next_frame d') data (inbox r0))"
proof -
  let ?M = "env_max_payload env" and ?h = "hist (enc_context (snd_encoder s'))"
  let ?tm = "frames_of ?M ?h"
  have sending: "journal_inv ?M (enc_frame_id (snd_encoder s')) ?h" "sent_from ?tm (outbox w0) (outbox w')"
    using sender_sends_frames [OF assms(1,2,5,6,3,4)] by (simp_all add: loop_sending_def sending_def Let_def)
  note tm = journal_transmission [OF sending(1)]
  have carried: "\<exists>k i. carries ?tm k i m" if "m \<in> set (inbox r0)" for m
    using sending(2) assms(7,11) that by (auto simp: sent_from_def)
  have fresh: "dec_frame_buf d = []" "dec_next_frame d = 0" "dec_shared_queue d = []"
    using receiver_start_decoder [OF assms(8)] by simp_all
  then have inv: "received_inv ?tm {} d"
    using assms(9) by (simp add: received_inv_def decoder_inv_def no_output_def om_wf_def)
  have idle: "next_frame_complete d = (Inr False, d)"
    by (simp add: next_frame_complete_def skip_to_key_frame_def fresh(1) om_find_def)
  have "\<forall>m \<in> set (inbox r0). length m \<le> 65536 \<and> (\<exists>k i. carries ?tm k i m)" using carried assms(11) by blast
  from rounds_deliver [OF assms(10) tm refl this inv idle, of "pf_os rpf" clock]
  obtain d' r' fs where rounds:
    "receiver_rounds (pf_net rpf) (pf_os rpf) sock clock (length (inbox r0)) d r0 = Some (Inr (), d', r')"
    and end': "received_inv ?tm ({} \<union> set (inbox r0)) d'" "next_frame_complete d' = (Inr False, d')"
    and fs: "intact ?tm (dec_next_frame d) (dec_next_frame d') fs"
      "dec_shared_queue d' = dec_shared_queue d @ (if dec_lazy_level d \<le> DECODE_ONLY then fs else [])"
      "dec_output_fd d' = dec_output_fd d"
    by (elim exE conjE)
  have entries: "entry_of f \<in> set ?h" if f: "f \<in> set fs" for f
  proof -
    obtain sf where sf: "?tm (frm_id f) = Some sf" "frm_type f = sf_type sf" "frame_bytes f = sf_data sf"
      using intact_sent [OF fs(1) f] by (elim exE conjE)
    from frames_of_Some [OF sf(1)] obtain data is_key where
      entry: "(frm_id f, data, is_key) \<in> set ?h" and "sf = sent_as ?M (frm_id f) (data, is_key)" .
    then have "frame_bytes f = data" "(frm_type f = KEY) = is_key"
      using sf(2,3) by (simp_all add: sent_as_def Let_def KEY_def NONKEY_def)
    with entry show ?thesis by (simp add: entry_of_def)
  qed
  have "lacks_fragment ?M (dec_next_frame d') data (inbox r0)"
    if data: "(dec_next_frame d', data, is_key) \<in> set ?h" for data is_key
  proof -
    let ?sf = "sent_as ?M (dec_next_frame d') (data, is_key)"
    have frame: "?tm (dec_next_frame d') = Some ?sf" by (rule frames_of_entry [OF sending(1) data])
    have "length data div (?M + 1) + 1 < 2 ^ 16" using sending(1) data by (auto simp: journal_inv_def)
    from fragment_count_fits [OF this] have len: "length (sf_datagrams ?sf) = length data div (?M + 1) + 1"
      by (simp add: sent_as_def Let_def frame_datagrams_def)
    from next_frame_lacks [OF tm end' frame] obtain i where
      i: "i < length (sf_datagrams ?sf)" "\<forall>m \<in> set (inbox r0). \<not> carries ?tm (dec_next_frame d') i m" by auto
    have "\<not> (dg_frame_id x = dec_next_frame d' \<and> unat (dg_frag_id x) = i)"
      if m: "m \<in> set (inbox r0)" and x: "x = snd (datagram_parse_from_string m new_datagram)" for m x
    proof -
      obtain k j where c: "carries ?tm k j m" using carried [OF m] by blast
      obtain y where "datagram_parse_from_string m new_datagram = (Inr True, y)" and y: "dg_frame_id y = k" "unat (dg_frag_id y) = j"
        by (rule carries_parsed [OF tm c])
      then have "x = y" using x by simp
      moreover have "\<not> carries ?tm (dec_next_frame d') i m" using i(2) m by blast
      ultimately show ?thesis using c y by metis
    qed
    with i(1) len show ?thesis by (unfold lacks_fragment_def, intro exI [of _ i]) (simp add: Let_def)
  qed
  moreover have "subseq (map entry_of fs) ?h"
    using fs(1) sending(1) entries by (intro sorted_selection_subseq) (auto simp: intact_def journal_inv_def o_def entry_of_def)
  moreover have "dec_next_frame d' = after_last 0 fs" "chained 0 fs" "\<forall>f \<in> set fs. frame_inv f \<and> frame_complete f"
    using fs(1) fresh(2) by (simp_all add: intact_def)
  moreover have "dec_output_fd d' = None" using fs(3) assms(9) by simp
  ultimately show ?thesis
    using rounds fs(2) fresh(3) by (intro exI [of _ d'] exI [of _ r'] exI [of _ fs]) simp
qed

text \<open>
  Entries of the journal each of which is the one after its predecessor, the first one \<open>k\<close>, or a key frame; and the data
  of such a part of the journal, what a decoder needs to be able to decode.
\<close>

fun unbroken :: "u32 \<Rightarrow> journal \<Rightarrow> bool" where
  "unbroken k [] = True"
| "unbroken k ((i, data, is_key) # ps) = ((i = k \<or> is_key) \<and> unbroken (i + 1) ps)"

definition stream_of :: "journal \<Rightarrow> bytes list \<Rightarrow> bool" where
  "stream_of h ds \<longleftrightarrow> (\<exists>ps. subseq ps h \<and> unbroken 0 ps \<and> ds = map (\<lambda>(k, data, is_key). data) ps)"

lemma unbroken_entries [simp]: "unbroken k (map entry_of fs) = chained k fs"
  by (induction fs arbitrary: k) (simp_all add: entry_of_def)

lemma data_of_entries [simp]: "map (\<lambda>(k, data, is_key). data) (map entry_of fs) = map frame_bytes fs"
  by (simp add: entry_of_def)

lemma stream_decodable:
  assumes "chained 0 (gs @ fs)" and "subseq (map entry_of (gs @ fs)) h"
    and "\<forall>f \<in> set fs. frame_inv f \<and> frame_complete f" and "\<forall>(k, data, is_key) \<in> set h. length data < MAX_DECODING_BUF"
  shows "decodable (stream_of h) (map frame_bytes gs) fs"
  using assms(1-3)
proof (induction fs arbitrary: gs)
  case (Cons f fs)
  have "subseq (map entry_of (gs @ [f])) (map entry_of (gs @ f # fs))"
    using list_emb_prefix [of "(=)" "map entry_of (gs @ [f])" "map entry_of (gs @ [f])" "map entry_of fs"] by simp
  then have "subseq (map entry_of (gs @ [f])) h" using Cons.prems(2) by (rule subseq_order.trans)
  moreover have "chained 0 (gs @ [f])" using Cons.prems(1) by simp
  ultimately have ok: "stream_of h (map frame_bytes (gs @ [f]))"
    unfolding stream_of_def by (metis unbroken_entries data_of_entries)
  have "entry_of f \<in> set h" by (rule subseq_map_member [OF Cons.prems(2)]) simp
  then have "length (frame_bytes f) < MAX_DECODING_BUF" using assms(4) by (auto simp: entry_of_def)
  with ok Cons.IH [of "gs @ [f]"] Cons.prems show ?case by simp
qed simp

section \<open>Properties\<close>

text \<open>
  C2: the two programs together, from the command line on. The sender starts and runs any number of rounds of its loop;
  the receiver starts and the network delivers to it any of the messages that the sender sent, in any order, any number of
  times. Then the main loop of the receiver handles them all without an exception, and the frames it hands to its
  worker are frames that libvpx returned to the sender, each with the number it was compressed under, its type, and
  its bytes unchanged, in the order of their compression, and none but a key frame follows a gap; the frame that the
  receiver waits for is the one after the last of them and, if it was compressed, has a fragment that it did not receive.
  (Distinct descriptors, no output file at the receiver, messages no longer than UDP allows, and no wrap of the
  frame ids.)
\<close>

theorem frames_end_to_end:
  assumes "sender_start pf opts args w = Some (Inr (Some (env, p, s)), w0)" and "distinct_fds env"
    and "run (sender_step env) evs (p, s, w0) (p', s', w')" and "Round (Some (- 1)) \<notin> set evs"
    and "journals (env_vpx env) hist" and "only_sends env outbox" and "outbox w' = outbox w0 @ sent"
    and "receiver_start rpf now ropts rargs r = Some (Inr (Some (sock, d)), r0)" and "dec_output_fd d = None"
    and "delivers (pf_net rpf) sock inbox acks" and "\<forall>m \<in> set (inbox r0). m \<in> set sent \<and> length m \<le> 65536"
  shows "\<exists>d' r' fs. receiver_rounds (pf_net rpf) (pf_os rpf) sock clock (length (inbox r0)) d r0 = Some (Inr (), d', r') \<and>
    dec_shared_queue d' = (if dec_lazy_level d \<le> DECODE_ONLY then fs else []) \<and> dec_next_frame d' = after_last 0 fs \<and> chained 0 fs \<and>
    subseq (map (\<lambda>f. (frm_id f, frame_bytes f, frm_type f = KEY)) fs) (hist (enc_context (snd_encoder s'))) \<and>
    (\<forall>data is_key. (dec_next_frame d', data, is_key) \<in> set (hist (enc_context (snd_encoder s'))) \<longrightarrow>
      lacks_fragment (env_max_payload env) (dec_next_frame d') data (inbox r0))"
  using frames_reach_queue [OF assms, of clock] unfolding entry_of_def by blast

text \<open>
  C1: and on to libvpx. When, besides, the receiver decodes, with a codec that accepts every stream of frames of the sender
  in which a frame is the successor of the one before it, the first one frame 0, or a key frame, and that returns an
  image of the display's size for each of them if there is a display, and the frames are shorter than the decoding buffer,
  then the worker thread, after the main loop handled the messages, either waits, as no frame is complete, or takes all
  the complete frames out of the shared queue and ends its round without an exception. What it has passed to
  \<open>vpx_codec_decode\<close> by then is such a stream: the data of frames that \<open>vpx_codec_encode\<close> returned to the sender, in the
  order of their compression, with none but key frames after a gap, up to the one before the frame that the receiver
  waits for, of which it lacks a fragment. (Distinct descriptors, no output file, messages no longer than UDP allows, and no wrap of the
  frame ids.)
\<close>

theorem stream_reaches_decoder:
  assumes "sender_start pf opts args w = Some (Inr (Some (env, p, s)), w0)" and "distinct_fds env"
    and "run (sender_step env) evs (p, s, w0) (p', s', w')" and "Round (Some (- 1)) \<notin> set evs"
    and "journals (env_vpx env) hist" and "only_sends env outbox" and "outbox w' = outbox w0 @ sent"
    and "receiver_start rpf now ropts rargs r = Some (Inr (Some (sock, d)), r0)" and "dec_output_fd d = None"
    and "delivers (pf_net rpf) sock inbox acks" and "\<forall>m \<in> set (inbox r0). m \<in> set sent \<and> length m \<le> 65536"
    and "worker_start sdl vpx nprocs d x = (Inr (Some wk), x')" and "\<forall>w. signal_quit sdl w \<noteq> None"
    and "decodes vpx seen (stream_of (hist (enc_context (snd_encoder s'))))" and "seen (wk_context wk) = []"
    and "fills_display vpx seen (stream_of (hist (enc_context (snd_encoder s')))) (wk_display wk)"
    and "\<forall>(k, data, is_key) \<in> set (hist (enc_context (snd_encoder s'))). length data < 1000000"
  shows "\<exists>d' r' ps. receiver_rounds (pf_net rpf) (pf_os rpf) sock clock (length (inbox r0)) d r0 = Some (Inr (), d', r') \<and>
    subseq ps (hist (enc_context (snd_encoder s'))) \<and>
    unbroken 0 ps \<and> dec_next_frame d' = (if ps = [] then 0 else fst (last ps) + 1) \<and>
    (\<forall>data is_key. (dec_next_frame d', data, is_key) \<in> set (hist (enc_context (snd_encoder s'))) \<longrightarrow>
      lacks_fragment (env_max_payload env) (dec_next_frame d') data (inbox r0)) \<and>
    (if ps = [] then worker_round sdl vpx os readings (d', wk, x') = None
     else \<exists>wk' x''. worker_round sdl vpx os readings (d', wk, x') = Some (Inr (), d'\<lparr>dec_shared_queue := []\<rparr>, wk', x'') \<and>
       seen (wk_context wk') = map (\<lambda>(k, data, is_key). data) ps)"
proof -
  obtain d' r' fs where rounds:
    "receiver_rounds (pf_net rpf) (pf_os rpf) sock clock (length (inbox r0)) d r0 = Some (Inr (), d', r')"
    and d': "dec_shared_queue d' = (if dec_lazy_level d \<le> DECODE_ONLY then fs else [])" "dec_output_fd d' = None"
      "dec_next_frame d' = after_last 0 fs"
    and fs: "chained 0 fs" "\<forall>f \<in> set fs. frame_inv f \<and> frame_complete f"
      "subseq (map entry_of fs) (hist (enc_context (snd_encoder s')))"
    and waits: "\<forall>data is_key. (dec_next_frame d', data, is_key) \<in> set (hist (enc_context (snd_encoder s'))) \<longrightarrow>
      lacks_fragment (env_max_payload env) (dec_next_frame d') data (inbox r0)"
    using frames_reach_queue [OF assms(1-11), of clock] by (elim exE conjE)
  note wk = worker_start_fresh [OF assms(12)]
  have queue: "dec_shared_queue d' = fs"
    using d'(1) wk(1) receiver_start_decoder [OF assms(8)] by (simp add: NO_DECODE_DISPLAY_def DECODE_ONLY_def)
  have quit: "check_display sdl wk x' \<noteq> None"
    using spec [OF assms(13), of x'] by (auto simp: check_display_def split: option.splits)
  have "decodable (stream_of (hist (enc_context (snd_encoder s')))) (map frame_bytes []) fs"
    using fs assms(17) by (intro stream_decodable) (simp_all add: MAX_DECODING_BUF_def)
  then have ok: "decodable (stream_of (hist (enc_context (snd_encoder s')))) (seen (wk_context wk)) (dec_shared_queue d')"
    by (simp add: queue assms(15))
  let ?ps = "map entry_of fs"
  have "if ?ps = [] then worker_round sdl vpx os readings (d', wk, x') = None
     else \<exists>wk' x''. worker_round sdl vpx os readings (d', wk, x') = Some (Inr (), d'\<lparr>dec_shared_queue := []\<rparr>, wk', x'') \<and>
       seen (wk_context wk') = map (\<lambda>(k, data, is_key). data) ?ps"
  proof (cases "fs = []")
    case True
    with quit queue show ?thesis by (auto simp: worker_round_def take_shared_def)
  next
    case False
    with worker_round_decodes [OF assms(14,16) quit wk(2) d'(2) ok, of os readings] show ?thesis
      by (auto simp: queue assms(15) entry_of_def o_def)
  qed
  with rounds waits fs(1,3) d'(3) show ?thesis
    by (intro exI [of _ d'] exI [of _ r'] exI [of _ ?ps] conjI) (auto simp: after_last_def last_map entry_of_def)
qed

section \<open>A session\<close>

text \<open>
  A platform whose codec returns a frame of three bytes, with a journal, and on which \<open>poll\<close> reports the frame timer and
  the writable socket. The receiver's configuration arrives, then the video file with the header, the
  expiration of the timer, and a frame.
\<close>

definition film_codec :: "(cx_packet list \<times> journal) vpx_encoder" where
  "film_codec = recorded (scripted_vpx\<lparr>vpx_enc_init := (\<lambda>_. (VPX_CODEC_OK, [Frame_Pkt [9, 8, 7] True]))\<rparr>)"

definition film_platform :: "(cx_packet list \<times> journal, bytes list \<times> bytes list) platform" where
  "film_platform = \<lparr>pf_os = inbox_os, pf_net = pf_net demo_platform, pf_timers = pf_timers demo_platform,
     pf_poll = (\<lambda>fds timeout_ms w. ((2, map (\<lambda>(fd, events). if fd = 4 then 4 else if fd = 5 then 1 else 0) fds), w)),
     pf_getaddrinfo = pf_getaddrinfo demo_platform, pf_getnameinfo = pf_getnameinfo demo_platform,
     pf_vpx = film_codec, pf_nprocs = 4, pf_img_alloc = pf_img_alloc demo_platform, pf_now = pf_now demo_platform,
     pf_encode_times = pf_encode_times demo_platform\<rparr>"

definition film_rest :: bytes where
  "film_rest = [1, 0, 0, 0, 0, 0, 0, 0] @ frame_bytes_y4m (tiny_frame 5)"

definition film_inbox :: "bytes list \<times> bytes list" where
  "film_inbox = ([config_serialize_to_string demo_config, ascii ''YUV4MPEG2'' @ [10] @ film_rest], [])"

definition film_encoder :: "(cx_packet list \<times> journal) encoder" where
  "film_encoder = \<lparr>enc_display_width = 2, enc_display_height = 2, enc_frame_rate = 30, enc_output_fd = None,
     enc_verbose = False, enc_target_bitrate = 500, enc_cfg = (encoder_config plain_cfg 2 2 30 0)\<lparr>rc_target_bitrate := 500\<rparr>,
     enc_context = ([Frame_Pkt [9, 8, 7] True], []), enc_frame_id = 0, enc_send_buf = [], enc_unacked = [],
     enc_min_rtt_us = None, enc_ewma_rtt_us = None, enc_num_encoded_frames = 0, enc_total_encode_time_ms = 0,
     enc_max_encode_time_ms = 0\<rparr>"

definition film_sender :: "(cx_packet list \<times> journal) sender" where
  "film_sender = \<lparr>snd_encoder = film_encoder, snd_input = tiny_video,
     snd_image = raw_image_alloc (pf_img_alloc demo_platform) 2 2\<rparr>"

lemma film_setup:
  "sender_setup inbox_os (pf_timers film_platform) film_codec 4 (pf_img_alloc demo_platform) sender_defaults path demo_config
      \<lparr>fd_num = 4, fd_eof = False\<rparr> ([ascii ''YUV4MPEG2'' @ [10] @ rest], []) =
    Some (Inr (film_sender, \<lparr>fd_num = 5, fd_eof = False\<rparr>, \<lparr>fd_num = 6, fd_eof = False\<rparr>), [rest], [[0], [0]])"
  using demo_opens_rest [of path rest]
  by (simp add: sender_setup_def bind_process_def total_def fd_set_blocking_def inbox_os_def idle_os_def
      check_syscall_int demo_config_def encoder_init_def sender_defaults_def encoder_codec_def scripted_vpx_def
      check_call_def encoder_controls_def set_target_bitrate_def timerfd_open_def timerfd_set_time_def
      fd_open_def frame_interval_def return_action_def film_platform_def demo_platform_def film_codec_def recorded_def
      film_sender_def film_encoder_def set_verbose_def)

lemma film_connects:
  "sender_connect film_platform port (config_serialize_to_string demo_config # rest, []) =
     Some (Inr (\<lparr>fd_num = 4, fd_eof = False\<rparr>, demo_config), rest, [])"
proof -
  have same: "sender_connect film_platform port w = sender_connect demo_platform port w" for w
    by (simp add: sender_connect_def film_platform_def) (simp add: demo_platform_def)
  show ?thesis unfolding same by (rule demo_connects_rest)
qed

definition film_env :: "(cx_packet list \<times> journal, bytes list \<times> bytes list) sender_env" where
  "film_env = sender_env_of film_platform sender_defaults \<lparr>fd_num = 5, fd_eof = False\<rparr>
     \<lparr>fd_num = 4, fd_eof = False\<rparr> \<lparr>fd_num = 6, fd_eof = False\<rparr>"

lemma film_distinct: "distinct_fds film_env"
  by (simp add: distinct_fds_def film_env_def sender_env_of_def)

lemma film_starts:
  "sender_start film_platform [] [to_string 8080, ascii ''v.y4m''] film_inbox =
     Some (Inr (Some (film_env, registered_poller film_env, film_sender)), [film_rest], [[0], [0]])"
proof -
  have args: "sender_positional [to_string 8080, ascii ''v.y4m''] = Inr (Some (8080, ascii ''v.y4m''))"
    by (simp add: sender_positional_def strict_stoi_to_string narrow_cast_def static_cast_def in_range_def)
  have fields: "pf_os film_platform = inbox_os" "pf_vpx film_platform = film_codec" "pf_nprocs film_platform = 4"
    "pf_img_alloc film_platform = pf_img_alloc demo_platform" by (simp_all add: film_platform_def)
  show ?thesis
    using sender_registrations_poller [OF film_distinct]
    by (simp add: sender_start_def film_inbox_def bind_process_def pure_def args film_connects fields film_setup
        film_env_def [symmetric] del: append_Cons)
qed

lemma film_expires:
  "read_expirations inbox_os f ([film_rest], outp) = (Inr 1, [frame_bytes_y4m (tiny_frame 5)], outp)"
proof -
  have "mem_word host_little_endian [1, 0, 0, 0, 0, 0, 0, 0] = (1 :: u64)"
    by (simp add: mem_word_def host_little_endian_def)
  then show ?thesis
    by (simp add: read_expirations_def inbox_os_def film_rest_def check_syscall_int narrow_cast_def static_cast_def)
qed

lemma film_frame:
  "\<exists>img. fetch_frames inbox_os 1 (tiny_video, raw_image_alloc (pf_img_alloc demo_platform) 2 2,
      [frame_bytes_y4m (tiny_frame 5)], outp) = Some (Inr (), tiny_video, img, [[]], outp) \<and>
    raw_display_width img = 2 \<and> raw_display_height img = 2"
  by (simp add: fetch_frames.simps read_frame_def bind_process_def total_def return_action_def on_fd_def on_img_def
      fd_getline_def getline_loop.simps fd_read_def checked_read_def inbox_os_def idle_os_def ascii_def check_syscall_int
      MAX_BUF_SIZE_def frame_bytes_y4m_def tiny_frame_def tiny_video_def raw_image_alloc_def demo_platform_def
      read_after_header_def read_planes_def read_plane_def y_size_def uv_size_def fd_readn_def readn_loop.simps
      copy_y_from_def copy_u_from_def copy_v_from_def copy_plane_from_def memcpy_plane_def)

definition film_message :: bytes where
  "film_message = datagram_serialize_to_string ((make_datagram 0 KEY 0 1 [9, 8, 7])\<lparr>dg_send_ts := 5\<rparr>)"

text \<open>The frame timer: the frame is read and compressed, and its only datagram is queued.\<close>

definition filmed_encoder :: "(cx_packet list \<times> journal) encoder" where
  "filmed_encoder = film_encoder\<lparr>enc_context := ([Frame_Pkt [9, 8, 7] True], [(0, [9, 8, 7], True)]), enc_frame_id := 1,
     enc_send_buf := [make_datagram 0 KEY 0 1 [9, 8, 7]], enc_num_encoded_frames := 1,
     enc_total_encode_time_ms := double_add 0 0\<rparr>"

lemma film_compress:
  assumes "raw_display_width img = 2" "raw_display_height img = 2"
  shows "compress_frame film_codec os 1455 \<lparr>ts_generation = 0, ts_now = 0, ts_encode_ms = 0, ts_encoded = 0\<rparr> img
      (film_encoder, w) = (Inr (), filmed_encoder, w)"
  using assms
  by (simp add: compress_frame_def bind_action_def encode_frame_def film_encoder_def filmed_encoder_def gives_up_def film_codec_def
      recorded_def scripted_vpx_def check_call_def packetize_encoded_frame_def fragment_count_def narrow_cast_def
      static_cast_def frag_loop.simps)

lemma film_env_fields:
  "env_vpx film_env = film_codec" "env_os film_env = inbox_os" "env_net film_env = pf_net demo_platform"
  "env_max_payload film_env = 1455" "fd_num (env_fps_timer film_env) = 5" "fd_num (env_udp_sock film_env) = 4"
  "fd_num (env_stats_timer film_env) = 6" "env_now film_env = (\<lambda>w. (5000, w))"
  "env_encode_times film_env = (\<lambda>w. (\<lparr>ts_generation = 0, ts_now = 0, ts_encode_ms = 0, ts_encoded = 0\<rparr>, w))"
  by (simp_all add: film_env_def sender_env_of_def film_platform_def demo_platform_def sender_defaults_def default_max_payload_def)

lemma film_fps:
  assumes "poller_ready film_env p"
  shows "\<exists>p' img. on_fps_timer film_env (p, film_sender, [film_rest], outp) =
      Some (Inr (), p', film_sender\<lparr>snd_image := img, snd_encoder := filmed_encoder\<rparr>, [[]], outp) \<and> poller_ready film_env p'"
proof -
  obtain img where img: "fetch_frames inbox_os 1 (tiny_video, raw_image_alloc (pf_img_alloc demo_platform) 2 2,
      [frame_bytes_y4m (tiny_frame 5)], outp) = Some (Inr (), tiny_video, img, [[]], outp)"
    "raw_display_width img = 2" "raw_display_height img = 2"
    using film_frame [of outp] by (elim exE conjE) (rule that)
  let ?s = "film_sender\<lparr>snd_image := img, snd_encoder := filmed_encoder\<rparr>"
  have "encoder_inv filmed_encoder"
    by (simp add: filmed_encoder_def film_encoder_def encoder_inv_def om_wf_def tracked_def make_datagram_def
        new_datagram_def MAX_NUM_RTX_def)
  then obtain p' where "want_writable film_env (p, ?s, [[]], outp) = (Inr (), p', ?s, [[]], outp)"
    "sender_inv film_env (p', ?s, [[]], outp)"
    using want_writable_inv [OF assms, of ?s "([[]], outp)"] by auto
  then show ?thesis
    using img
    by (intro exI [of _ p'] exI [of _ img])
      (simp add: on_fps_timer_def film_env_fields film_expires film_sender_def sender_inv_def Let_def
        film_compress [OF img(2,3)])
qed

lemma film_writable:
  assumes "poller_ready film_env p"
  shows "\<exists>p' s'. on_writable film_env (p, film_sender\<lparr>snd_image := img, snd_encoder := filmed_encoder\<rparr>, inp, outp) =
      Some (Inr (), p', s', inp, outp @ [film_message]) \<and> enc_context (snd_encoder s') = enc_context filmed_encoder"
proof -
  have "datagram_serialize_to_string d \<noteq> []" for d
    using length_datagram_serialize [of d] by auto
  then have "\<exists>e. send_loop film_env (enc_send_buf filmed_encoder) (filmed_encoder, inp, outp) =
      (Inr (), e, inp, outp @ [film_message]) \<and> enc_send_buf e = [] \<and> enc_context e = enc_context filmed_encoder"
    by (simp add: filmed_encoder_def film_encoder_def film_env_fields demo_platform_def list_net_def udp_send_def
        check_bytes_sent_def timestamp_us_def add_unacked_def om_emplace_def om_find_def make_datagram_def new_datagram_def
        film_message_def return_action_def Let_def)
  then obtain e where e: "send_loop film_env (enc_send_buf filmed_encoder) (filmed_encoder, inp, outp) =
      (Inr (), e, inp, outp @ [film_message])" "enc_send_buf e = []" "enc_context e = enc_context filmed_encoder"
    by (elim exE conjE)
  obtain p' where "poller_deactivate (fd_num (env_udp_sock film_env)) Out p = (Inr (), p')"
    by (rule deactivate_ready [OF assms writable_registered [OF assms]])
  with e show ?thesis
    by (intro exI [of _ p'] exI [of _ "film_sender\<lparr>snd_image := img, snd_encoder := e\<rparr>"]) (simp add: on_writable_def)
qed

lemma film_round:
  "\<exists>p' s'. sender_step film_env (Round (Some 0)) (registered_poller film_env, film_sender, [film_rest], [[0], [0]])
      (p', s', [[]], [[0], [0], film_message]) \<and> enc_context (snd_encoder s') = enc_context filmed_encoder"
proof -
  let ?p = "registered_poller film_env" and ?w = "([film_rest], [[0], [0]]) :: bytes list \<times> bytes list"
  have leaving: "poller_do_deregister ?p = ?p" by (simp add: poller_do_deregister_def registered_poller_def fun_eq_iff)
  have fds: "fds_to_poll [5, 4, 6] ?p = [(5, 1), (4, 5), (6, 1)]"
    by (simp add: fds_to_poll_def registered_poller_def film_env_fields flag_value_def)
  have answer: "env_poll film_env [(5, 1), (4, 5), (6, 1)] (- 1) w = ((2, [1, 4, 0]), w)" for w
    by (simp add: film_env_def sender_env_of_def film_platform_def)
  have answers: "poll_answers [(5, 1), (4, 5), (6, 1)] (2, [1, 4, 0])"
    by (auto simp: poll_answers_def has_flag_def flag_value_def split: flag.splits)
  have order: "set [5, 4, 6] = {fd. pl_active ?p fd \<noteq> None}"
    by (auto simp: registered_poller_def film_env_fields split: if_splits)
  have flags: "\<forall>fd. distinct ((\<lambda>_. [In, Out]) fd) \<and> set ((\<lambda>_. [In, Out]) (fd :: int)) = UNIV"
    using flag.exhaust by auto
  have timer: "reported [(5, 1), (4, 5), (6, 1)] [1, 4, 0] (fd_num (env_fps_timer film_env)) In"
    by (simp add: reported_def has_flag_def flag_value_def film_env_fields)
  have ready: "poller_ready film_env ?p" and inv: "poller_inv ?p"
    using registered_poller_ready(1) [OF film_distinct] by (simp_all add: poller_ready_def)
  have cbs: "callbacks_of (pl_roster ?p) (ready_events (pl_roster ?p) (\<lambda>_. [In, Out])
      (polled [(5, 1), (4, 5), (6, 1)] [1, 4, 0])) = [Fps_Timer, Socket_Writable]"
    by (simp add: callbacks_of_def ready_events_def polled_def has_flag_def flag_value_def callback_at_def
        registered_poller_def film_env_fields)
  obtain p1 img where fps: "on_fps_timer film_env (?p, film_sender, ?w) =
      Some (Inr (), p1, film_sender\<lparr>snd_image := img, snd_encoder := filmed_encoder\<rparr>, [[]], [[0], [0]])"
    "poller_ready film_env p1"
    using film_fps [OF ready, of "[[0], [0]]"] by (elim exE conjE)
  obtain p' s' where out: "on_writable film_env (p1, film_sender\<lparr>snd_image := img, snd_encoder := filmed_encoder\<rparr>, [[]], [[0], [0]]) =
      Some (Inr (), p', s', [[]], [[0], [0]] @ [film_message])" "enc_context (snd_encoder s') = enc_context filmed_encoder"
    using film_writable [OF fps(2), of img "[[]]" "[[0], [0]]"] by (elim exE conjE)
  have round: "sender_round film_env [5, 4, 6] (\<lambda>_. [In, Out]) (?p, film_sender, ?w) =
      Some (Inr (), p', s', [[]], [[0], [0], film_message])"
    unfolding sender_round_def
    using poller_poll_ready [OF inv run_sender_requests, of
        "\<lambda>fds timeout_ms (s, w). let (answer, w') = env_poll film_env fds timeout_ms w in (answer, s, w')"
        "[5, 4, 6]" "- 1" "(film_sender, ?w)" 2 "[1, 4, 0]" "(film_sender, ?w)" film_env "\<lambda>_. [In, Out]"] answers fps out
    by (simp add: leaving fds answer cbs run_sender_def bind_process_def total_def return_action_def)
  have first: "sender_frame_id (?p, film_sender, ?w) = 0" by (simp add: sender_frame_id_def film_sender_def film_encoder_def)
  show ?thesis
    using sender_step.Round [of "[5, 4, 6]" ?p "\<lambda>_. [In, Out]" film_env ?w film_sender
        "(p', s', [[]], [[0], [0], film_message])"] order flags answers timer round out(2)
    by (intro exI [of _ p'] exI [of _ s']) (simp add: leaving fds answer first)
qed

lemma film_only_sends: "only_sends film_env snd"
proof -
  have "quiet_os inbox_os snd"
    by (auto simp: quiet_os_def inbox_os_def idle_os_def split: list.split)
  then show ?thesis
    by (auto simp: only_sends_def film_env_fields demo_platform_def list_net_def split: list.split)
      (simp_all add: film_env_def sender_env_of_def film_platform_def)
qed

text \<open>The receiver, to which the message is delivered twice.\<close>

lemma film_receiver_starts:
  "\<exists>d req. receiver_start demo_platform 0 [(CHR ''L'', to_string 1)] [ascii ''h'', to_string 8080, to_string 2, to_string 2] (ms, []) =
     Some (Inr (Some (\<lparr>fd_num = 4, fd_eof = False\<rparr>, d)), ms, req) \<and> dec_output_fd d = None \<and> dec_lazy_level d = 1"
proof -
  have args: "receiver_positional [ascii ''h'', to_string 8080, to_string 2, to_string 2] =
      Inr (Some \<lparr>ra_host = ascii ''h'', ra_port = 8080, ra_width = 2, ra_height = 2\<rparr>)"
    by (simp add: receiver_positional_def parse_u16_def strict_stoi_to_string narrow_cast_def static_cast_def)
  have net: "pf_net demo_platform = list_net\<lparr>net_socket := (\<lambda>_ _ w. (4, w))\<rparr>" by (simp add: demo_platform_def)
  have "udp_open (pf_net demo_platform) (pf_os demo_platform) w = (Inr \<lparr>fd_num = 4, fd_eof = False\<rparr>, w)" for w
    by (simp add: udp_open_def socket_open_def demo_platform_def list_net_def check_syscall_int fd_open_def
        inbox_os_def idle_os_def)
  moreover have "address_resolve (pf_getaddrinfo demo_platform) ip port =
      Inr \<lparr>addr_bytes = 2 # replicate 15 0, addr_size = 1\<rparr>" for ip port
    by (simp add: address_resolve_def demo_platform_def SOCKADDR_SIZE_def blit_def)
  moreover have "socket_connect (pf_net demo_platform) f a w = (Inr (), w)"
    "local_address (pf_net demo_platform) f w = (Inr \<lparr>addr_bytes = replicate 16 0, addr_size = 0\<rparr>, w)" for f a w
    by (simp_all add: socket_connect_def local_address_def address_copy_def net list_net_def
        check_syscall_int SOCKADDR_SIZE_def blit_def)
  moreover obtain req where "request_config (pf_net demo_platform) \<lparr>fd_num = 4, fd_eof = False\<rparr> (receiver_defaults\<lparr>rc_lazy_level := 1\<rparr>)
      \<lparr>ra_host = ascii ''h'', ra_port = 8080, ra_width = 2, ra_height = 2\<rparr> (ms, []) = (Inr True, ms, req)"
  proof -
    have "config_serialize_to_string c \<noteq> []" for c
      by (simp add: config_serialize_to_string_def base_serialize_to_string_def codec_laws flip: length_0_conv)
    then show ?thesis
      by (intro that) (simp add: request_config_def config_msg_new_def udp_send_def net list_net_def check_bytes_sent_def)
  qed
  ultimately show ?thesis
    by (auto simp: receiver_start_def receiver_connect_def bind_process_def pure_def total_def args demo_str
        strict_stoi_to_string decoder_init_def receiver_defaults_def decoder_set_verbose_def DECODE_DISPLAY_def NO_DECODE_DISPLAY_def)
qed

text \<open>The session: the sender runs a round, and its message reaches the receiver twice.\<close>

abbreviation film_sock :: file_descriptor where
  "film_sock \<equiv> \<lparr>fd_num = 4, fd_eof = False\<rparr>"

abbreviation film_delivered :: "bytes list" where
  "film_delivered \<equiv> [film_message, film_message]"

lemma film_ran:
  obtains p' s' where "run (sender_step film_env) [Round (Some 0)] (registered_poller film_env, film_sender, [film_rest], [[0], [0]])
      (p', s', [[]], [[0], [0], film_message])" and "snd (enc_context (snd_encoder s')) = [(0, [9, 8, 7], True)]"
proof -
  obtain p' s' where step: "sender_step film_env (Round (Some 0)) (registered_poller film_env, film_sender, [film_rest], [[0], [0]])
      (p', s', [[]], [[0], [0], film_message])" and ctx: "enc_context (snd_encoder s') = enc_context filmed_encoder"
    using film_round by (elim exE conjE)
  show ?thesis
  proof (rule that)
    show "run (sender_step film_env) [Round (Some 0)] (registered_poller film_env, film_sender, [film_rest], [[0], [0]])
      (p', s', [[]], [[0], [0], film_message])" using step by (auto simp: run_Cons_iff)
    show "snd (enc_context (snd_encoder s')) = [(0, [9, 8, 7], True)]" by (simp add: ctx filmed_encoder_def)
  qed
qed

lemma film_journals: "journals (env_vpx film_env) snd"
  by (simp add: film_env_fields film_codec_def recorded_journals)

lemma film_wraps: "Round (Some (- 1)) \<notin> set [Round (Some 0)]"
  by simp

lemma film_net: "delivers (pf_net demo_platform) film_sock fst snd"
  by (auto simp: delivers_def pending_datagram_def demo_platform_def list_net_def)

lemma film_sent: "snd ([[]] :: bytes list, [[0], [0], film_message]) = snd ([film_rest], [[0], [0]]) @ [film_message]"
  by simp

lemma film_arrived: "\<forall>m \<in> set (fst (film_delivered, req)). m \<in> set [film_message] \<and> length m \<le> 65536"
  by (simp add: film_message_def length_datagram_serialize make_datagram_def new_datagram_def HEADER_SIZE_def)

lemma film_waits:
  assumes "hist = [(0, [9, 8, 7], True)]" and "\<forall>data is_key. (k, data, is_key) \<in> set hist \<longrightarrow>
    lacks_fragment (env_max_payload film_env) k data (fst (film_delivered, req))"
  shows "k \<noteq> 0"
proof
  assume "k = 0"
  with assms have "lacks_fragment (env_max_payload film_env) 0 [9, 8, 7] (fst (film_delivered, req))" by force
  then show False
    by (auto simp: lacks_fragment_def film_env_fields Let_def film_message_def datagram_reparse make_datagram_def new_datagram_def)
qed

theorem frames_end_to_end_witness:
  "\<exists>p' s' d req d' r' fs. sender_start film_platform [] [to_string 8080, ascii ''v.y4m''] film_inbox =
       Some (Inr (Some (film_env, registered_poller film_env, film_sender)), [film_rest], [[0], [0]]) \<and>
     run (sender_step film_env) [Round (Some 0)] (registered_poller film_env, film_sender, [film_rest], [[0], [0]])
       (p', s', [[]], [[0], [0], film_message]) \<and>
     receiver_start demo_platform 0 [(CHR ''L'', to_string 1)] [ascii ''h'', to_string 8080, to_string 2, to_string 2]
       (film_delivered, []) = Some (Inr (Some (film_sock, d)), film_delivered, req) \<and>
     receiver_rounds (pf_net demo_platform) (pf_os demo_platform) film_sock (\<lambda>_ _. (0, 0)) 2 d (film_delivered, req) =
       Some (Inr (), d', r') \<and>
     dec_shared_queue d' = fs \<and> dec_next_frame d' = 1 \<and> map frame_bytes fs = [[9, 8, 7]]"
proof -
  obtain p' s' where ran: "run (sender_step film_env) [Round (Some 0)]
      (registered_poller film_env, film_sender, [film_rest], [[0], [0]]) (p', s', [[]], [[0], [0], film_message])"
    and hist: "snd (enc_context (snd_encoder s')) = [(0, [9, 8, 7], True)]" by (rule film_ran)
  obtain d req where started: "receiver_start demo_platform 0 [(CHR ''L'', to_string 1)] [ascii ''h'', to_string 8080, to_string 2, to_string 2]
      (film_delivered, []) = Some (Inr (Some (film_sock, d)), film_delivered, req)" and d: "dec_output_fd d = None" "dec_lazy_level d = 1"
    using film_receiver_starts [of film_delivered] by (elim exE conjE)
  from frames_end_to_end [OF film_starts film_distinct ran film_wraps film_journals film_only_sends film_sent started
      d(1) film_net film_arrived, of "\<lambda>_ _. (0, 0)"]
  obtain d' r' fs where rounds: "receiver_rounds (pf_net demo_platform) (pf_os demo_platform) film_sock (\<lambda>_ _. (0, 0))
      (length (fst (film_delivered, req))) d (film_delivered, req) = Some (Inr (), d', r')"
    and last: "dec_next_frame d' = after_last 0 fs"
    and fs: "dec_shared_queue d' = (if dec_lazy_level d \<le> DECODE_ONLY then fs else [])"
      "subseq (map (\<lambda>f. (frm_id f, frame_bytes f, frm_type f = KEY)) fs) (snd (enc_context (snd_encoder s')))"
    and waits: "\<forall>data is_key. (dec_next_frame d', data, is_key) \<in> set (snd (enc_context (snd_encoder s'))) \<longrightarrow>
      lacks_fragment (env_max_payload film_env) (dec_next_frame d') data (fst (film_delivered, req))"
    by (elim exE conjE)
  have "dec_next_frame d' \<noteq> 0" by (rule film_waits [OF hist waits])
  then have "fs \<noteq> []" using last by auto
  with fs(2) obtain f where "fs = [f]" "frm_id f = 0" "frame_bytes f = [9, 8, 7]"
    by (auto simp: hist neq_Nil_conv split: if_splits dest!: list_emb_Nil2)
  then have "dec_next_frame d' = 1" "map frame_bytes fs = [[9, 8, 7]]" using last by (simp_all add: after_last_def)
  moreover have "dec_shared_queue d' = fs" using fs(1) by (simp add: d(2) DECODE_ONLY_def)
  moreover have "length (fst (film_delivered, req)) = 2" by simp
  note rounds [unfolded this]
  ultimately show ?thesis
    using film_starts ran started
    by - (rule exI [of _ p'], rule exI [of _ s'], rule exI [of _ d], rule exI [of _ req],
        rule exI [of _ d'], rule exI [of _ r'], rule exI [of _ fs], intro conjI)
qed

theorem stream_reaches_decoder_witness:
  "\<exists>d req wk d' r' wk' x''. receiver_start demo_platform 0 [(CHR ''L'', to_string 1)]
       [ascii ''h'', to_string 8080, to_string 2, to_string 2] (film_delivered, []) =
       Some (Inr (Some (film_sock, d)), film_delivered, req) \<and>
     worker_start no_sdl recording_vpx 4 d ([], []) = (Inr (Some wk), [], []) \<and>
     receiver_rounds (pf_net demo_platform) (pf_os demo_platform) film_sock (\<lambda>_ _. (0, 0)) 2 d (film_delivered, req) =
       Some (Inr (), d', r') \<and>
     worker_round no_sdl recording_vpx (stream_os 1) (\<lambda>_. (1, 0, 0)) (d', wk, [], []) =
       Some (Inr (), d'\<lparr>dec_shared_queue := []\<rparr>, wk', x'') \<and> wk_context wk' = [[9, 8, 7]]"
proof -
  obtain p' s' where ran: "run (sender_step film_env) [Round (Some 0)]
      (registered_poller film_env, film_sender, [film_rest], [[0], [0]]) (p', s', [[]], [[0], [0], film_message])"
    and hist: "snd (enc_context (snd_encoder s')) = [(0, [9, 8, 7], True)]" by (rule film_ran)
  obtain d req where started: "receiver_start demo_platform 0 [(CHR ''L'', to_string 1)] [ascii ''h'', to_string 8080, to_string 2, to_string 2]
      (film_delivered, []) = Some (Inr (Some (film_sock, d)), film_delivered, req)" and d: "dec_output_fd d = None" "dec_lazy_level d = 1"
    using film_receiver_starts [of film_delivered] by (elim exE conjE)
  let ?wk = "idle_worker\<lparr>wk_last_stats_time := dec_epoch d\<rparr>"
  have worker: "worker_start no_sdl recording_vpx 4 d ([], []) = (Inr (Some ?wk), [], [])"
    by (simp add: worker_start_def d(2) recording_vpx_def check_call_def NO_DECODE_DISPLAY_def DECODE_DISPLAY_def
        idle_worker_def)
  have quit: "\<forall>w. signal_quit no_sdl w \<noteq> None" by (simp add: signal_quit.simps no_sdl_def)
  have codec: "decodes recording_vpx (\<lambda>c. c) ok" "wk_context ?wk = []" "fills_display recording_vpx (\<lambda>c. c) ok (wk_display ?wk)" for ok
    by (simp_all add: decodes_def fills_display_def recording_vpx_def idle_worker_def)
  have short: "\<forall>(k, data, is_key) \<in> set (snd (enc_context (snd_encoder s'))). length data < 1000000" by (simp add: hist)
  from stream_reaches_decoder [OF film_starts film_distinct ran film_wraps film_journals film_only_sends film_sent started
      d(1) film_net film_arrived worker quit codec short, of "\<lambda>_ _. (0, 0)" "stream_os 1" "\<lambda>_. (1, 0, 0)"]
  obtain d' r' ps where rounds: "receiver_rounds (pf_net demo_platform) (pf_os demo_platform) film_sock (\<lambda>_ _. (0, 0))
      (length (fst (film_delivered, req))) d (film_delivered, req) = Some (Inr (), d', r')"
    and ps: "subseq ps (snd (enc_context (snd_encoder s')))" "dec_next_frame d' = (if ps = [] then 0 else fst (last ps) + 1)"
    and waits: "\<forall>data is_key. (dec_next_frame d', data, is_key) \<in> set (snd (enc_context (snd_encoder s'))) \<longrightarrow>
      lacks_fragment (env_max_payload film_env) (dec_next_frame d') data (fst (film_delivered, req))"
    and decoded: "if ps = [] then worker_round no_sdl recording_vpx (stream_os 1) (\<lambda>_. (1, 0, 0)) (d', ?wk, [], []) = None
     else \<exists>wk' x''. worker_round no_sdl recording_vpx (stream_os 1) (\<lambda>_. (1, 0, 0)) (d', ?wk, [], []) =
         Some (Inr (), d'\<lparr>dec_shared_queue := []\<rparr>, wk', x'') \<and>
       wk_context wk' = map (\<lambda>(k, data, is_key). data) ps"
    by (elim exE conjE)
  have "ps \<noteq> []" using film_waits [OF hist waits] ps(2) by auto
  with ps(1) have "ps = [(0, [9, 8, 7], True)]"
    by (auto simp: hist neq_Nil_conv split: if_splits dest!: list_emb_Nil2)
  with decoded obtain wk' x'' where "worker_round no_sdl recording_vpx (stream_os 1) (\<lambda>_. (1, 0, 0)) (d', ?wk, [], []) =
      Some (Inr (), d'\<lparr>dec_shared_queue := []\<rparr>, wk', x'')" "wk_context wk' = [[9, 8, 7]]"
    by (auto simp: idle_worker_def)
  moreover have "length (fst (film_delivered, req)) = 2" by simp
  note rounds [unfolded this]
  ultimately show ?thesis
    using started worker
    by - (rule exI [of _ d], rule exI [of _ req], rule exI [of _ ?wk], rule exI [of _ d'], rule exI [of _ r'],
        rule exI [of _ wk'], rule exI [of _ x''], intro conjI)
qed

end
