(* ===== verification/Decimal.thy ===== *)
theory Decimal
  imports Conversion Floating
begin

text \<open>
  The model of \<open>double_to_string\<close> of \<open>src/util/conversion.cc\<close>: a double in fixed notation. The stream converts
  it as \<open>printf\<close> does with \<open>%.*f\<close>, to the nearest decimal of the given number of places, the even one of two
  equally near ones; a negative precision counts as none given, which is 6.
\<close>

section \<open>Fixed notation\<close>

definition decimal_places :: "int \<Rightarrow> nat" where
  "decimal_places precision = (if precision < 0 then 6 else nat precision)"

text \<open>The number \<open>n / 10 ^ p\<close>, with \<open>p\<close> digits after the point.\<close>

definition fixed_notation :: "nat \<Rightarrow> nat \<Rightarrow> bytes" where
  "fixed_notation p n =
     (let frac = to_string (n mod 10 ^ p)
      in to_string (n div 10 ^ p) @ (if p = 0 then [] else 46 # replicate (p - length frac) 48 @ frac))"

definition double_to_string :: "double \<Rightarrow> int \<Rightarrow> bytes" where
  "double_to_string input precision =
     (let p = decimal_places precision
      in (if input < 0 then [45] else []) @ fixed_notation p (nat (round_half_even (\<bar>input\<bar> * 10 ^ p))))"

section \<open>Reading it\<close>

text \<open>The places after the point of a decimal, and the number it denotes.\<close>

definition places_of :: "bytes \<Rightarrow> bytes" where
  "places_of s = drop 1 (dropWhile (\<lambda>c. c \<noteq> 46) s)"

definition magnitude_of :: "bytes \<Rightarrow> rat" where
  "magnitude_of s = of_nat (digits_value 10 (takeWhile (\<lambda>c. c \<noteq> 46) s @ places_of s)) / 10 ^ length (places_of s)"

definition decimal_value :: "bytes \<Rightarrow> rat" where
  "decimal_value s = (case s of [] \<Rightarrow> 0 | c # ds \<Rightarrow> if c = 45 then - magnitude_of ds else magnitude_of s)"

lemma foldl_digits:
  "foldl (\<lambda>a d. a * 10 + digit_value d) a ds = a * 10 ^ length ds + foldl (\<lambda>a d. a * 10 + digit_value d) 0 ds"
proof (induction ds arbitrary: a)
  case (Cons d ds)
  show ?case using Cons.IH [of "a * 10 + digit_value d"] Cons.IH [of "digit_value d"] by (simp add: algebra_simps)
qed simp

lemma digits_value_append: "digits_value 10 (xs @ ys) = digits_value 10 xs * 10 ^ length ys + digits_value 10 ys"
  unfolding digits_value_def foldl_append by (rule foldl_digits)

lemma digits_value_zeros: "digits_value 10 (replicate k 48) = 0"
proof -
  have "foldl (\<lambda>a d. a * 10 + digit_value d) 0 (replicate k 48) = 0"
    by (induction k) (simp_all add: digit_value_def)
  then show ?thesis by (simp add: digits_value_def)
qed

lemma length_to_string: "n < 10 ^ p \<Longrightarrow> 0 < p \<Longrightarrow> length (to_string n) \<le> p"
proof (induction n arbitrary: p rule: to_string.induct)
  case (1 n)
  show ?case
  proof (cases "n < 10")
    case False
    with 1(2) have p: "p = Suc (p - 1)" "0 < p - 1" using 1(3) by (cases p; cases "p - 1"; simp)+
    then have "n < 10 * 10 ^ (p - 1)" using 1(2) by (metis power_Suc)
    then have "n div 10 < 10 ^ (p - 1)" by (simp add: less_mult_imp_div_less mult.commute)
    from 1(1) [OF False this p(2)] p(1) False show ?thesis by (subst to_string.simps) simp
  qed (use 1(3) in \<open>subst to_string.simps, simp\<close>)
qed

lemma to_string_plain: "c \<in> set (to_string n) \<Longrightarrow> c \<noteq> 46 \<and> c \<noteq> 45"
  using to_string_digits [of n] by (force simp: digit_value_def)

lemma fixed_notation_reads:
  fixes p n :: nat
  defines "s \<equiv> fixed_notation p n"
  shows "length (places_of s) = p" and "magnitude_of s = of_nat n / 10 ^ p" and "s \<noteq> [] \<and> hd s \<noteq> 45"
proof -
  let ?int = "to_string (n div 10 ^ p)" and ?frac = "to_string (n mod 10 ^ p)"
  let ?places = "if p = 0 then [] else replicate (p - length ?frac) 48 @ ?frac"
  have int: "\<forall>c \<in> set ?int. c \<noteq> 46" using to_string_plain by blast
  then have point: "takeWhile (\<lambda>c. c \<noteq> 46) s = ?int" "places_of s = ?places"
    by (simp_all add: s_def fixed_notation_def places_of_def Let_def takeWhile_append2 dropWhile_append2)
  have frac: "length ?frac \<le> p" if "0 < p" by (rule length_to_string [OF _ that]) simp
  then have len: "length ?places = p" by simp
  have "digits_value 10 ?places = n mod 10 ^ p"
    using to_string_digits [of "n mod 10 ^ p"] by (simp add: digits_value_append digits_value_zeros) (simp add: digits_value_def)
  then have "digits_value 10 (?int @ ?places) = n"
    using to_string_digits [of "n div 10 ^ p"] len by (simp only: digits_value_append div_mult_mod_eq)
  with point len show "length (places_of s) = p" "magnitude_of s = of_nat n / 10 ^ p"
    by (simp_all only: magnitude_of_def)
  have "hd ?int \<noteq> 45" "?int \<noteq> []"
    using to_string_plain [OF hd_in_set] to_string_digits [of "n div 10 ^ p"] by blast+
  then show "s \<noteq> [] \<and> hd s \<noteq> 45" by (simp add: s_def fixed_notation_def Let_def)
qed

lemma decimal_value_sign:
  assumes "s \<noteq> []" and "hd s \<noteq> 45"
  shows "decimal_value ((if negative then [45] else []) @ s) = (if negative then - magnitude_of s else magnitude_of s)"
  using assms by (cases s) (simp_all add: decimal_value_def)

section \<open>Properties\<close>

text \<open>
  C40: what \<open>double_to_string\<close> writes is a decimal with the requested number of places after the point, 6 for a
  negative precision, whose value is the given number up to half a unit of the last place.
\<close>

theorem double_to_string_nearest:
  "length (places_of (double_to_string x precision)) = decimal_places precision \<and>
   2 * 10 ^ decimal_places precision * \<bar>decimal_value (double_to_string x precision) - x\<bar> \<le> 1"
proof -
  define p where "p = decimal_places precision"
  define r where "r = round_half_even (\<bar>x\<bar> * 10 ^ p)"
  define s where "s = fixed_notation p (nat r)"
  have printed: "double_to_string x precision = (if x < 0 then [45] else []) @ s"
    by (simp only: double_to_string_def Let_def s_def r_def p_def)
  have "0 \<le> \<lfloor>\<bar>x\<bar> * 10 ^ p\<rfloor>" by simp
  then have pos: "0 \<le> r" using round_half_even_floor [of "\<bar>x\<bar> * 10 ^ p"] unfolding r_def by linarith
  have s: "length (places_of s) = p" "magnitude_of s = of_nat (nat r) / 10 ^ p" "s \<noteq> []" "hd s \<noteq> 45"
    using fixed_notation_reads [of p "nat r"] by (simp_all add: s_def)
  then have num: "magnitude_of s = of_int r / 10 ^ p" using pos by simp
  have "2 * y \<le> 1" if "y \<le> 1 / 2" for y :: rat using that by simp
  from this [OF round_half_even_error] have "2 * \<bar>of_int r - \<bar>x\<bar> * 10 ^ p\<bar> \<le> 1" by (simp only: r_def)
  moreover have "10 ^ p * \<bar>decimal_value (double_to_string x precision) - x\<bar> = \<bar>of_int r - \<bar>x\<bar> * 10 ^ p\<bar>"
  proof -
    have "\<bar>(if x < 0 then - m else m) - x\<bar> = \<bar>m - \<bar>x\<bar>\<bar>" for m :: rat by (simp split: if_split) linarith
    then have "10 ^ p * \<bar>decimal_value (double_to_string x precision) - x\<bar> = \<bar>10 ^ p * (magnitude_of s - \<bar>x\<bar>)\<bar>"
      by (simp only: printed decimal_value_sign [OF s(3,4)] abs_mult) simp
    also have "\<dots> = \<bar>of_int r - \<bar>x\<bar> * 10 ^ p\<bar>" by (simp add: num algebra_simps)
    finally show ?thesis .
  qed
  moreover have "places_of (double_to_string x precision) = places_of s" by (simp add: printed places_of_def)
  ultimately show ?thesis using s(1) by (simp only: p_def [symmetric] mult.assoc)
qed

end
