(* ===== verification/Statistics.thy ===== *)
theory Statistics
  imports Decimal Worker
begin

text \<open>
  What the programs print about their work, roughly every second: the encoder's \<open>output_periodic_stats\<close>, the
  report on decodable frames in \<open>Decoder::consume_next_frame\<close> and the one on decoding times in
  \<open>Decoder::worker_main\<close>. The text goes to \<open>cerr\<close>, which nothing else depends on, so that the operations of the
  other theories only reset the counters; here is the text, a function of the state before the reset.
\<close>

section \<open>The reports\<close>

abbreviation newline :: bytes where
  "newline \<equiv> [10]"

definition encoder_report :: "'c encoder \<Rightarrow> bytes" where
  "encoder_report e =
     ascii ''Frames encoded in the last ~1s: '' @ to_string (unat (enc_num_encoded_frames e)) @ newline @
     (if enc_num_encoded_frames e > 0
      then ascii ''  - Avg/Max encoding time (ms): '' @
        double_to_string (double_div (enc_total_encode_time_ms e) (double_of_nat (unat (enc_num_encoded_frames e)))) 2 @
        ascii ''/'' @ double_to_string (enc_max_encode_time_ms e) 2 @ newline
      else []) @
     (case (enc_min_rtt_us e, enc_ewma_rtt_us e) of
        (Some min_rtt_us, Some ewma_rtt_us) \<Rightarrow>
          ascii ''  - Min/EWMA RTT (ms): '' @ double_to_string (double_div (double_of_nat (unat min_rtt_us)) 1000) 2 @
          ascii ''/'' @ double_to_string (double_div ewma_rtt_us 1000) 2 @ newline
      | _ \<Rightarrow> [])"

text \<open>A duration in nanoseconds as a number of milliseconds.\<close>

definition milliseconds :: "int \<Rightarrow> double" where
  "milliseconds ns = double_div (fl (of_int ns)) 1000000"

definition decoder_report :: "int \<Rightarrow> decoder \<Rightarrow> bytes" where
  "decoder_report stats_now d =
     ascii ''Decodable frames in the last ~1s: '' @ to_string (unat (dec_num_decodable_frames d)) @ newline @
     (let diff_ms = milliseconds (stats_now - dec_last_stats_time d)
      in if diff_ms > 0
         then ascii ''  - Bitrate (kbps): '' @
           double_to_string (double_div (double_of_nat (dec_total_decodable_frame_size d * 8)) diff_ms) 2 @ newline
         else [])"

definition worker_report :: "'c worker \<Rightarrow> bytes" where
  "worker_report wk =
     (if wk_num_decoded_frames wk > 0
      then ascii ''[worker] Avg/Max decoding time (ms) of '' @ to_string (unat (wk_num_decoded_frames wk)) @
        ascii '' frames: '' @
        double_to_string (double_div (wk_total_decode_time_ms wk) (double_of_nat (unat (wk_num_decoded_frames wk)))) 2 @
        ascii ''/'' @ double_to_string (wk_max_decode_time_ms wk) 2 @ newline
      else [])"

text \<open>The loops of the decoder and of the worker, a report for each of their iterations.\<close>

function decoder_reports :: "int \<Rightarrow> decoder \<Rightarrow> bytes list" where
  "decoder_reports stats_now d =
     (if stats_now \<ge> dec_last_stats_time d + 1000000000
      then decoder_report stats_now d #
        decoder_reports stats_now (d\<lparr>dec_num_decodable_frames := 0, dec_total_decodable_frame_size := 0,
          dec_last_stats_time := dec_last_stats_time d + 1000000000\<rparr>)
      else [])"
  by pat_completeness auto
termination
  by (relation "measure (\<lambda>(now, d). nat (now - dec_last_stats_time d))") auto

function worker_reports :: "int \<Rightarrow> 'c worker \<Rightarrow> bytes list" where
  "worker_reports stats_now wk =
     (if stats_now \<ge> wk_last_stats_time wk + 1000000000
      then worker_report wk #
        worker_reports stats_now (wk\<lparr>wk_num_decoded_frames := 0, wk_total_decode_time_ms := 0,
          wk_max_decode_time_ms := 0, wk_last_stats_time := wk_last_stats_time wk + 1000000000\<rparr>)
      else [])"
  by pat_completeness auto
termination
  by (relation "measure (\<lambda>(now, wk). nat (now - wk_last_stats_time wk))") auto

declare decoder_reports.simps [simp del] worker_reports.simps [simp del]

section \<open>How many reports there are\<close>

text \<open>The whole seconds between two readings of the clock.\<close>

definition whole_seconds :: "int \<Rightarrow> int \<Rightarrow> nat" where
  "whole_seconds now earlier = nat ((now - earlier) div 1000000000)"

lemma whole_seconds_step:
  "whole_seconds now earlier =
    (if earlier + 1000000000 \<le> now then Suc (whole_seconds now (earlier + 1000000000)) else 0)"
proof (cases "earlier + 1000000000 \<le> now")
  case True
  then have "(now - earlier) div 1000000000 = (now - (earlier + 1000000000)) div 1000000000 + 1"
    "0 \<le> (now - (earlier + 1000000000)) div 1000000000"
    using div_add_self2 [of 1000000000 "now - (earlier + 1000000000)"] by (simp_all add: pos_imp_zdiv_nonneg_iff)
  with True show ?thesis by (simp add: whole_seconds_def)
next
  case False
  then have "(now - earlier) div 1000000000 < 1" by linarith
  with False show ?thesis by (simp add: whole_seconds_def)
qed

text \<open>The loop of the decoder in one step: the counters are reset and the time advances by whole seconds.\<close>

lemma stats_loop_advances:
  "stats_loop now d =
    (let n = whole_seconds now (dec_last_stats_time d)
     in if n = 0 then d
        else d\<lparr>dec_num_decodable_frames := 0, dec_total_decodable_frame_size := 0,
          dec_last_stats_time := dec_last_stats_time d + 1000000000 * int n\<rparr>)"
proof (induction now d rule: stats_loop.induct)
  case (1 now d)
  show ?case
  proof (cases "dec_last_stats_time d + 1000000000 \<le> now")
    case True
    with 1 [OF True] show ?thesis
      by (subst stats_loop.simps, subst whole_seconds_step) (simp add: Let_def algebra_simps)
  qed (subst stats_loop.simps, subst whole_seconds_step, simp)
qed

lemma length_decoder_reports: "length (decoder_reports now d) = whole_seconds now (dec_last_stats_time d)"
proof (induction now d rule: decoder_reports.induct)
  case (1 now d)
  then show ?case by (subst decoder_reports.simps, subst whole_seconds_step) simp
qed

lemma worker_stats_loop_advances:
  "worker_stats_loop now wk =
    (let n = whole_seconds now (wk_last_stats_time wk)
     in if n = 0 then wk
        else wk\<lparr>wk_num_decoded_frames := 0, wk_total_decode_time_ms := 0, wk_max_decode_time_ms := 0,
          wk_last_stats_time := wk_last_stats_time wk + 1000000000 * int n\<rparr>)"
proof (induction now wk rule: worker_stats_loop.induct)
  case (1 now wk)
  show ?case
  proof (cases "wk_last_stats_time wk + 1000000000 \<le> now")
    case True
    with 1 [OF True] show ?thesis
      by (subst worker_stats_loop.simps, subst whole_seconds_step) (simp add: Let_def algebra_simps)
  qed (subst worker_stats_loop.simps, subst whole_seconds_step, simp)
qed

lemma length_worker_reports: "length (worker_reports now wk) = whole_seconds now (wk_last_stats_time wk)"
proof (induction now wk rule: worker_reports.induct)
  case (1 now wk)
  then show ?case by (subst worker_reports.simps, subst whole_seconds_step) simp
qed

section \<open>Properties\<close>


end
