(* ===== verification/Epoller.thy ===== *)
theory Epoller
  imports Poller File_Descriptor
begin

text \<open>
  The model of \<open>src/util/epoller.hh\<close> and \<open>epoller.cc\<close>: the event loop over \<open>epoll(7)\<close>, which keeps in
  the kernel a copy of the masks that \<open>Poller\<close> passes to each call. Its operations change the object
  and, through the system calls, the kernel.
\<close>

section \<open>State and system calls\<close>

record 'w epoll_os =
  ep_create :: "'w \<Rightarrow> int \<times> 'w"
  ep_add :: "int \<Rightarrow> int \<Rightarrow> u32 \<Rightarrow> 'w \<Rightarrow> int \<times> 'w"
  ep_mod :: "int \<Rightarrow> int \<Rightarrow> u32 \<Rightarrow> 'w \<Rightarrow> int \<times> 'w"
  ep_del :: "int \<Rightarrow> int \<Rightarrow> 'w \<Rightarrow> int \<times> 'w"
  ep_wait :: "int \<Rightarrow> nat \<Rightarrow> int \<Rightarrow> 'w \<Rightarrow> (int \<times> (int \<times> u32) list) \<times> 'w"

record 'cb epoller =
  ep_fd :: int
  ep_roster :: "'cb roster"
  ep_active :: "int \<Rightarrow> u32 option"
  ep_leaving :: "int set"

definition MAX_EVENTS :: nat where
  "MAX_EVENTS = 32"

definition epoller_open :: "'w epoll_os \<Rightarrow> 'w \<Rightarrow> 'cb epoller result \<times> 'w" where
  "epoller_open ep w =
     (let (r, w') = ep_create ep w
      in (bind_result (check_syscall r) (\<lambda>fd.
            Inr \<lparr>ep_fd = fd, ep_roster = Map.empty, ep_active = Map.empty, ep_leaving = {}\<rparr>), w'))"

text \<open>The destructor only reports a failure to close.\<close>

definition epoller_destroy :: "'w os \<Rightarrow> 'cb epoller \<Rightarrow> 'w \<Rightarrow> 'w" where
  "epoller_destroy os e w = snd (sys_close os (ep_fd e) w)"

type_synonym ('cb, 'w, 'a) epoller_action = "('cb epoller \<times> 'w, 'a) action"

text \<open>\<open>epoll_add\<close>, \<open>epoll_mod\<close> and the removal, each a checked call of \<open>epoll_ctl\<close>.\<close>

definition checked_ctl :: "('w \<Rightarrow> int \<times> 'w) \<Rightarrow> ('cb, 'w, unit) epoller_action" where
  "checked_ctl ctl = (\<lambda>(e, w). let (r, w') = ctl w in (bind_result (check_syscall r) (\<lambda>_. Inr ()), e, w'))"

definition epoll_add :: "'w epoll_os \<Rightarrow> int \<Rightarrow> u32 \<Rightarrow> ('cb, 'w, unit) epoller_action" where
  "epoll_add ep fd events = (\<lambda>(e, w). checked_ctl (ep_add ep (ep_fd e) fd events) (e, w))"

definition epoll_mod :: "'w epoll_os \<Rightarrow> int \<Rightarrow> u32 \<Rightarrow> ('cb, 'w, unit) epoller_action" where
  "epoll_mod ep fd events = (\<lambda>(e, w). checked_ctl (ep_mod ep (ep_fd e) fd events) (e, w))"

definition epoll_del :: "'w epoll_os \<Rightarrow> int \<Rightarrow> ('cb, 'w, unit) epoller_action" where
  "epoll_del ep fd = (\<lambda>(e, w). checked_ctl (ep_del ep (ep_fd e) fd) (e, w))"

section \<open>Requests\<close>

definition epoller_register :: "'w epoll_os \<Rightarrow> int \<Rightarrow> flag \<Rightarrow> 'cb \<Rightarrow> ('cb, 'w, unit) epoller_action" where
  "epoller_register ep fd f callback = (\<lambda>(e, w).
     case ep_roster e fd of
       None \<Rightarrow> epoll_add ep fd (flag_value f)
         (e\<lparr>ep_roster := (ep_roster e)(fd \<mapsto> [f \<mapsto> callback]),
            ep_active := (ep_active e)(fd \<mapsto> flag_value f)\<rparr>, w)
     | Some callbacks \<Rightarrow>
         if callbacks f \<noteq> None
         then (Inl (Runtime_Error ''attempted to register the same event''), e, w)
         else let events = (case ep_active e fd of None \<Rightarrow> 0 | Some events \<Rightarrow> events) OR flag_value f
              in epoll_mod ep fd events
                   (e\<lparr>ep_roster := (ep_roster e)(fd \<mapsto> callbacks(f \<mapsto> callback)),
                      ep_active := (ep_active e)(fd \<mapsto> events)\<rparr>, w))"

definition epoller_activate :: "'w epoll_os \<Rightarrow> int \<Rightarrow> flag \<Rightarrow> ('cb, 'w, unit) epoller_action" where
  "epoller_activate ep fd f = (\<lambda>(e, w).
     case ep_active e fd of
       None \<Rightarrow> (Inl (Out_Of_Range ''unordered_map::at''), e, w)
     | Some events \<Rightarrow>
         if has_flag events f then (Inr (), e, w)
         else epoll_mod ep fd (events OR flag_value f)
                (e\<lparr>ep_active := (ep_active e)(fd \<mapsto> events OR flag_value f)\<rparr>, w))"

definition epoller_deactivate :: "'w epoll_os \<Rightarrow> int \<Rightarrow> flag \<Rightarrow> ('cb, 'w, unit) epoller_action" where
  "epoller_deactivate ep fd f = (\<lambda>(e, w).
     case ep_active e fd of
       None \<Rightarrow> (Inl (Out_Of_Range ''unordered_map::at''), e, w)
     | Some events \<Rightarrow>
         if \<not> has_flag events f then (Inr (), e, w)
         else epoll_mod ep fd (events AND NOT (flag_value f))
                (e\<lparr>ep_active := (ep_active e)(fd \<mapsto> events AND NOT (flag_value f))\<rparr>, w))"

definition epoller_deregister :: "int \<Rightarrow> ('cb, 'w, unit) epoller_action" where
  "epoller_deregister fd = (\<lambda>(e, w). (Inr (), e\<lparr>ep_leaving := insert fd (ep_leaving e)\<rparr>, w))"

fun epoller_request :: "'w epoll_os \<Rightarrow> 'cb request \<Rightarrow> ('cb, 'w, unit) epoller_action" where
  "epoller_request ep (Register fd f callback) = epoller_register ep fd f callback"
| "epoller_request ep (Activate fd f) = epoller_activate ep fd f"
| "epoller_request ep (Deactivate fd f) = epoller_deactivate ep fd f"
| "epoller_request ep (Deregister fd) = epoller_deregister fd"

section \<open>Polling\<close>

text \<open>
  The removal in the order in which the set is traversed. A failing call leaves the loop with the set
  not cleared.
\<close>

fun deregister_loop :: "'w epoll_os \<Rightarrow> int list \<Rightarrow> ('cb, 'w, unit) epoller_action" where
  "deregister_loop ep [] = return_action ()"
| "deregister_loop ep (fd # fds) = (\<lambda>(e, w).
     bind_action (epoll_del ep fd) (\<lambda>_. deregister_loop ep fds)
       (e\<lparr>ep_roster := (ep_roster e)(fd := None), ep_active := (ep_active e)(fd := None)\<rparr>, w))"

definition epoller_do_deregister :: "'w epoll_os \<Rightarrow> int list \<Rightarrow> ('cb, 'w, unit) epoller_action" where
  "epoller_do_deregister ep order =
     bind_action (deregister_loop ep order) (\<lambda>_ (e, w). (Inr (), e\<lparr>ep_leaving := {}\<rparr>, w))"

abbreviation epoller_roster :: "'cb epoller \<times> 'w \<Rightarrow> 'cb roster" where
  "epoller_roster s \<equiv> ep_roster (fst s)"

text \<open>
  \<open>event_list\<close> is a static array: a callback that polls in turn would overwrite it, which the callbacks
  of this model do not do. \<open>epoll_wait\<close> fills the first \<open>nfds\<close> entries.
\<close>

definition epoller_poll :: "'w epoll_os \<Rightarrow> ('cb, 'cb epoller \<times> 'w) callbacks \<Rightarrow> int list \<Rightarrow> (int \<Rightarrow> flag list) \<Rightarrow> int
    \<Rightarrow> ('cb epoller \<times> 'w, unit) process" where
  "epoller_poll ep run order flag_order timeout_ms =
     bind_process (total (epoller_do_deregister ep order)) (\<lambda>_ (e, w).
       let ((r, event_list), w') = ep_wait ep (ep_fd e) MAX_EVENTS timeout_ms w
       in case check_syscall r of
            Inl err \<Rightarrow> Some (Inl err, e, w')
          | Inr nfds \<Rightarrow> dispatch epoller_roster run flag_order
              (map (\<lambda>(fd, revents). (fd, \<lambda>_. True, revents)) (take (nat nfds) event_list)) (e, w'))"

section \<open>What the code relies on of the kernel\<close>

text \<open>
  \<open>interest w\<close> is the interest list of the epoll instance: the mask of each monitored descriptor.
  Adding a new pollable descriptor, changing and removing one of the list succeed; waiting reports at
  most \<open>MAX_EVENTS\<close> members of the list, each once, with flags that were asked for, and leaves the list alone.
\<close>

definition epoll_contract :: "'w epoll_os \<Rightarrow> int \<Rightarrow> int set \<Rightarrow> ('w \<Rightarrow> int \<Rightarrow> u32 option) \<Rightarrow> bool" where
  "epoll_contract ep epfd valid interest \<longleftrightarrow>
     (\<forall>w fd events. fd \<in> valid \<and> interest w fd = None \<longrightarrow>
        (\<exists>w'. ep_add ep epfd fd events w = (0, w') \<and> interest w' = (interest w)(fd \<mapsto> events))) \<and>
     (\<forall>w fd events. interest w fd \<noteq> None \<longrightarrow>
        (\<exists>w'. ep_mod ep epfd fd events w = (0, w') \<and> interest w' = (interest w)(fd \<mapsto> events))) \<and>
     (\<forall>w fd. interest w fd \<noteq> None \<longrightarrow>
        (\<exists>w'. ep_del ep epfd fd w = (0, w') \<and> interest w' = (interest w)(fd := None))) \<and>
     (\<forall>w timeout_ms. \<exists>event_list w'. ep_wait ep epfd MAX_EVENTS timeout_ms w =
          ((int (length event_list), event_list), w') \<and> interest w' = interest w \<and>
        length event_list \<le> MAX_EVENTS \<and> distinct (map fst event_list) \<and>
        (\<forall>(fd, revents) \<in> set event_list. \<exists>events. interest w fd = Some events \<and>
           (\<forall>f. has_flag revents f \<longrightarrow> has_flag events f)))"

section \<open>Refinement of the poller\<close>

text \<open>
  An \<open>Epoller\<close> is a \<open>Poller\<close> whose masks are also in the kernel: \<open>as_poller\<close> forgets the epoll instance
  and the width of the masks, and the interest list of the kernel is the map \<open>active_events_\<close>.
\<close>

definition as_poller :: "'cb epoller \<Rightarrow> 'cb poller" where
  "as_poller e =
     \<lparr>pl_roster = ep_roster e, pl_active = (\<lambda>fd. map_option ucast (ep_active e fd)), pl_leaving = ep_leaving e\<rparr>"

definition mirrored :: "int \<Rightarrow> ('w \<Rightarrow> int \<Rightarrow> u32 option) \<Rightarrow> 'cb epoller \<times> 'w \<Rightarrow> bool" where
  "mirrored epfd interest s = (case s of (e, w) \<Rightarrow>
     ep_fd e = epfd \<and> interest w = ep_active e \<and> (\<forall>fd. ep_roster e fd = None \<longleftrightarrow> ep_active e fd = None))"

lemma mirrored_domain: "mirrored epfd interest (e, w) \<Longrightarrow> ep_roster e fd = None \<longleftrightarrow> ep_active e fd = None"
  by (simp add: mirrored_def)

lemma ucast_masks [simp]:
  "ucast (flag_value f :: u32) = (flag_value f :: u16)"
  "ucast (a OR b :: u32) = (ucast a OR ucast b :: u16)"
  "ucast (a AND NOT b :: u32) = (ucast a AND NOT (ucast b) :: u16)"
  "has_flag (ucast (a :: u32) :: u16) f = has_flag a f"
proof -
  show "has_flag (ucast (a :: u32) :: u16) f = has_flag a f"
    using flag_index_less [of f] by (simp add: has_flag_bit bit_ucast_iff)
qed (auto simp: flag_value_def bit_ucast_iff bit_or_iff bit_and_iff bit_not_iff intro!: bit_word_eqI
    split: flag.split)

lemma or_has_flag: "has_flag (a :: 'a::len word) f \<Longrightarrow> a OR flag_value f = a"
  by (rule bit_word_eqI) (auto simp: has_flag_bit flag_value_exp bit_or_iff bit_exp_iff)

lemma and_not_has_flag: "\<not> has_flag (a :: 'a::len word) f \<Longrightarrow> a AND NOT (flag_value f) = a"
  by (rule bit_word_eqI) (auto simp: has_flag_bit flag_value_exp bit_and_iff bit_not_iff bit_exp_iff)

lemma contract_add:
  assumes "epoll_contract ep epfd valid interest" and "ep_fd e = epfd" and "fd \<in> valid"
    and "interest w fd = None"
  obtains w' where "epoll_add ep fd events (e, w) = (Inr (), e, w')"
    and "interest w' = (interest w)(fd \<mapsto> events)"
proof -
  obtain w' where "ep_add ep epfd fd events w = (0, w')" "interest w' = (interest w)(fd \<mapsto> events)"
    using assms(1,3,4) unfolding epoll_contract_def by blast
  then show ?thesis
    using that assms(2) by (simp add: epoll_add_def checked_ctl_def check_syscall_int)
qed

lemma contract_mod:
  assumes "epoll_contract ep epfd valid interest" and "ep_fd e = epfd" and "interest w fd \<noteq> None"
  obtains w' where "epoll_mod ep fd events (e, w) = (Inr (), e, w')"
    and "interest w' = (interest w)(fd \<mapsto> events)"
proof -
  obtain w' where "ep_mod ep epfd fd events w = (0, w')" "interest w' = (interest w)(fd \<mapsto> events)"
    using assms(1,3) unfolding epoll_contract_def by blast
  then show ?thesis
    using that assms(2) by (simp add: epoll_mod_def checked_ctl_def check_syscall_int)
qed

lemma contract_del:
  assumes "epoll_contract ep epfd valid interest" and "ep_fd e = epfd" and "interest w fd \<noteq> None"
  obtains w' where "epoll_del ep fd (e, w) = (Inr (), e, w')"
    and "interest w' = (interest w)(fd := None)"
proof -
  obtain w' where "ep_del ep epfd fd w = (0, w')" "interest w' = (interest w)(fd := None)"
    using assms(1,3) unfolding epoll_contract_def by blast
  then show ?thesis
    using that assms(2) by (simp add: epoll_del_def checked_ctl_def check_syscall_int)
qed

definition monitorable :: "int set \<Rightarrow> 'cb request \<Rightarrow> bool" where
  "monitorable valid req = (case req of Register fd _ _ \<Rightarrow> fd \<in> valid | _ \<Rightarrow> True)"

lemma as_poller_upd:
  "as_poller (e\<lparr>ep_active := (ep_active e)(fd \<mapsto> events)\<rparr>) =
     (as_poller e)\<lparr>pl_active := (pl_active (as_poller e))(fd \<mapsto> ucast events)\<rparr>"
  "as_poller (e\<lparr>ep_roster := m, ep_active := (ep_active e)(fd \<mapsto> events)\<rparr>) =
     (as_poller e)\<lparr>pl_roster := m, pl_active := (pl_active (as_poller e))(fd \<mapsto> ucast events)\<rparr>"
  by (auto simp: as_poller_def fun_eq_iff)

lemma as_poller_sel:
  "pl_roster (as_poller e) = ep_roster e"
  "pl_active (as_poller e) fd = map_option ucast (ep_active e fd)"
  "pl_leaving (as_poller e) = ep_leaving e"
  by (simp_all add: as_poller_def)

lemma as_poller_same_mask:
  "ep_active e fd = Some events \<Longrightarrow>
   (as_poller e)\<lparr>pl_active := (pl_active (as_poller e))(fd \<mapsto> ucast events)\<rparr> = as_poller e"
  by (simp add: as_poller_def fun_eq_iff)

lemma epoller_mod_simulates:
  assumes "epoll_contract ep epfd valid interest" and "mirrored epfd interest (e, w)"
    and "ep_active e fd \<noteq> None" and "m fd \<noteq> None" and "\<forall>fd'. fd' \<noteq> fd \<longrightarrow> m fd' = ep_roster e fd'"
  obtains w' where "epoll_mod ep fd events (e\<lparr>ep_roster := m, ep_active := (ep_active e)(fd \<mapsto> events)\<rparr>, w) =
      (Inr (), e\<lparr>ep_roster := m, ep_active := (ep_active e)(fd \<mapsto> events)\<rparr>, w')"
    and "mirrored epfd interest (e\<lparr>ep_roster := m, ep_active := (ep_active e)(fd \<mapsto> events)\<rparr>, w')"
proof -
  let ?e = "e\<lparr>ep_roster := m, ep_active := (ep_active e)(fd \<mapsto> events)\<rparr>"
  have "ep_fd ?e = epfd" "interest w fd \<noteq> None" using assms(2,3) by (auto simp: mirrored_def)
  from contract_mod [OF assms(1) this, of events] obtain w' where
    "epoll_mod ep fd events (?e, w) = (Inr (), ?e, w')" "interest w' = (interest w)(fd \<mapsto> events)" .
  moreover from this have "mirrored epfd interest (?e, w')"
    using assms(2,4,5) by (auto simp: mirrored_def)
  ultimately show ?thesis using that by blast
qed

lemma epoller_register_simulates:
  assumes "epoll_contract ep epfd valid interest" and "mirrored epfd interest (e, w)" and "fd \<in> valid"
  shows "\<exists>e' w'. epoller_register ep fd f cb (e, w) = (fst (poller_register fd f cb (as_poller e)), e', w') \<and>
    as_poller e' = snd (poller_register fd f cb (as_poller e)) \<and> mirrored epfd interest (e', w')"
proof (cases "ep_roster e fd")
  case None
  let ?e = "e\<lparr>ep_roster := (ep_roster e)(fd \<mapsto> [f \<mapsto> cb]), ep_active := (ep_active e)(fd \<mapsto> flag_value f)\<rparr>"
  have "ep_fd ?e = epfd" "interest w fd = None" using assms(2) None by (auto simp: mirrored_def)
  from contract_add [OF assms(1) this(1) assms(3) this(2), of "flag_value f"] obtain w' where
    w': "epoll_add ep fd (flag_value f) (?e, w) = (Inr (), ?e, w')"
    "interest w' = (interest w)(fd \<mapsto> flag_value f)" .
  have "mirrored epfd interest (?e, w')" using assms(2) w'(2) by (auto simp: mirrored_def)
  with None w'(1) show ?thesis
    by (simp add: epoller_register_def poller_register_def as_poller_sel as_poller_upd)
next
  case (Some callbacks)
  then obtain events where ev: "ep_active e fd = Some events"
    using assms(2) by (cases "ep_active e fd") (auto simp: mirrored_def dest: spec [of _ fd])
  show ?thesis
  proof (cases "callbacks f")
    case None
    let ?m = "(ep_roster e)(fd \<mapsto> callbacks(f \<mapsto> cb))"
    obtain w' where "epoll_mod ep fd (events OR flag_value f)
        (e\<lparr>ep_roster := ?m, ep_active := (ep_active e)(fd \<mapsto> events OR flag_value f)\<rparr>, w) =
      (Inr (), e\<lparr>ep_roster := ?m, ep_active := (ep_active e)(fd \<mapsto> events OR flag_value f)\<rparr>, w')"
      "mirrored epfd interest (e\<lparr>ep_roster := ?m, ep_active := (ep_active e)(fd \<mapsto> events OR flag_value f)\<rparr>, w')"
      by (rule epoller_mod_simulates [OF assms(1,2), of fd ?m "events OR flag_value f"]) (use ev in auto)
    with Some None ev show ?thesis
      by (simp add: epoller_register_def poller_register_def as_poller_sel as_poller_upd)
  next
    case Some': (Some _)
    with Some assms(2) show ?thesis by (simp add: epoller_register_def poller_register_def as_poller_sel)
  qed
qed

lemma epoller_mask_simulates:
  assumes "epoll_contract ep epfd valid interest" and "mirrored epfd interest (e, w)"
    and "ep_active e fd \<noteq> None"
  obtains w' where "epoll_mod ep fd events (e\<lparr>ep_active := (ep_active e)(fd \<mapsto> events)\<rparr>, w) =
      (Inr (), e\<lparr>ep_active := (ep_active e)(fd \<mapsto> events)\<rparr>, w')"
    and "mirrored epfd interest (e\<lparr>ep_active := (ep_active e)(fd \<mapsto> events)\<rparr>, w')"
  by (rule epoller_mod_simulates [OF assms, of "ep_roster e" events])
    (use assms(2,3) in \<open>auto simp: mirrored_def\<close>)

lemma epoller_activate_simulates:
  assumes "epoll_contract ep epfd valid interest" and "mirrored epfd interest (e, w)"
  shows "\<exists>e' w'. epoller_activate ep fd f (e, w) = (fst (poller_activate fd f (as_poller e)), e', w') \<and>
    as_poller e' = snd (poller_activate fd f (as_poller e)) \<and> mirrored epfd interest (e', w')"
proof (cases "ep_active e fd")
  case None
  then show ?thesis using assms(2) by (simp add: epoller_activate_def poller_activate_def as_poller_sel)
next
  case (Some events)
  show ?thesis
  proof (cases "has_flag events f")
    case True
    then have "ucast events OR flag_value f = (ucast events :: u16)" by (simp add: or_has_flag)
    with True Some assms(2) show ?thesis
      by (simp add: epoller_activate_def poller_activate_def as_poller_sel as_poller_same_mask)
  next
    case False
    obtain w' where "epoll_mod ep fd (events OR flag_value f)
        (e\<lparr>ep_active := (ep_active e)(fd \<mapsto> events OR flag_value f)\<rparr>, w) =
      (Inr (), e\<lparr>ep_active := (ep_active e)(fd \<mapsto> events OR flag_value f)\<rparr>, w')"
      "mirrored epfd interest (e\<lparr>ep_active := (ep_active e)(fd \<mapsto> events OR flag_value f)\<rparr>, w')"
      by (rule epoller_mask_simulates [OF assms, of fd "events OR flag_value f"]) (use Some in auto)
    with False Some show ?thesis
      by (simp add: epoller_activate_def poller_activate_def as_poller_sel as_poller_upd)
  qed
qed

lemma epoller_deactivate_simulates:
  assumes "epoll_contract ep epfd valid interest" and "mirrored epfd interest (e, w)"
  shows "\<exists>e' w'. epoller_deactivate ep fd f (e, w) = (fst (poller_deactivate fd f (as_poller e)), e', w') \<and>
    as_poller e' = snd (poller_deactivate fd f (as_poller e)) \<and> mirrored epfd interest (e', w')"
proof (cases "ep_active e fd")
  case None
  then show ?thesis using assms(2) by (simp add: epoller_deactivate_def poller_deactivate_def as_poller_sel)
next
  case (Some events)
  show ?thesis
  proof (cases "has_flag events f")
    case True
    obtain w' where "epoll_mod ep fd (events AND NOT (flag_value f))
        (e\<lparr>ep_active := (ep_active e)(fd \<mapsto> events AND NOT (flag_value f))\<rparr>, w) =
      (Inr (), e\<lparr>ep_active := (ep_active e)(fd \<mapsto> events AND NOT (flag_value f))\<rparr>, w')"
      "mirrored epfd interest (e\<lparr>ep_active := (ep_active e)(fd \<mapsto> events AND NOT (flag_value f))\<rparr>, w')"
      by (rule epoller_mask_simulates [OF assms, of fd "events AND NOT (flag_value f)"]) (use Some in auto)
    with True Some show ?thesis
      by (simp add: epoller_deactivate_def poller_deactivate_def as_poller_sel as_poller_upd)
  next
    case False
    then have "ucast events AND NOT (flag_value f) = (ucast events :: u16)" by (simp add: and_not_has_flag)
    with False Some assms(2) show ?thesis
      by (simp add: epoller_deactivate_def poller_deactivate_def as_poller_sel as_poller_same_mask)
  qed
qed

lemma epoller_request_simulates:
  assumes "epoll_contract ep epfd valid interest" and "mirrored epfd interest (e, w)" and "monitorable valid req"
  shows "\<exists>e' w'. epoller_request ep req (e, w) = (fst (poller_request req (as_poller e)), e', w') \<and>
    as_poller e' = snd (poller_request req (as_poller e)) \<and> mirrored epfd interest (e', w')"
proof (cases req)
  case (Register fd f cb)
  then show ?thesis using epoller_register_simulates [OF assms(1,2), of fd f cb] assms(3)
    by (simp add: monitorable_def)
next
  case (Activate fd f)
  then show ?thesis using epoller_activate_simulates [OF assms(1,2), of fd f] by simp
next
  case (Deactivate fd f)
  then show ?thesis using epoller_deactivate_simulates [OF assms(1,2), of fd f] by simp
next
  case (Deregister fd)
  then show ?thesis
    using assms(2) by (simp add: epoller_deregister_def poller_deregister_def as_poller_def mirrored_def)
qed

lemma perform_simulates:
  assumes "epoll_contract ep epfd valid interest" and "mirrored epfd interest (e, w)"
    and "\<forall>req \<in> set reqs. monitorable valid req"
  shows "\<exists>e' w'. perform (epoller_request ep) reqs (e, w) =
      (fst (perform poller_request reqs (as_poller e)), e', w') \<and>
    as_poller e' = snd (perform poller_request reqs (as_poller e)) \<and> mirrored epfd interest (e', w')"
  using assms(2,3)
proof (induction reqs arbitrary: e w)
  case (Cons req reqs)
  obtain e1 w1 where step: "epoller_request ep req (e, w) = (fst (poller_request req (as_poller e)), e1, w1)"
    "as_poller e1 = snd (poller_request req (as_poller e))" "mirrored epfd interest (e1, w1)"
    using epoller_request_simulates [OF assms(1) Cons.prems(1)] Cons.prems(2) by fastforce
  obtain r p1 where p1: "poller_request req (as_poller e) = (r, p1)" by (cases "poller_request req (as_poller e)")
  show ?case
  proof (cases r)
    case (Inl err)
    with step p1 show ?thesis by (simp add: perform_Cons_bind bind_action_def)
  next
    case (Inr _)
    with step p1 Cons.IH [OF step(3)] Cons.prems(2) show ?thesis
      by (simp add: perform_Cons_bind bind_action_def)
  qed
qed simp

section \<open>Polling\<close>

lemma deregister_loop_simulates:
  assumes "epoll_contract ep epfd valid interest" and "mirrored epfd interest (e, w)"
    and "distinct order" and "\<forall>fd \<in> set order. ep_active e fd \<noteq> None"
  shows "\<exists>e' w'. deregister_loop ep order (e, w) = (Inr (), e', w') \<and> mirrored epfd interest (e', w') \<and>
    ep_roster e' = (\<lambda>fd. if fd \<in> set order then None else ep_roster e fd) \<and>
    ep_active e' = (\<lambda>fd. if fd \<in> set order then None else ep_active e fd) \<and> ep_leaving e' = ep_leaving e"
  using assms(2,3,4)
proof (induction order arbitrary: e w)
  case Nil
  then show ?case by (simp add: return_action_def)
next
  case (Cons fd order)
  let ?e = "e\<lparr>ep_roster := (ep_roster e)(fd := None), ep_active := (ep_active e)(fd := None)\<rparr>"
  have "ep_fd ?e = epfd" "interest w fd \<noteq> None" using Cons.prems by (auto simp: mirrored_def)
  from contract_del [OF assms(1) this] obtain w1 where
    w1: "epoll_del ep fd (?e, w) = (Inr (), ?e, w1)" "interest w1 = (interest w)(fd := None)" .
  have mir: "mirrored epfd interest (?e, w1)" using Cons.prems(1) w1(2) by (auto simp: mirrored_def)
  have "distinct order" "\<forall>fd' \<in> set order. ep_active ?e fd' \<noteq> None"
    using Cons.prems(2,3) by auto
  from Cons.IH [OF mir this] obtain e' w' where e': "deregister_loop ep order (?e, w1) = (Inr (), e', w')"
    "mirrored epfd interest (e', w')"
    "ep_roster e' = (\<lambda>fd'. if fd' \<in> set order then None else ep_roster ?e fd')"
    "ep_active e' = (\<lambda>fd'. if fd' \<in> set order then None else ep_active ?e fd')"
    "ep_leaving e' = ep_leaving ?e" by blast
  have "deregister_loop ep (fd # order) (e, w) = (Inr (), e', w')"
    using w1(1) e'(1) by (simp add: bind_action_def)
  moreover have "ep_roster e' = (\<lambda>fd'. if fd' \<in> set (fd # order) then None else ep_roster e fd')"
    "ep_active e' = (\<lambda>fd'. if fd' \<in> set (fd # order) then None else ep_active e fd')"
    using e'(3,4) by (auto simp: fun_eq_iff)
  ultimately show ?case using e'(2,5) by simp
qed

lemma epoller_do_deregister_simulates:
  assumes "epoll_contract ep epfd valid interest" and "mirrored epfd interest (e, w)"
    and "distinct order" and "set order = ep_leaving e" and "\<forall>fd \<in> ep_leaving e. ep_active e fd \<noteq> None"
  obtains e' w' where "epoller_do_deregister ep order (e, w) = (Inr (), e', w')"
    and "mirrored epfd interest (e', w')" and "as_poller e' = poller_do_deregister (as_poller e)"
proof -
  obtain e1 w1 where e1: "deregister_loop ep order (e, w) = (Inr (), e1, w1)" "mirrored epfd interest (e1, w1)"
    "ep_roster e1 = (\<lambda>fd. if fd \<in> set order then None else ep_roster e fd)"
    "ep_active e1 = (\<lambda>fd. if fd \<in> set order then None else ep_active e fd)"
    using deregister_loop_simulates [OF assms(1,2,3)] assms(4,5) by blast
  let ?e = "e1\<lparr>ep_leaving := {}\<rparr>"
  have "epoller_do_deregister ep order (e, w) = (Inr (), ?e, w1)"
    using e1(1) by (simp add: epoller_do_deregister_def bind_action_def)
  moreover have "mirrored epfd interest (?e, w1)" using e1(2) by (simp add: mirrored_def)
  moreover have "as_poller ?e = poller_do_deregister (as_poller e)"
    using e1(3,4) assms(4) by (auto simp: as_poller_def poller_do_deregister_def fun_eq_iff)
  ultimately show ?thesis using that by blast
qed

text \<open>
  A kernel for the interface: the world is the interest list, every descriptor can be monitored, and
  waiting reports nothing.
\<close>

definition list_epoll :: "(int \<Rightarrow> u32 option) epoll_os" where
  "list_epoll =
     \<lparr>ep_create = (\<lambda>w. (3, w)),
      ep_add = (\<lambda>_ fd events w. if w fd = None then (0, w(fd \<mapsto> events)) else (- 1, w)),
      ep_mod = (\<lambda>_ fd events w. if w fd = None then (- 1, w) else (0, w(fd \<mapsto> events))),
      ep_del = (\<lambda>_ fd w. if w fd = None then (- 1, w) else (0, w(fd := None))),
      ep_wait = (\<lambda>_ _ _ w. ((0, []), w))\<rparr>"

lemma list_epoll_contract: "epoll_contract list_epoll epfd valid (\<lambda>w. w)"
  by (auto simp: epoll_contract_def list_epoll_def)

definition epoller_inv :: "int \<Rightarrow> ('w \<Rightarrow> int \<Rightarrow> u32 option) \<Rightarrow> 'cb epoller \<times> 'w \<Rightarrow> bool" where
  "epoller_inv epfd interest s = (mirrored epfd interest s \<and> poller_inv (as_poller (fst s)))"

lemma epoller_request_refines:
  assumes "epoll_contract ep epfd valid interest" and "epoller_inv epfd interest s"
    and "request_allowed valid req (poller_abs (as_poller (fst s)))"
  shows "\<exists>t. epoller_request ep req s = (Inr (), t) \<and> epoller_inv epfd interest t \<and>
    poller_abs (as_poller (fst t)) = registry_request req (poller_abs (as_poller (fst s)))"
proof -
  obtain e w where s: "s = (e, w)" by (cases s)
  have inv: "mirrored epfd interest (e, w)" "poller_inv (as_poller e)" using assms(2) by (simp_all add: s epoller_inv_def)
  have "monitorable valid req" using assms(3) by (cases req) (auto simp: monitorable_def)
  moreover obtain p where "poller_request req (as_poller e) = (Inr (), p)" "poller_inv p"
    "poller_abs p = registry_request req (poller_abs (as_poller e))"
    using poller_request_refines [OF inv(2)] assms(3) by (auto simp: s)
  ultimately show ?thesis
    using epoller_request_simulates [OF assms(1) inv(1), of req] by (auto simp: s epoller_inv_def)
qed

lemma epoller_request_errors:
  assumes "epoller_inv epfd interest s"
  shows "reg_events (poller_abs (as_poller (fst s))) (fd, f) \<noteq> None \<Longrightarrow> epoller_request ep (Register fd f cb) s =
      (Inl (Runtime_Error ''attempted to register the same event''), s)"
    and "\<forall>f. reg_events (poller_abs (as_poller (fst s))) (fd, f) = None \<Longrightarrow>
      req = Activate fd f \<or> req = Deactivate fd f \<Longrightarrow>
      epoller_request ep req s = (Inl (Out_Of_Range ''unordered_map::at''), s)"
proof -
  obtain e w where s: "s = (e, w)" by (cases s)
  have inv: "poller_inv (as_poller e)" using assms by (simp add: s epoller_inv_def)
  show "epoller_request ep (Register fd f cb) s =
      (Inl (Runtime_Error ''attempted to register the same event''), s)"
    if known: "reg_events (poller_abs (as_poller (fst s))) (fd, f) \<noteq> None"
  proof -
    obtain callbacks where "ep_roster e fd = Some callbacks" "callbacks f \<noteq> None"
      using known [unfolded poller_registered_iff] unfolding s fst_conv as_poller_sel by (elim exE conjE)
    then show ?thesis by (simp add: s epoller_register_def)
  qed
  show "epoller_request ep req s = (Inl (Out_Of_Range ''unordered_map::at''), s)"
    if "\<forall>f. reg_events (poller_abs (as_poller (fst s))) (fd, f) = None" "req = Activate fd f \<or> req = Deactivate fd f"
  proof -
    have "ep_active e fd = None"
      using poller_unknown_descriptor [OF inv, of fd] that(1) by (simp add: s as_poller_sel)
    then show ?thesis using that(2) by (auto simp: s epoller_activate_def epoller_deactivate_def)
  qed
qed

interpretation epoller: event_registry "epoller_inv 3 (\<lambda>w. w)" "\<lambda>s. poller_abs (as_poller (fst s))" UNIV
  "epoller_request list_epoll"
  by unfold_locales
    (rule epoller_request_refines [OF list_epoll_contract], assumption+,
     rule epoller_request_errors(1), assumption+, rule epoller_request_errors(2), assumption+)

lemma epoller_poll_ready:
  assumes "epoll_contract ep epfd valid interest" and "epoller_inv epfd interest (e, w)"
    and "keeps_roster epoller_roster run"
    and "distinct order" and "set order = ep_leaving e" and "\<forall>fd \<in> ep_leaving e. ep_active e fd \<noteq> None"
    and "\<forall>fd. distinct (flag_order fd) \<and> set (flag_order fd) = UNIV"
  shows "\<exists>e' w' evs. epoller_poll ep run order flag_order timeout_ms (e, w) =
      run_callbacks run (callbacks_of (ep_roster e') evs) (e', w') \<and>
    epoller_inv epfd interest (e', w') \<and> as_poller e' = poller_do_deregister (as_poller e) \<and>
    distinct evs \<and> (\<forall>(fd, f) \<in> set evs. poller_requested (as_poller e') fd f)"
proof -
  obtain e1 w1 where e1: "epoller_do_deregister ep order (e, w) = (Inr (), e1, w1)"
    "mirrored epfd interest (e1, w1)" "as_poller e1 = poller_do_deregister (as_poller e)"
    using epoller_do_deregister_simulates [OF assms(1) _ assms(4,5,6)] assms(2) by (auto simp: epoller_inv_def)
  have pinv: "poller_inv (as_poller e1)"
    using assms(2) poller_do_deregister_inv [of "as_poller e"] by (simp add: e1(3) epoller_inv_def)
  have fd1: "ep_fd e1 = epfd" and interest1: "interest w1 = ep_active e1" using e1(2) by (simp_all add: mirrored_def)
  obtain event_list w2 where wait: "ep_wait ep epfd MAX_EVENTS timeout_ms w1 = ((int (length event_list), event_list), w2)"
    "interest w2 = interest w1" "length event_list \<le> MAX_EVENTS" "distinct (map fst event_list)"
    "\<forall>(fd, revents) \<in> set event_list. \<exists>events. interest w1 fd = Some events \<and>
       (\<forall>f. has_flag revents f \<longrightarrow> has_flag events f)"
    using assms(1) unfolding epoll_contract_def by blast
  let ?its = "map (\<lambda>(fd, revents). (fd, \<lambda>_ :: flag. True, revents)) event_list"
  let ?evs = "ready_events (ep_roster e1) flag_order ?its"
  have known: "\<forall>(fd, asked, revents) \<in> set ?its. ep_roster e1 fd \<noteq> None \<and> (\<forall>f. has_flag revents f \<longrightarrow> asked f)"
  proof clarsimp
    fix fd revents
    assume "(fd, revents) \<in> set event_list"
    then have "ep_active e1 fd \<noteq> None" using wait(5) interest1 by fastforce
    then show "\<exists>y. ep_roster e1 fd = Some y" using mirrored_domain [OF e1(2), of fd] by (cases "ep_roster e1 fd") simp_all
  qed
  have "check_syscall (int (length event_list)) = Inr (int (length event_list))"
    using wait(3) by (simp add: check_syscall_int MAX_EVENTS_def)
  then have "epoller_poll ep run order flag_order timeout_ms (e, w) =
      dispatch epoller_roster run flag_order ?its (e1, w2)"
    using e1(1) wait(1) fd1 by (simp add: epoller_poll_def bind_process_def total_def)
  also have "\<dots> = run_callbacks run (callbacks_of (ep_roster e1) ?evs) (e1, w2)"
    by (rule dispatch_ready [OF assms(3) _ known]) simp
  finally have "epoller_poll ep run order flag_order timeout_ms (e, w) =
      run_callbacks run (callbacks_of (ep_roster e1) ?evs) (e1, w2)" .
  moreover have "distinct ?evs"
    by (rule distinct_ready_events) (use wait(4) assms(7) in \<open>simp_all add: o_def split_def\<close>)
  moreover have "\<forall>(fd, f) \<in> set ?evs. poller_requested (as_poller e1) fd f"
    using wait(5) interest1 by (fastforce simp: ready_events_def poller_requested_def as_poller_sel)
  moreover have "epoller_inv epfd interest (e1, w2)"
    using e1(2) wait(2) pinv by (simp add: epoller_inv_def mirrored_def)
  ultimately show ?thesis using e1(3) by blast
qed

section \<open>Properties\<close>

text \<open>
  C19: \<open>Epoller\<close> refines \<open>Poller\<close>: with a kernel that keeps its interest list, any sequence of requests has
  the same result (the first error included) on both, leaves the same registrations and masks, and the
  kernel's interest list equal to \<open>active_events_\<close>; and a round of \<open>Epoller::poll\<close> performs the
  scheduled removals of \<open>Poller::poll\<close> and then executes, each once, callbacks that were registered for
  monitored events.
\<close>

theorem epoller_refines_poller:
  assumes "epoll_contract ep epfd valid interest" and "epoller_inv epfd interest (e, w)"
    and "\<forall>req \<in> set reqs. monitorable valid req" and "keeps_roster epoller_roster run"
    and "distinct order" and "set order = ep_leaving e" and "\<forall>fd \<in> ep_leaving e. ep_active e fd \<noteq> None"
    and "\<forall>fd. distinct (flag_order fd) \<and> set (flag_order fd) = UNIV"
  shows "(\<exists>e' w'. perform (epoller_request ep) reqs (e, w) =
        (fst (perform poller_request reqs (as_poller e)), e', w') \<and>
      as_poller e' = snd (perform poller_request reqs (as_poller e)) \<and> interest w' = ep_active e') \<and>
    (\<exists>e' w' evs. epoller_poll ep run order flag_order timeout_ms (e, w) =
        run_callbacks run (callbacks_of (ep_roster e') evs) (e', w') \<and>
      as_poller e' = poller_do_deregister (as_poller e) \<and> interest w' = ep_active e' \<and>
      distinct evs \<and> (\<forall>(fd, f) \<in> set evs. poller_requested (as_poller e') fd f))"
proof
  have mir: "mirrored epfd interest (e, w)" using assms(2) by (simp add: epoller_inv_def)
  show "\<exists>e' w'. perform (epoller_request ep) reqs (e, w) =
        (fst (perform poller_request reqs (as_poller e)), e', w') \<and>
      as_poller e' = snd (perform poller_request reqs (as_poller e)) \<and> interest w' = ep_active e'"
    using perform_simulates [OF assms(1) mir assms(3)] by (auto simp: mirrored_def)
  show "\<exists>e' w' evs. epoller_poll ep run order flag_order timeout_ms (e, w) =
        run_callbacks run (callbacks_of (ep_roster e') evs) (e', w') \<and>
      as_poller e' = poller_do_deregister (as_poller e) \<and> interest w' = ep_active e' \<and>
      distinct evs \<and> (\<forall>(fd, f) \<in> set evs. poller_requested (as_poller e') fd f)"
    using epoller_poll_ready [OF assms(1,2,4-8), of timeout_ms] by (auto simp: epoller_inv_def mirrored_def)
qed

definition one_monitored :: "nat epoller" where
  "one_monitored = \<lparr>ep_fd = 3, ep_roster = [4 \<mapsto> [In \<mapsto> 10]], ep_active = [4 \<mapsto> 1], ep_leaving = {4}\<rparr>"

lemma one_monitored_inv: "epoller_inv 3 (\<lambda>w. w) (one_monitored, [4 \<mapsto> 1])"
  by (auto simp: epoller_inv_def mirrored_def one_monitored_def as_poller_def poller_inv_def has_flag_def
      flag_value_def split: flag.split)

theorem epoller_refines_poller_witness:
  "\<exists>e' w'. perform (epoller_request list_epoll) [Register 5 Out 20, Deactivate 4 In] (one_monitored, [4 \<mapsto> 1]) =
      (fst (perform poller_request [Register 5 Out 20, Deactivate 4 In] (as_poller one_monitored)), e', w') \<and>
    as_poller e' = snd (perform poller_request [Register 5 Out 20, Deactivate 4 In] (as_poller one_monitored)) \<and>
    w' = ep_active e'"
proof -
  let ?run = "\<lambda>(cb :: nat) s :: nat epoller \<times> (int \<Rightarrow> u32 option). Some (Inr (), s)"
  have "keeps_roster epoller_roster ?run" by (auto simp: keeps_roster_def)
  moreover have "\<forall>req \<in> set [Register 5 Out 20, Deactivate 4 In]. monitorable UNIV req"
    by (simp add: monitorable_def)
  moreover have "distinct [4 :: int]" "set [4] = ep_leaving one_monitored"
    "\<forall>fd \<in> ep_leaving one_monitored. ep_active one_monitored fd \<noteq> None"
    by (simp_all add: one_monitored_def)
  moreover have "\<forall>fd. distinct ((\<lambda>_. [In, Out]) fd) \<and> set ((\<lambda>_. [In, Out]) (fd :: int)) = UNIV"
    using flag.exhaust by auto
  ultimately show ?thesis
    using epoller_refines_poller [OF list_epoll_contract one_monitored_inv, of
        "[Register 5 Out 20, Deactivate 4 In]" UNIV ?run "[4]" "\<lambda>_. [In, Out]"] by blast
qed

end
