(* ===== verification/Epoller_Errors.thy ===== *)
theory Epoller_Errors
  imports Epoller Transition_System
begin

text \<open>
  What becomes of an \<open>Epoller\<close> (\<open>src/util/epoller.cc\<close>) once \<open>epoll_ctl\<close> refuses one of the removals that
  \<open>do_deregister\<close> makes, over all that the application does afterwards.
\<close>

section \<open>A descriptor that the kernel does not know\<close>

text \<open>
  What an application does with an \<open>Epoller\<close>, in any order: requests and polls, whose exceptions it may catch, with the
  traversals in any order; \<open>Elsewhere\<close> is what the rest of the program does to the kernel meanwhile.
\<close>

datatype ('cb, 'w) epoller_event = Requested "'cb request" | Polled "unit result" | Elsewhere 'w

inductive epoller_step :: "'w epoll_os \<Rightarrow> ('cb, 'cb epoller \<times> 'w) callbacks \<Rightarrow> ('cb, 'w) epoller_event
    \<Rightarrow> 'cb epoller \<times> 'w \<Rightarrow> 'cb epoller \<times> 'w \<Rightarrow> bool" for ep cbs where
  Request: "epoller_request ep req s = (r, s') \<Longrightarrow> epoller_step ep cbs (Requested req) s s'"
| Poll: "set order = ep_leaving (fst s) \<Longrightarrow> distinct order \<Longrightarrow>
    epoller_poll ep cbs order flag_order timeout_ms s = Some (r, s') \<Longrightarrow> epoller_step ep cbs (Polled r) s s'"
| Other: "epoller_step ep cbs (Elsewhere w') (e, w) (e, w')"

text \<open>
  \<open>gone\<close>: the epoll instance does not monitor \<open>fd\<close>. Removing it fails then, and this stays so until it is added.
  The application does not register the number anew, nor does the rest of the program make the kernel know it.
\<close>

definition stays_unknown :: "'w epoll_os \<Rightarrow> int \<Rightarrow> int \<Rightarrow> ('w \<Rightarrow> bool) \<Rightarrow> bool" where
  "stays_unknown ep epfd fd gone \<longleftrightarrow>
     (\<forall>w. gone w \<longrightarrow> fst (ep_del ep epfd fd w) = - 1) \<and>
     (\<forall>w fd'. gone w \<longrightarrow> gone (snd (ep_del ep epfd fd' w))) \<and>
     (\<forall>w fd' events. gone w \<longrightarrow> gone (snd (ep_mod ep epfd fd' events w))) \<and>
     (\<forall>w fd' events. gone w \<and> fd' \<noteq> fd \<longrightarrow> gone (snd (ep_add ep epfd fd' events w)))"

definition not_reused :: "int \<Rightarrow> ('w \<Rightarrow> bool) \<Rightarrow> ('cb, 'w) epoller_event \<Rightarrow> bool" where
  "not_reused fd gone ev =
     (case ev of Requested req \<Rightarrow> \<not> registers_on fd req | Polled r \<Rightarrow> True | Elsewhere w' \<Rightarrow> gone w')"

definition stuck :: "int \<Rightarrow> int \<Rightarrow> int set \<Rightarrow> ('w \<Rightarrow> bool) \<Rightarrow> 'cb epoller \<times> 'w \<Rightarrow> bool" where
  "stuck epfd fd leaving gone s =
     (ep_fd (fst s) = epfd \<and> fd \<in> leaving \<and> leaving \<subseteq> ep_leaving (fst s) \<and> gone (snd s))"

lemma check_syscall_error: "check_syscall r = Inl err \<Longrightarrow> err = Unix_Error ''''"
  by (simp add: check_syscall_def Let_def split: if_splits)

lemma deregister_loop_stuck:
  assumes "stays_unknown ep epfd fd gone" and "ep_fd e = epfd" and "gone w" and "fd \<in> set order"
  shows "\<exists>e' w'. deregister_loop ep order (e, w) = (Inl (Unix_Error ''''), e', w') \<and>
    ep_leaving e' = ep_leaving e \<and> ep_fd e' = epfd \<and> gone w'"
  using assms(2-)
proof (induction order arbitrary: e w)
  case (Cons fd' order)
  let ?e = "e\<lparr>ep_roster := (ep_roster e)(fd' := None), ep_active := (ep_active e)(fd' := None)\<rparr>"
  obtain r w1 where del: "ep_del ep epfd fd' w = (r, w1)" by (metis prod.collapse)
  have gone: "gone w1" using assms(1) Cons.prems(2) del unfolding stays_unknown_def by (metis snd_conv)
  have step: "deregister_loop ep (fd' # order) (e, w) =
      (case check_syscall r of Inl err \<Rightarrow> (Inl err, ?e, w1) | Inr _ \<Rightarrow> deregister_loop ep order (?e, w1))"
    using Cons.prems(1) del
    by (cases "check_syscall r") (simp_all add: bind_action_def epoll_del_def checked_ctl_def)
  show ?case
  proof (cases "check_syscall r")
    case (Inl err)
    with step check_syscall_error [OF Inl] gone Cons.prems(1) show ?thesis by simp
  next
    case (Inr v)
    have "fd' \<noteq> fd"
    proof
      assume "fd' = fd"
      then have "r = - 1" using assms(1) Cons.prems(2) del unfolding stays_unknown_def by (metis fst_conv)
      with Inr show False by (simp add: check_syscall_int)
    qed
    with Cons.prems(3) have "fd \<in> set order" by simp
    with Cons.IH [of ?e w1] Cons.prems(1) gone step Inr show ?thesis by simp
  qed
qed simp

text \<open>A poll is then no more than the removal that fails: it neither waits nor runs a callback.\<close>

lemma poll_stuck:
  assumes "stays_unknown ep epfd fd gone" and "stuck epfd fd leaving gone s" and "set order = ep_leaving (fst s)"
  obtains s' where "epoller_do_deregister ep order s = (Inl (Unix_Error ''''), s')"
    and "epoller_poll ep cbs order flag_order timeout_ms s = Some (Inl (Unix_Error ''''), s')" and "stuck epfd fd leaving gone s'"
proof -
  obtain e w where s: "s = (e, w)" by (cases s)
  have "fd \<in> set order" "ep_fd e = epfd" "gone w" using assms(2,3) by (auto simp: s stuck_def)
  from deregister_loop_stuck [OF assms(1) this(2,3,1)] obtain e' w' where
    "deregister_loop ep order s = (Inl (Unix_Error ''''), e', w')" "ep_leaving e' = ep_leaving e" "ep_fd e' = epfd" "gone w'"
    unfolding s by (elim exE conjE)
  then show ?thesis
    using that [of "(e', w')"] assms(2)
    by (simp add: s stuck_def epoller_do_deregister_def epoller_poll_def bind_action_def bind_process_def total_def)
qed

lemma request_stuck:
  assumes "stays_unknown ep epfd fd gone" and "stuck epfd fd leaving gone s" and "\<not> registers_on fd req"
    and "epoller_request ep req s = (r, s')"
  shows "stuck epfd fd leaving gone s'"
proof -
  obtain e w where s: "s = (e, w)" by (cases s)
  have "gone w" using assms(2) by (simp add: s stuck_def)
  with assms(1) have kept: "gone (snd (ep_mod ep epfd fd' events w))"
      "fd' \<noteq> fd \<Longrightarrow> gone (snd (ep_add ep epfd fd' events w))" for fd' events
    by (simp_all add: stays_unknown_def)
  have "stuck epfd fd leaving gone (snd (epoller_request ep req s))"
    using kept assms(2,3)
    by (cases req) (auto simp: s stuck_def registers_on_def epoller_register_def epoller_activate_def
        epoller_deactivate_def epoller_deregister_def epoll_add_def epoll_mod_def checked_ctl_def Let_def case_prod_unfold
        split: option.split)
  with assms(4) show ?thesis by simp
qed

lemma stuck_invariant:
  assumes "stays_unknown ep epfd fd gone"
  shows "step_invariant (epoller_step ep cbs) (stuck epfd fd leaving gone) (not_reused fd gone)"
proof
  fix ev s t
  assume "epoller_step ep cbs ev s t" and inv: "stuck epfd fd leaving gone s" and "not_reused fd gone ev"
  then show "stuck epfd fd leaving gone t"
  proof cases
    case (Request req r)
    with request_stuck [OF assms inv] \<open>not_reused fd gone ev\<close> show ?thesis by (simp add: not_reused_def)
  next
    case (Poll order flag_order timeout_ms r)
    with poll_stuck [OF assms inv Poll(2), of cbs flag_order timeout_ms] show ?thesis by (metis option.inject prod.inject)
  next
    case (Other w' e w)
    with inv \<open>not_reused fd gone ev\<close> show ?thesis by (simp add: stuck_def not_reused_def)
  qed
qed

definition polls_throw :: "('cb, 'w) epoller_event \<Rightarrow> bool" where
  "polls_throw ev = (\<forall>r. ev = Polled r \<longrightarrow> r = Inl (Unix_Error ''''))"

lemma stuck_polls_throw:
  assumes "stays_unknown ep epfd fd gone" and "epoller_step ep cbs ev s t" and "stuck epfd fd leaving gone s"
  shows "polls_throw ev"
  using assms(2)
proof cases
  case (Poll order flag_order timeout_ms r)
  with poll_stuck [OF assms(1,3) Poll(2), of cbs flag_order timeout_ms] show ?thesis
    by (metis option.inject prod.inject polls_throw_def epoller_event.inject(2))
qed (simp_all add: polls_throw_def)

section \<open>Properties\<close>

text \<open>
  C32: a descriptor whose removal is scheduled and that the kernel does not monitor any more (it was closed, or never
  registered) makes every later call of \<open>Epoller::poll\<close> throw. The exception of \<open>epoll_ctl\<close> leaves
  \<open>fds_to_deregister_\<close> as it is, with all the other descriptors in it, so that after any sequence of requests and of polls
  whose exceptions are caught the next poll, too, is only the removal that fails: it neither waits for events nor
  executes a callback. (Until the kernel monitors the number again.)
\<close>

theorem epoller_deregister_stuck:
  assumes "stays_unknown ep (ep_fd e) fd gone" and "gone w" and "fd \<in> ep_leaving e"
    and "run (epoller_step ep cbs) evs (e, w) (e', w')" and "\<forall>ev \<in> set evs. not_reused fd gone ev"
  shows "(\<forall>r. Polled r \<in> set evs \<longrightarrow> r = Inl (Unix_Error '''')) \<and> ep_leaving e \<subseteq> ep_leaving e' \<and>
    (\<forall>order flag_order timeout_ms. set order = ep_leaving e' \<longrightarrow>
      (\<exists>s. epoller_do_deregister ep order (e', w') = (Inl (Unix_Error ''''), s) \<and>
        epoller_poll ep cbs order flag_order timeout_ms (e', w') = Some (Inl (Unix_Error ''''), s)))"
proof -
  note inv = stuck_invariant [OF assms(1), of cbs]
  have start: "stuck (ep_fd e) fd (ep_leaving e) gone (e, w)" using assms(2,3) by (simp add: stuck_def)
  have end': "stuck (ep_fd e) fd (ep_leaving e) gone (e', w')"
    by (rule step_invariant.run_preserves [OF inv assms(4) start assms(5)])
  have "\<forall>ev \<in> set evs. polls_throw ev"
    by (rule step_invariant.run_labels [OF inv _ assms(4) start assms(5)]) (rule stuck_polls_throw [OF assms(1)])
  then have "\<forall>r. Polled r \<in> set evs \<longrightarrow> r = Inl (Unix_Error '''')" by (auto simp: polls_throw_def)
  moreover have "\<exists>s. epoller_do_deregister ep order (e', w') = (Inl (Unix_Error ''''), s) \<and>
      epoller_poll ep cbs order flag_order timeout_ms (e', w') = Some (Inl (Unix_Error ''''), s)"
    if "set order = ep_leaving e'" for order flag_order timeout_ms
    by (rule poll_stuck [OF assms(1) end', of order cbs flag_order timeout_ms]) (use that in \<open>simp, blast\<close>)
  moreover have "ep_leaving e \<subseteq> ep_leaving e'" using end' by (simp add: stuck_def)
  ultimately show ?thesis by blast
qed

text \<open>
  With the kernel of above: descriptor 4 was closed before its removal; a poll throws, descriptor 5 is registered, and
  the next poll throws as well.
\<close>

theorem epoller_deregister_stuck_witness:
  "\<exists>e' w'. run (epoller_step list_epoll (\<lambda>cb s. Some (Inr (), s))) [Polled (Inl (Unix_Error '''')), Requested (Register 5 Out 20)]
       (one_monitored, Map.empty) (e', w') \<and> w' 5 = Some (flag_value Out) \<and>
     fst (the (epoller_poll list_epoll (\<lambda>cb s. Some (Inr (), s)) [4] (\<lambda>_. [In, Out]) (- 1) (e', w'))) = Inl (Unix_Error '''')"
proof -
  let ?cbs = "\<lambda>cb s. Some (Inr (), s)" and ?evs = "[Polled (Inl (Unix_Error '''')), Requested (Register 5 Out 20)]"
  let ?e = "one_monitored\<lparr>ep_roster := Map.empty, ep_active := Map.empty\<rparr>"
  let ?e' = "?e\<lparr>ep_roster := [5 \<mapsto> [Out \<mapsto> 20]], ep_active := [5 \<mapsto> flag_value Out]\<rparr>"
  have "epoller_poll list_epoll ?cbs [4] (\<lambda>_. [In, Out]) (- 1) (one_monitored, Map.empty) =
      Some (Inl (Unix_Error ''''), ?e, Map.empty)"
    by (simp add: epoller_poll_def bind_process_def total_def epoller_do_deregister_def bind_action_def epoll_del_def
        checked_ctl_def check_syscall_int list_epoll_def one_monitored_def)
  then have first: "epoller_step list_epoll ?cbs (Polled (Inl (Unix_Error ''''))) (one_monitored, Map.empty) (?e, Map.empty)"
    by (rule epoller_step.Poll [rotated 2]) (simp_all add: one_monitored_def)
  have "epoller_step list_epoll ?cbs (Requested (Register 5 Out 20)) (?e, Map.empty) (?e', [5 \<mapsto> flag_value Out])"
    by (rule epoller_step.Request [where r = "Inr ()"])
      (simp add: epoller_register_def epoll_add_def checked_ctl_def check_syscall_int list_epoll_def)
  with first have ran: "run (epoller_step list_epoll ?cbs) ?evs (one_monitored, Map.empty) (?e', [5 \<mapsto> flag_value Out])"
    by (auto simp: run_Cons_iff)
  have unknown: "stays_unknown list_epoll (ep_fd one_monitored) 4 (\<lambda>w. w 4 = None)"
    by (auto simp: stays_unknown_def list_epoll_def)
  have fresh: "\<forall>ev \<in> set ?evs. not_reused 4 (\<lambda>w. w 4 = None) ev" by (simp add: not_reused_def registers_on_def)
  have "4 \<in> ep_leaving one_monitored" "set [4] = ep_leaving ?e'" by (simp_all add: one_monitored_def)
  with epoller_deregister_stuck [OF unknown _ _ ran fresh]
  have "fst (the (epoller_poll list_epoll ?cbs [4] (\<lambda>_. [In, Out]) (- 1) (?e', [5 \<mapsto> flag_value Out]))) = Inl (Unix_Error '''')"
    by (metis fst_conv option.sel)
  with ran show ?thesis by (intro exI [of _ ?e'] exI [of _ "[5 \<mapsto> flag_value Out]"]) simp
qed

end
