(* ===== verification/Camera.thy ===== *)
theory Camera
  imports File_Descriptor Conversion Image "HOL-Library.Multiset"
begin

text \<open>
  The model of \<open>src/video/v4l2.hh\<close>, \<open>v4l2.cc\<close>, \<open>src/util/mmap.hh\<close> and \<open>mmap.cc\<close>: a camera whose frames are
  exchanged with its driver in memory-mapped buffers. The \<open>ioctl\<close> requests and the memory mappings are
  parameters.
\<close>

section \<open>The kernel's structures and calls\<close>

definition V4L2_CAP_VIDEO_CAPTURE :: u32 where "V4L2_CAP_VIDEO_CAPTURE = 0x00000001"
definition V4L2_CAP_STREAMING :: u32 where "V4L2_CAP_STREAMING = 0x04000000"
definition V4L2_BUF_TYPE_VIDEO_CAPTURE :: u32 where "V4L2_BUF_TYPE_VIDEO_CAPTURE = 1"
definition V4L2_PIX_FMT_YUYV :: u32 where "V4L2_PIX_FMT_YUYV = 0x56595559"
definition V4L2_MEMORY_MMAP :: u32 where "V4L2_MEMORY_MMAP = 1"

record v4l2_format =
  fmt_type :: u32
  fmt_pixelformat :: u32
  fmt_width :: u32
  fmt_height :: u32

record v4l2_requestbuffers =
  req_count :: u32
  req_type :: u32
  req_memory :: u32

record v4l2_buffer =
  buf_index :: u32
  buf_type :: u32
  buf_memory :: u32
  buf_length :: u32
  buf_offset :: u32

text \<open>
  A request returns its code and the structure that the kernel has written; a mapping its address, or nothing for
  \<open>MAP_FAILED\<close>. \<open>mm_read\<close> is the memory at an address, or nothing when it is not mapped as far as that.
\<close>

record 'w v4l2 =
  v4l2_querycap :: "int \<Rightarrow> 'w \<Rightarrow> (int \<times> u32) \<times> 'w"
  v4l2_s_fmt :: "int \<Rightarrow> v4l2_format \<Rightarrow> 'w \<Rightarrow> (int \<times> v4l2_format) \<times> 'w"
  v4l2_reqbufs :: "int \<Rightarrow> v4l2_requestbuffers \<Rightarrow> 'w \<Rightarrow> (int \<times> v4l2_requestbuffers) \<times> 'w"
  v4l2_querybuf :: "int \<Rightarrow> v4l2_buffer \<Rightarrow> 'w \<Rightarrow> (int \<times> v4l2_buffer) \<times> 'w"
  v4l2_qbuf :: "int \<Rightarrow> v4l2_buffer \<Rightarrow> 'w \<Rightarrow> (int \<times> v4l2_buffer) \<times> 'w"
  v4l2_dqbuf :: "int \<Rightarrow> v4l2_buffer \<Rightarrow> 'w \<Rightarrow> (int \<times> v4l2_buffer) \<times> 'w"
  v4l2_streamon :: "int \<Rightarrow> u32 \<Rightarrow> 'w \<Rightarrow> int \<times> 'w"
  v4l2_streamoff :: "int \<Rightarrow> u32 \<Rightarrow> 'w \<Rightarrow> int \<times> 'w"
  mm_map :: "nat \<Rightarrow> int \<Rightarrow> u32 \<Rightarrow> 'w \<Rightarrow> u64 option \<times> 'w"
  mm_unmap :: "u64 \<Rightarrow> nat \<Rightarrow> 'w \<Rightarrow> int \<times> 'w"
  mm_read :: "u64 \<Rightarrow> nat \<Rightarrow> 'w \<Rightarrow> bytes option"

section \<open>Mappings\<close>

text \<open>A null pointer is the address 0.\<close>

record memory_map =
  mm_addr :: u64
  mm_length :: nat

definition mmap_open :: "'w v4l2 \<Rightarrow> nat \<Rightarrow> int \<Rightarrow> u32 \<Rightarrow> 'w \<Rightarrow> memory_map result \<times> 'w" where
  "mmap_open cam len fd offset w =
     (case mm_map cam len fd offset w of
        (None, w') \<Rightarrow> (Inl (Runtime_Error ''mmap failed''), w')
      | (Some addr, w') \<Rightarrow> (Inr \<lparr>mm_addr = addr, mm_length = len\<rparr>, w'))"

definition mmap_destroy :: "'w v4l2 \<Rightarrow> memory_map \<Rightarrow> 'w \<Rightarrow> 'w" where
  "mmap_destroy cam m w =
     (if mm_addr m \<noteq> 0 \<and> mm_length m > 0 then snd (mm_unmap cam (mm_addr m) (mm_length m) w) else w)"

text \<open>Moves: the new value of the target and of the source.\<close>

definition mmap_move :: "memory_map \<Rightarrow> memory_map \<times> memory_map" where
  "mmap_move other =
     (\<lparr>mm_addr = mm_addr other, mm_length = mm_length other\<rparr>, other\<lparr>mm_addr := 0, mm_length := 0\<rparr>)"

definition mmap_move_assign :: "memory_map \<Rightarrow> memory_map \<Rightarrow> memory_map \<times> memory_map" where
  "mmap_move_assign this other =
     (this\<lparr>mm_addr := mm_addr other, mm_length := mm_length other\<rparr>, other\<lparr>mm_addr := 0, mm_length := 0\<rparr>)"

section \<open>The device\<close>

record video_device =
  dev_fd :: file_descriptor
  dev_width :: u16
  dev_height :: u16
  dev_buf_info :: v4l2_buffer
  dev_buf_mem :: "memory_map list"

type_synonym ('w, 'a) dev_action = "(video_device \<times> 'w, 'a) action"

definition NUM_BUFFERS :: u32 where
  "NUM_BUFFERS = 4"

text \<open>The structure after \<open>memset\<close> and the assignments of its type and memory.\<close>

definition buffer_at :: "u32 \<Rightarrow> v4l2_buffer" where
  "buffer_at i = \<lparr>buf_index = i, buf_type = V4L2_BUF_TYPE_VIDEO_CAPTURE, buf_memory = V4L2_MEMORY_MMAP,
     buf_length = 0, buf_offset = 0\<rparr>"

text \<open>\<open>check_syscall(ioctl(fd_.fd_num(), ..., &buf_info_))\<close>.\<close>

definition buffer_ioctl :: "(int \<Rightarrow> v4l2_buffer \<Rightarrow> 'w \<Rightarrow> (int \<times> v4l2_buffer) \<times> 'w) \<Rightarrow> ('w, unit) dev_action" where
  "buffer_ioctl request = (\<lambda>(dev, w).
     let ((r, b), w') = request (fd_num (dev_fd dev)) (dev_buf_info dev) w
     in (bind_result (check_syscall r) (\<lambda>_. Inr ()), dev\<lparr>dev_buf_info := b\<rparr>, w'))"

text \<open>The first part of the constructor: what the device can do, its format and the number of its buffers.\<close>

definition query_capability :: "'w v4l2 \<Rightarrow> ('w, unit) dev_action" where
  "query_capability cam = (\<lambda>(dev, w).
     let ((r, capabilities), w') = v4l2_querycap cam (fd_num (dev_fd dev)) w
     in (bind_result (check_syscall r) (\<lambda>_.
           if capabilities AND V4L2_CAP_VIDEO_CAPTURE = 0
           then Inl (Runtime_Error ''this device does not handle video capture'')
           else if capabilities AND V4L2_CAP_STREAMING = 0
           then Inl (Runtime_Error ''this device does not support streaming'')
           else Inr ()), dev, w'))"

definition set_format :: "'w v4l2 \<Rightarrow> ('w, unit) dev_action" where
  "set_format cam = (\<lambda>(dev, w).
     let ((r, fmt), w') = v4l2_s_fmt cam (fd_num (dev_fd dev))
           \<lparr>fmt_type = V4L2_BUF_TYPE_VIDEO_CAPTURE, fmt_pixelformat = V4L2_PIX_FMT_YUYV,
            fmt_width = ucast (dev_width dev), fmt_height = ucast (dev_height dev)\<rparr> w
     in (bind_result (check_syscall r) (\<lambda>_.
           if fmt_pixelformat fmt \<noteq> V4L2_PIX_FMT_YUYV
           then Inl (Runtime_Error ''cannot set pixel format to be YUYV'')
           else if fmt_width fmt \<noteq> ucast (dev_width dev) \<or> fmt_height fmt \<noteq> ucast (dev_height dev)
           then Inl (Runtime_Error ''cannot set video resolution as specified'')
           else Inr ()), dev, w'))"

text \<open>A count other than the requested one is only a warning.\<close>

definition request_buffers :: "'w v4l2 \<Rightarrow> ('w, u32) dev_action" where
  "request_buffers cam = (\<lambda>(dev, w).
     let ((r, req), w') = v4l2_reqbufs cam (fd_num (dev_fd dev))
           \<lparr>req_count = NUM_BUFFERS, req_type = V4L2_BUF_TYPE_VIDEO_CAPTURE, req_memory = V4L2_MEMORY_MMAP\<rparr> w
     in (bind_result (check_syscall r) (\<lambda>_. Inr (req_count req)), dev, w'))"

text \<open>The second part: each buffer is queried, mapped and enqueued.\<close>

definition map_buffer :: "'w v4l2 \<Rightarrow> ('w, unit) dev_action" where
  "map_buffer cam = (\<lambda>(dev, w).
     case mmap_open cam (unat (buf_length (dev_buf_info dev))) (fd_num (dev_fd dev))
            (buf_offset (dev_buf_info dev)) w of
       (Inl e, w') \<Rightarrow> (Inl e, dev, w')
     | (Inr m, w') \<Rightarrow> (Inr (), dev\<lparr>dev_buf_mem := dev_buf_mem dev @ [m]\<rparr>, w'))"

definition add_buffer :: "'w v4l2 \<Rightarrow> u32 \<Rightarrow> ('w, unit) dev_action" where
  "add_buffer cam i = (\<lambda>(dev, w).
     bind_action (buffer_ioctl (v4l2_querybuf cam)) (\<lambda>_.
     bind_action (map_buffer cam) (\<lambda>_.
     buffer_ioctl (v4l2_qbuf cam))) (dev\<lparr>dev_buf_info := buffer_at i\<rparr>, w))"

fun add_buffers :: "'w v4l2 \<Rightarrow> u32 list \<Rightarrow> ('w, unit) dev_action" where
  "add_buffers cam [] = return_action ()"
| "add_buffers cam (i # is) = bind_action (add_buffer cam i) (\<lambda>_. add_buffers cam is)"

definition stream_on :: "'w v4l2 \<Rightarrow> ('w, unit) dev_action" where
  "stream_on cam = (\<lambda>(dev, w).
     let (r, w') = v4l2_streamon cam (fd_num (dev_fd dev)) V4L2_BUF_TYPE_VIDEO_CAPTURE w
     in (bind_result (check_syscall r) (\<lambda>_. Inr ()), dev, w'))"

definition device_setup :: "'w v4l2 \<Rightarrow> ('w, unit) dev_action" where
  "device_setup cam =
     bind_action (query_capability cam) (\<lambda>_.
     bind_action (set_format cam) (\<lambda>_.
     bind_action (request_buffers cam) (\<lambda>count.
     bind_action (add_buffers cam (map word_of_nat [0..<unat count])) (\<lambda>_.
     stream_on cam))))"

text \<open>An exception in the constructor destroys the members, the mappings before the descriptor.\<close>

definition members_destroy :: "'w v4l2 \<Rightarrow> 'w os \<Rightarrow> video_device \<Rightarrow> 'w \<Rightarrow> 'w" where
  "members_destroy cam os dev w = fd_destroy os (dev_fd dev) (fold (mmap_destroy cam) (dev_buf_mem dev) w)"

definition video_device_open :: "'w v4l2 \<Rightarrow> 'w os \<Rightarrow> bytes \<Rightarrow> u16 \<Rightarrow> u16 \<Rightarrow> 'w \<Rightarrow> video_device result \<times> 'w" where
  "video_device_open cam os path width height w =
     (case open_file os path [''O_RDWR''] w of
        (Inl e, w1) \<Rightarrow> (Inl e, w1)
      | (Inr f, w1) \<Rightarrow>
          (case device_setup cam (\<lparr>dev_fd = f, dev_width = width, dev_height = height,
              dev_buf_info = \<lparr>buf_index = 0, buf_type = 0, buf_memory = 0, buf_length = 0, buf_offset = 0\<rparr>,
              dev_buf_mem = []\<rparr>, w1) of
             (Inl e, dev, w2) \<Rightarrow> (Inl e, members_destroy cam os dev w2)
           | (Inr _, dev, w2) \<Rightarrow> (Inr dev, w2)))"

definition device_destroy :: "'w v4l2 \<Rightarrow> 'w os \<Rightarrow> video_device \<Rightarrow> 'w \<Rightarrow> 'w" where
  "device_destroy cam os dev w =
     members_destroy cam os dev (snd (v4l2_streamoff cam (fd_num (dev_fd dev)) V4L2_BUF_TYPE_VIDEO_CAPTURE w))"

definition device_set_blocking :: "'w os \<Rightarrow> bool \<Rightarrow> ('w, unit) dev_action" where
  "device_set_blocking os blocking = (\<lambda>(dev, w).
     case fd_set_blocking os blocking (dev_fd dev, w) of (r, f, w') \<Rightarrow> (r, dev\<lparr>dev_fd := f\<rparr>, w'))"

section \<open>Reading a frame\<close>

type_synonym ('w, 'a) cam_action = "(video_device \<times> raw_image \<times> 'w, 'a) action"

text \<open>The bytes of the packed image at the front of a buffer; their number is computed in \<open>int\<close>.\<close>

definition frame_source :: "'w v4l2 \<Rightarrow> video_device \<Rightarrow> memory_map \<Rightarrow> 'w \<Rightarrow> bytes result" where
  "frame_source cam dev frame_buf w =
     (let n = unat (dev_width dev) * unat (dev_height dev) * 2
      in if n \<ge> 2 ^ 31 then Inl (Undefined_Behaviour ''int overflow in display_width_ * display_height_ * 2'')
         else case mm_read cam (mm_addr frame_buf) n w of
           None \<Rightarrow> Inl (Undefined_Behaviour ''read past the end of the mapping'')
         | Some src \<Rightarrow> Inr src)"

text \<open>
  An unsuccessful dequeue, for whatever reason, is no frame. An exception leaves the buffer dequeued.
\<close>

definition device_read_frame :: "'w v4l2 \<Rightarrow> ('w, bool) cam_action" where
  "device_read_frame cam = (\<lambda>(dev, img, w).
     if raw_display_width img \<noteq> dev_width dev \<or> raw_display_height img \<noteq> dev_height dev
     then (Inl (Runtime_Error ''VideoDevice: image dimensions don't match''), dev, img, w)
     else
       let ((r, b), w1) = v4l2_dqbuf cam (fd_num (dev_fd dev)) (buffer_at 0) w;
           dev1 = dev\<lparr>dev_buf_info := b\<rparr>
       in if r < 0 then (Inr False, dev1, img, w1)
          else if length (dev_buf_mem dev) \<le> unat (buf_index b)
          then (Inl (Out_Of_Range ''vector::at''), dev1, img, w1)
          else case frame_source cam dev (dev_buf_mem dev ! unat (buf_index b)) w1 of
            Inl e \<Rightarrow> (Inl e, dev1, img, w1)
          | Inr src \<Rightarrow>
              (case copy_from_yuyv src img of
                 (Inl e, img') \<Rightarrow> (Inl e, dev1, img', w1)
               | (Inr _, img') \<Rightarrow>
                   (case buffer_ioctl (v4l2_qbuf cam) (dev1, w1) of
                      (Inl e, dev2, w2) \<Rightarrow> (Inl e, dev2, img', w2)
                    | (Inr _, dev2, w2) \<Rightarrow> (Inr True, dev2, img', w2))))"


section \<open>Who owns the buffers\<close>

text \<open>
  The contract of the driver with \<open>n\<close> buffers, where \<open>held\<close> is the collection of the buffers that are enqueued: a
  dequeue that succeeds hands out one of them, and a buffer of the program is accepted; requesting buffers frees
  all of them, and the other calls leave them where they are.
\<close>

definition exchanges :: "'w v4l2 \<Rightarrow> int \<Rightarrow> nat \<Rightarrow> ('w \<Rightarrow> u32 multiset) \<Rightarrow> bool" where
  "exchanges cam fd n held \<longleftrightarrow>
     (\<forall>b w. \<exists>r b' w'. v4l2_dqbuf cam fd b w = ((r, b'), w') \<and>
        (r < 0 \<and> held w' = held w \<or>
         0 \<le> r \<and> buf_index b' \<in># held w \<and> held w' = held w - {#buf_index b'#})) \<and>
     (\<forall>b w. unat (buf_index b) < n \<longrightarrow> buf_index b \<notin># held w \<longrightarrow>
        (\<exists>b' w'. v4l2_qbuf cam fd b w = ((0, b'), w') \<and> held w' = add_mset (buf_index b) (held w)))"

definition allocates :: "'w v4l2 \<Rightarrow> int \<Rightarrow> nat \<Rightarrow> ('w \<Rightarrow> u32 multiset) \<Rightarrow> bool" where
  "allocates cam fd n held \<longleftrightarrow>
     (\<forall>req w r req' w'. v4l2_reqbufs cam fd req w = ((r, req'), w') \<longrightarrow> unat (req_count req') = n \<and> held w' = {#}) \<and>
     (\<forall>b w r b' w'. v4l2_querybuf cam fd b w = ((r, b'), w') \<longrightarrow> buf_index b' = buf_index b \<and> held w' = held w) \<and>
     (\<forall>len offset w. held (snd (mm_map cam len fd offset w)) = held w) \<and>
     (\<forall>typ w. held (snd (v4l2_streamon cam fd typ w)) = held w)"

definition all_buffers :: "nat \<Rightarrow> u32 multiset" where
  "all_buffers n = mset (map word_of_nat [0..<n])"

lemma unat_below: "n \<le> unat (k :: u32) \<Longrightarrow> i < n \<Longrightarrow> unat (word_of_nat i :: u32) = i"
  using unsigned_less [of k, where ?'a = nat] by (intro unat_of_nat_small) simp

lemma in_all_buffers:
  assumes "n \<le> unat (k :: u32)"
  shows "i \<in># all_buffers n \<longleftrightarrow> unat i < n"
proof
  assume "unat i < n"
  then have "word_of_nat (unat i) \<in> (word_of_nat :: nat \<Rightarrow> u32) ` {0..<n}" by (intro imageI) simp
  then show "i \<in># all_buffers n" by (simp add: all_buffers_def)
qed (use unat_below [OF assms] in \<open>auto simp: all_buffers_def\<close>)

lemma all_buffers_once:
  assumes "n \<le> unat (k :: u32)"
  shows "i \<in># all_buffers n \<Longrightarrow> i \<notin># all_buffers n - {#i#}"
proof -
  assume i: "i \<in># all_buffers n"
  have "inj_on (word_of_nat :: nat \<Rightarrow> u32) {0..<n}"
    by (rule inj_on_inverseI [of _ unat]) (use unat_below [OF assms] in auto)
  then have "distinct (map (word_of_nat :: nat \<Rightarrow> u32) [0..<n])" by (simp add: distinct_map)
  then have "count (all_buffers n) i = 1"
    using i unfolding all_buffers_def by (metis count_mset_0_iff distinct_count_atmost_1 set_mset_mset)
  then show ?thesis by (simp add: not_in_iff)
qed

lemma add_buffer_held:
  assumes "exchanges cam fd n held" and "allocates cam fd n held"
    and "add_buffer cam i (dev, w) = (Inr (), dev', w')" and "fd_num (dev_fd dev) = fd"
    and "unat i < n" and "i \<notin># held w"
  shows "held w' = add_mset i (held w) \<and> length (dev_buf_mem dev') = length (dev_buf_mem dev) + 1 \<and>
    dev_fd dev' = dev_fd dev \<and> dev_width dev' = dev_width dev \<and> dev_height dev' = dev_height dev"
proof -
  let ?dev = "dev\<lparr>dev_buf_info := buffer_at i\<rparr>"
  obtain r b w1 where query: "v4l2_querybuf cam fd (buffer_at i) w = ((r, b), w1)" by (metis prod.collapse)
  have b: "buf_index b = i" "held w1 = held w"
    using assms(2) query unfolding allocates_def by (auto simp: buffer_at_def)
  obtain m w2 where map: "mm_map cam (unat (buf_length b)) fd (buf_offset b) w1 = (m, w2)" by (metis prod.collapse)
  then have w2: "held w2 = held w" using assms(2) b(2) unfolding allocates_def by (metis snd_conv)
  obtain b' w3 where enqueue: "v4l2_qbuf cam fd b w2 = ((0, b'), w3)" "held w3 = add_mset i (held w)"
    using assms(1,5,6) b w2 unfolding exchanges_def by metis
  show ?thesis
    using assms(3,4) query map enqueue
    by (auto simp: add_buffer_def bind_action_def buffer_ioctl_def map_buffer_def mmap_open_def check_syscall_int
        split: prod.splits sum.splits option.splits)
qed


lemma add_buffers_held:
  assumes "exchanges cam fd n held" and "allocates cam fd n held"
    and "add_buffers cam is (dev, w) = (Inr (), dev', w')" and "fd_num (dev_fd dev) = fd"
    and "\<forall>i \<in> set is. unat i < n" and "distinct is" and "set is \<inter> set_mset (held w) = {}"
  shows "held w' = held w + mset is \<and> length (dev_buf_mem dev') = length (dev_buf_mem dev) + length is \<and>
    dev_fd dev' = dev_fd dev \<and> dev_width dev' = dev_width dev \<and> dev_height dev' = dev_height dev"
  using assms(3-)
proof (induction "is" arbitrary: dev w)
  case Nil
  then show ?case by (simp add: return_action_def)
next
  case (Cons i "is")
  obtain dev1 w1 where first: "add_buffer cam i (dev, w) = (Inr (), dev1, w1)"
    and rest: "add_buffers cam is (dev1, w1) = (Inr (), dev', w')"
    using Cons.prems(1) by (auto simp: bind_action_def split: prod.splits sum.splits)
  note one = add_buffer_held [OF assms(1,2) first Cons.prems(2)]
  have "held w1 = add_mset i (held w)" "dev_fd dev1 = dev_fd dev" "length (dev_buf_mem dev1) = length (dev_buf_mem dev) + 1"
    "dev_width dev1 = dev_width dev" "dev_height dev1 = dev_height dev"
    using one Cons.prems(3,5) by auto
  with Cons.IH [OF rest] Cons.prems(2-) show ?case by auto
qed

lemma steps_keep_device:
  "query_capability cam (dev, w) = (r1, dev', w') \<Longrightarrow> dev' = dev"
  "set_format cam (dev, w) = (r1, dev', w') \<Longrightarrow> dev' = dev"
  "request_buffers cam (dev, w) = (r2, dev', w') \<Longrightarrow> dev' = dev"
  "stream_on cam (dev, w) = (r1, dev', w') \<Longrightarrow> dev' = dev"
  by (auto simp: query_capability_def set_format_def request_buffers_def stream_on_def split: prod.splits)

lemma add_buffers_fd:
  assumes "add_buffers cam is (dev, w) = (r, dev', w')"
  shows "dev_fd dev' = dev_fd dev"
proof -
  let ?P = "\<lambda>(d, w :: 'a). dev_fd d = dev_fd dev"
  have "keeps ?P (total (buffer_ioctl request))" for request
    by (rule keeps_total) (auto simp: buffer_ioctl_def split: prod.split)
  moreover have "keeps ?P (total (map_buffer cam))"
    by (rule keeps_total) (auto simp: map_buffer_def split: prod.split sum.split)
  ultimately have chain: "keeps ?P (total (bind_action (buffer_ioctl (v4l2_querybuf cam)) (\<lambda>_.
      bind_action (map_buffer cam) (\<lambda>_. buffer_ioctl (v4l2_qbuf cam)))))"
    by (intro keeps_bind_action)
  have one: "keeps ?P (total (add_buffer cam i))" for i
    unfolding keeps_def
  proof (intro allI impI)
    fix s q t assume "?P s" "total (add_buffer cam i) s = Some (q, t)"
    moreover obtain d v where s: "s = (d, v)" by (cases s)
    ultimately show "?P t"
      using keepsD [OF chain, of "(d\<lparr>dev_buf_info := buffer_at i\<rparr>, v)" q t] by (simp add: total_def add_buffer_def)
  qed
  have "keeps ?P (total (add_buffers cam is))"
  proof (induction "is")
    case Nil
    show ?case by (rule keeps_total) (simp add: return_action_def)
  next
    case (Cons i "is")
    show ?case unfolding add_buffers.simps by (intro keeps_bind_action one Cons.IH)
  qed
  from keepsD [OF this, of "(dev, w)"] assms show ?thesis by (simp add: total_def)
qed

lemma open_holds_all:
  assumes "exchanges cam (fd_num (dev_fd dev)) n held" and "allocates cam (fd_num (dev_fd dev)) n held"
    and "video_device_open cam os path width height w = (Inr dev, w')" and "n \<le> unat (k :: u32)"
  shows "held w' = all_buffers n \<and> length (dev_buf_mem dev) = n \<and> dev_width dev = width \<and> dev_height dev = height"
proof -
  let ?fresh = "\<lambda>f. \<lparr>dev_fd = f, dev_width = width, dev_height = height,
    dev_buf_info = \<lparr>buf_index = 0, buf_type = 0, buf_memory = 0, buf_length = 0, buf_offset = 0\<rparr>, dev_buf_mem = []\<rparr>"
  obtain f w1 where "device_setup cam (?fresh f, w1) = (Inr (), dev, w')"
    using assms(3) by (auto simp: video_device_open_def simp del: split_paired_Ex split: prod.split_asm sum.split_asm)
  then obtain d2 w2 d3 w3 d4 count w4 d5 w5 where steps: "query_capability cam (?fresh f, w1) = (Inr (), d2, w2)"
      "set_format cam (d2, w2) = (Inr (), d3, w3)" "request_buffers cam (d3, w3) = (Inr count, d4, w4)"
      "add_buffers cam (map word_of_nat [0..<unat count]) (d4, w4) = (Inr (), d5, w5)"
      "stream_on cam (d5, w5) = (Inr (), dev, w')"
    by (auto simp: device_setup_def bind_action_Inr_iff)
  have same: "d2 = ?fresh f" "d3 = ?fresh f" "d4 = ?fresh f" "d5 = dev"
    using steps_keep_device(1) [OF steps(1)] steps_keep_device(2) [OF steps(2)] steps_keep_device(3) [OF steps(3)]
      steps_keep_device(4) [OF steps(5)] by simp_all
  have add: "add_buffers cam (map word_of_nat [0..<unat count]) (?fresh f, w4) = (Inr (), dev, w5)"
    using steps(4) same by simp
  have on: "stream_on cam (dev, w5) = (Inr (), dev, w')" using steps(5) same by simp
  have fd: "fd_num f = fd_num (dev_fd dev)" using add_buffers_fd [OF add] by simp
  have count: "unat count = n" "held w4 = {#}"
    using steps(3) assms(2) fd unfolding allocates_def same
    by (auto simp: request_buffers_def bind_result_Inr_iff split: prod.splits)
  let ?is = "map (word_of_nat :: nat \<Rightarrow> u32) [0..<unat count]"
  have idx: "\<forall>i \<in> set ?is. unat i < n" "distinct ?is"
  proof -
    have "inj_on (word_of_nat :: nat \<Rightarrow> u32) {0..<n}"
      by (rule inj_on_inverseI [of _ unat]) (use unat_below [OF assms(4)] in auto)
    then show "distinct ?is" by (simp add: distinct_map count(1))
    show "\<forall>i \<in> set ?is. unat i < n" using unat_below [OF assms(4)] by (auto simp: count(1))
  qed
  have "held w5 = mset ?is \<and> length (dev_buf_mem dev) = length ?is \<and> dev_width dev = width \<and> dev_height dev = height"
    using add_buffers_held [OF assms(1,2) add _ idx] fd count(2) by simp
  moreover have "held w' = held w5"
    using on assms(2) unfolding allocates_def
    by (auto simp: stream_on_def split: prod.splits) (metis snd_conv)
  ultimately show ?thesis by (simp add: all_buffers_def count(1))
qed


text \<open>
  A camera between two calls: the driver has every buffer, the frames are of even dimensions small enough for \<open>int\<close>,
  the image has room for a frame and every buffer is mapped as far as a frame.
\<close>

definition frame_len :: "video_device \<Rightarrow> nat" where
  "frame_len dev = unat (dev_width dev) * unat (dev_height dev) * 2"

definition camera_fits :: "'w v4l2 \<Rightarrow> video_device \<Rightarrow> bool" where
  "camera_fits cam dev \<longleftrightarrow> even (unat (dev_width dev)) \<and> even (unat (dev_height dev)) \<and> frame_len dev < 2 ^ 31 \<and>
     (\<forall>m \<in> set (dev_buf_mem dev). \<forall>w. \<exists>src. mm_read cam (mm_addr m) (frame_len dev) w = Some src \<and>
        length src = frame_len dev)"

lemma camera_fits_buf_info [simp]:
  "camera_fits cam (dev\<lparr>dev_buf_info := b\<rparr>) = camera_fits cam dev" "frame_len (dev\<lparr>dev_buf_info := b\<rparr>) = frame_len dev"
  by (simp_all add: camera_fits_def frame_len_def)

lemma copy_from_yuyv_room:
  assumes "camera_fits cam dev" and "image_room (dev_width dev) (dev_height dev) img" and "length src = frame_len dev"
  obtains img' where "copy_from_yuyv src img = (Inr (), img')" and "image_room (dev_width dev) (dev_height dev) img'"
proof -
  note fits = assms [unfolded camera_fits_def image_room_def frame_len_def]
  let ?n = "unat (raw_display_width img) * unat (raw_display_height img)"
  have dims: "raw_display_width img = dev_width dev" "raw_display_height img = dev_height dev"
    using fits(2) by simp_all
  have room: "even (unat (raw_display_width img))" "even (unat (raw_display_height img))" "?n < 2 ^ 31"
    "length src = 2 * ?n" "?n \<le> length (vpx_plane_y (raw_vpx_img img))"
    "?n div 4 \<le> length (vpx_plane_u (raw_vpx_img img))" "?n div 4 \<le> length (vpx_plane_v (raw_vpx_img img))"
    using fits unfolding dims by (simp_all add: mult.commute)
  have blit: "length buf \<le> length (blit buf 0 xs)" for buf xs :: bytes by (simp add: blit_def)
  show ?thesis
    by (rule that [OF copy_from_yuyv_result [OF room(1,2) refl room(3-)]])
      (use fits(2) in \<open>auto intro: order_trans [OF _ blit] simp: image_room_def\<close>)
qed

lemma read_frame_returns:
  assumes "exchanges cam (fd_num (dev_fd dev)) (length (dev_buf_mem dev)) held" and "camera_fits cam dev"
    and "image_room (dev_width dev) (dev_height dev) img" and "held w = all_buffers (length (dev_buf_mem dev))"
    and "length (dev_buf_mem dev) \<le> unat (k :: u32)"
  obtains b info img' w' where "device_read_frame cam (dev, img, w) = (Inr b, dev\<lparr>dev_buf_info := info\<rparr>, img', w')"
    and "image_room (dev_width dev) (dev_height dev) img'" and "held w' = all_buffers (length (dev_buf_mem dev))"
    and "if b then \<exists>m \<in> set (dev_buf_mem dev). \<exists>v src. mm_read cam (mm_addr m) (frame_len dev) v = Some src \<and>
        copy_from_yuyv src img = (Inr (), img')
      else img' = img"
proof -
  let ?fd = "fd_num (dev_fd dev)" and ?n = "length (dev_buf_mem dev)"
  have dims: "raw_display_width img = dev_width dev" "raw_display_height img = dev_height dev"
    using assms(3) by (simp_all add: image_room_def)
  obtain r b w1 where dq: "v4l2_dqbuf cam ?fd (buffer_at 0) w = ((r, b), w1)"
    and moved: "r < 0 \<and> held w1 = held w \<or> 0 \<le> r \<and> buf_index b \<in># held w \<and> held w1 = held w - {#buf_index b#}"
    using assms(1) unfolding exchanges_def by blast
  show ?thesis
  proof (cases "r < 0")
    case True
    then have "device_read_frame cam (dev, img, w) = (Inr False, dev\<lparr>dev_buf_info := b\<rparr>, img, w1)"
      using dq dims by (simp add: device_read_frame_def)
    then show ?thesis using that [of False b img w1] True moved assms(3,4) by simp
  next
    case False
    with moved assms(4) have i: "buf_index b \<in># all_buffers ?n" "held w1 = all_buffers ?n - {#buf_index b#}" by auto
    then have below: "unat (buf_index b) < ?n" using in_all_buffers [OF assms(5)] by blast
    let ?m = "dev_buf_mem dev ! unat (buf_index b)"
    have m: "?m \<in> set (dev_buf_mem dev)" using below by simp
    then obtain src where src: "mm_read cam (mm_addr ?m) (frame_len dev) w1 = Some src" "length src = frame_len dev"
      using assms(2) unfolding camera_fits_def by blast
    then have source: "frame_source cam dev ?m w1 = Inr src"
      using assms(2) by (simp add: frame_source_def camera_fits_def frame_len_def)
    obtain img' where img': "copy_from_yuyv src img = (Inr (), img')" "image_room (dev_width dev) (dev_height dev) img'"
      by (rule copy_from_yuyv_room [OF assms(2,3) src(2)])
    have "buf_index b \<notin># held w1" using all_buffers_once [OF assms(5) i(1)] i(2) by simp
    then obtain b' w2 where q: "v4l2_qbuf cam ?fd b w1 = ((0, b'), w2)" "held w2 = add_mset (buf_index b) (held w1)"
      using assms(1) below unfolding exchanges_def by blast
    have "device_read_frame cam (dev, img, w) = (Inr True, dev\<lparr>dev_buf_info := b'\<rparr>, img', w2)"
      using dq dims False below source img'(1) q(1)
      by (simp add: device_read_frame_def buffer_ioctl_def check_syscall_int frame_source_def)
    moreover have "held w2 = all_buffers ?n" using q(2) i by simp
    ultimately show ?thesis using that [of True b' img' w2] img' m src(1) by auto
  qed
qed

end
