(* ===== verification/Webcam.thy ===== *)
theory Webcam
  imports Camera Display Poller Transition_System
begin

text \<open>
  The model of \<open>src/video/webcam.cc\<close>, the program that shows the frames of a camera in a window, and the ownership of
  the camera's buffers in its loop.
\<close>

section \<open>Command line\<close>

definition default_video_device :: bytes where
  "default_video_device = ascii ''/dev/video0''"

text \<open>Any character that is not an option, or arguments other than two, print the usage (\<open>None\<close>).\<close>

fun webcam_options :: "(char \<times> bytes) list \<Rightarrow> bytes \<Rightarrow> bytes option" where
  "webcam_options [] video_device_path = Some video_device_path"
| "webcam_options ((opt, optarg) # opts) video_device_path =
     (if opt = CHR ''d'' then webcam_options opts optarg else None)"

definition webcam_positional :: "bytes list \<Rightarrow> (u16 \<times> u16) option result" where
  "webcam_positional args =
     (case args of
        [width, height] \<Rightarrow>
          bind_result (strict_stoi width 10) (\<lambda>v.
          bind_result (narrow_cast uint16_t int_t v) (\<lambda>w.
          bind_result (strict_stoi height 10) (\<lambda>v'.
          bind_result (narrow_cast uint16_t int_t v') (\<lambda>h.
          Inr (Some (word_of_int w, word_of_int h))))))
      | _ \<Rightarrow> Inr None)"

section \<open>The program\<close>

text \<open>The state of the loop; the display does not change. There is one callback.\<close>

type_synonym 'w webcam_state = "unit poller \<times> video_device \<times> raw_image \<times> 'w"

text \<open>Everything before the loop.\<close>

definition webcam_start :: "'w v4l2 \<Rightarrow> 'w os \<Rightarrow> 'w sdl \<Rightarrow> (u32 \<Rightarrow> u32 \<Rightarrow> vpx_image) \<Rightarrow> bytes \<Rightarrow> u16 \<Rightarrow> u16
    \<Rightarrow> ('w, video_display \<times> unit poller \<times> video_device \<times> raw_image) action" where
  "webcam_start cam os sdl img_alloc path width height =
     bind_action (video_device_open cam os path width height) (\<lambda>dev.
     bind_action (\<lambda>w. case device_set_blocking os False (dev, w) of (r, dev', w') \<Rightarrow> (bind_result r (\<lambda>_. Inr dev'), w'))
       (\<lambda>dev.
     bind_action (display_init sdl width height) (\<lambda>display.
     let raw_img = raw_image_alloc img_alloc width height;
         (r, poller) = poller_register (fd_num (dev_fd dev)) In () empty_poller
     in (\<lambda>w. (bind_result r (\<lambda>_. Inr (display, poller, dev, raw_img)), w)))))"

text \<open>Without a frame the callback only writes to the log.\<close>

definition webcam_callback :: "'w v4l2 \<Rightarrow> 'w sdl \<Rightarrow> video_display \<Rightarrow> (unit, 'w webcam_state) callbacks" where
  "webcam_callback cam sdl display = (\<lambda>_ (p, dev, img, w).
     case device_read_frame cam (dev, img, w) of
       (Inl e, dev', img', w1) \<Rightarrow> Some (Inl e, p, dev', img', w1)
     | (Inr False, dev', img', w1) \<Rightarrow> Some (Inr (), p, dev', img', w1)
     | (Inr True, dev', img', w1) \<Rightarrow>
         (case show_frame sdl display img' w1 of (r, w2) \<Rightarrow> Some (r, p, dev', img', w2)))"

definition webcam_poll :: "'w v4l2 \<Rightarrow> 'w sdl \<Rightarrow> 'w sys_poll \<Rightarrow> video_display \<Rightarrow> int list \<Rightarrow> (int \<Rightarrow> flag list)
    \<Rightarrow> ('w webcam_state, unit) process" where
  "webcam_poll cam sdl sys_poll display order flag_order =
     poller_poll (\<lambda>fds timeout_ms (dev, img, w).
         let (answer, w') = sys_poll fds timeout_ms w in (answer, dev, img, w'))
       (webcam_callback cam sdl display) order flag_order (- 1)"

text \<open>One evaluation of the condition of the loop, and its body if it holds; the result is whether the loop goes on.\<close>

definition webcam_round :: "'w v4l2 \<Rightarrow> 'w sdl \<Rightarrow> 'w sys_poll \<Rightarrow> video_display \<Rightarrow> int list \<Rightarrow> (int \<Rightarrow> flag list)
    \<Rightarrow> ('w webcam_state, bool) process" where
  "webcam_round cam sdl sys_poll display order flag_order = (\<lambda>(p, dev, img, w).
     case signal_quit sdl w of
       None \<Rightarrow> None
     | Some (True, w1) \<Rightarrow> Some (Inr False, p, dev, img, w1)
     | Some (False, w1) \<Rightarrow>
         bind_process (webcam_poll cam sdl sys_poll display order flag_order) (\<lambda>_. total (return_action True))
           (p, dev, img, w1))"

text \<open>The end of \<open>main\<close>: the image is destroyed before the display, and the display before the camera.\<close>

definition webcam_exit :: "'w v4l2 \<Rightarrow> 'w os \<Rightarrow> 'w sdl \<Rightarrow> (vpx_image \<Rightarrow> 'w \<Rightarrow> 'w) \<Rightarrow> video_device \<Rightarrow> raw_image \<Rightarrow> 'w \<Rightarrow> 'w" where
  "webcam_exit cam os sdl vpx_img_free dev img w =
     device_destroy cam os dev (display_destroy sdl (raw_image_destroy vpx_img_free img w))"

text \<open>The loop, over any order in which the maps are traversed.\<close>

inductive webcam_step :: "'w v4l2 \<Rightarrow> 'w sdl \<Rightarrow> 'w sys_poll \<Rightarrow> video_display \<Rightarrow> bool \<Rightarrow> 'w webcam_state \<Rightarrow> 'w webcam_state \<Rightarrow> bool"
  for cam sdl sys_poll display where
  Round: "webcam_round cam sdl sys_poll display order flag_order st = Some (Inr goes_on, st') \<Longrightarrow>
    webcam_step cam sdl sys_poll display goes_on st st'"

inductive_cases webcam_stepE: "webcam_step cam sdl sys_poll display goes_on st st'"

section \<open>The buffers\<close>

text \<open>What does not touch the camera: files, the display and polling.\<close>

definition elsewhere :: "'w os \<Rightarrow> 'w sdl \<Rightarrow> 'w sys_poll \<Rightarrow> ('w \<Rightarrow> 'b) \<Rightarrow> bool" where
  "elsewhere os sdl sys_poll held \<longleftrightarrow>
     (\<forall>fd w. held (snd (sys_fcntl_getfl os fd w)) = held w) \<and>
     (\<forall>fd flags w. held (snd (sys_fcntl_setfl os fd flags w)) = held w) \<and>
     (\<forall>w. held (snd (sdl_init sdl w)) = held w) \<and>
     (\<forall>width height w. held (snd (sdl_create_window sdl width height w)) = held w) \<and>
     (\<forall>w. held (snd (sdl_create_renderer sdl w)) = held w) \<and>
     (\<forall>width height w. held (snd (sdl_create_texture sdl width height w)) = held w) \<and>
     (\<forall>img w. held (sdl_draw sdl img w) = held w) \<and>
     (\<forall>w. held (snd (sdl_poll_event sdl w)) = held w) \<and>
     (\<forall>fds timeout_ms w. held (snd (sys_poll fds timeout_ms w)) = held w)"

definition webcam_inv :: "'w v4l2 \<Rightarrow> video_display \<Rightarrow> nat \<Rightarrow> ('w \<Rightarrow> u32 multiset) \<Rightarrow> int \<Rightarrow> 'w webcam_state \<Rightarrow> bool" where
  "webcam_inv cam display n held fd = (\<lambda>(p, dev, img, w).
     held w = all_buffers n \<and> length (dev_buf_mem dev) = n \<and> fd_num (dev_fd dev) = fd \<and> camera_fits cam dev \<and>
     image_room (dev_width dev) (dev_height dev) img \<and>
     disp_width display = dev_width dev \<and> disp_height display = dev_height dev)"

lemma callback_returns:
  assumes "exchanges cam fd n held" and "elsewhere os sdl sys_poll held" and "n \<le> unat (k :: u32)"
    and "webcam_inv cam display n held fd st"
  obtains st' where "webcam_callback cam sdl display u st = Some (Inr (), st')" and "webcam_inv cam display n held fd st'"
proof -
  obtain p dev img w where st: "st = (p, dev, img, w)" by (cases st)
  note inv = assms(4) [unfolded st webcam_inv_def prod.case]
  have "exchanges cam (fd_num (dev_fd dev)) (length (dev_buf_mem dev)) held" "camera_fits cam dev"
    "image_room (dev_width dev) (dev_height dev) img" "held w = all_buffers (length (dev_buf_mem dev))"
    "length (dev_buf_mem dev) \<le> unat k"
    using assms(1,3) inv by auto
  from read_frame_returns [OF this] obtain b info img' w' where
    read: "device_read_frame cam (dev, img, w) = (Inr b, dev\<lparr>dev_buf_info := info\<rparr>, img', w')"
    and kept: "image_room (dev_width dev) (dev_height dev) img'" "held w' = all_buffers (length (dev_buf_mem dev))"
    by metis
  show ?thesis
  proof (cases b)
    case False
    then show ?thesis
      using that [of "(p, dev\<lparr>dev_buf_info := info\<rparr>, img', w')"] read kept inv
      by (simp add: webcam_callback_def st webcam_inv_def)
  next
    case True
    have "raw_display_width img' = disp_width display" "raw_display_height img' = disp_height display"
      using kept(1) inv by (simp_all add: image_room_def)
    then have shown: "show_frame sdl display img' w' = (Inr (), sdl_draw sdl (raw_vpx_img img') w')"
      by (simp add: show_frame_def)
    have "held (sdl_draw sdl (raw_vpx_img img') w') = held w'" using assms(2) unfolding elsewhere_def by blast
    then show ?thesis
      using that [of "(p, dev\<lparr>dev_buf_info := info\<rparr>, img', sdl_draw sdl (raw_vpx_img img') w')"]
        True read shown kept inv
      by (simp add: webcam_callback_def st webcam_inv_def)
  qed
qed

lemma signal_quit_held:
  assumes "\<forall>w. held (snd (sdl_poll_event sdl w)) = held w" and "signal_quit sdl w = Some (q, w')"
  shows "held w' = held w"
proof -
  let ?quiet = "\<lambda>sdl. \<forall>w. held (snd (sdl_poll_event sdl w)) = held w"
  have "?quiet sdl \<longrightarrow> held (snd res) = held v" if "signal_quit sdl v = Some res" for v res
  proof (rule signal_quit.raw_induct [where P = "\<lambda>sdl v res. ?quiet sdl \<longrightarrow> held (snd res) = held v", OF _ that], intro impI)
    fix quit and sdl :: "'a sdl" and v res
    assume IH: "\<And>s w res. quit s w = Some res \<Longrightarrow> ?quiet s \<longrightarrow> held (snd res) = held w" and quiet: "?quiet sdl"
      and step: "(case sdl_poll_event sdl v of
        (None, w') \<Rightarrow> Some (False, w')
      | (Some is_quit, w') \<Rightarrow> if is_quit then Some (True, w') else quit sdl w') = Some res"
    obtain e v1 where poll: "sdl_poll_event sdl v = (e, v1)" by (cases "sdl_poll_event sdl v")
    have same: "held v1 = held v" using quiet [THEN spec [of _ v]] unfolding poll by simp
    consider "snd res = v1" | "quit sdl v1 = Some res"
      using step unfolding poll by (auto split: option.splits if_splits)
    then show "held (snd res) = held v"
    proof cases
      case 2
      from IH [OF this] quiet same show ?thesis by (simp only: simp_thms)
    qed (use same in simp)
  qed
  from this [OF assms(2)] assms(1) show ?thesis by simp
qed


lemma callback_keeps:
  assumes "exchanges cam fd n held" and "elsewhere os sdl sys_poll held" and "n \<le> unat (k :: u32)"
  shows "keeps (webcam_inv cam display n held fd) (webcam_callback cam sdl display u)"
  unfolding keeps_def
proof (intro allI impI)
  fix st r t
  assume inv: "webcam_inv cam display n held fd st" and ran: "webcam_callback cam sdl display u st = Some (r, t)"
  obtain st' where "webcam_callback cam sdl display u st = Some (Inr (), st')" "webcam_inv cam display n held fd st'"
    by (rule callback_returns [OF assms inv])
  with ran show "webcam_inv cam display n held fd t" by simp
qed

lemma webcam_poll_keeps:
  assumes "exchanges cam fd n held" and "elsewhere os sdl sys_poll held" and "n \<le> unat (k :: u32)"
  shows "keeps (webcam_inv cam display n held fd) (webcam_poll cam sdl sys_poll display order flag_order)"
  unfolding webcam_poll_def
proof (rule keeps_poller_poll [OF callback_keeps [OF assms]])
  fix p :: "unit poller" and st :: "video_device \<times> raw_image \<times> 'a"
  assume inv: "webcam_inv cam display n held fd (p, st)"
  then show "webcam_inv cam display n held fd (poller_do_deregister p, st)" by (simp add: webcam_inv_def split: prod.splits)
  fix fds
  obtain dev img w where st: "st = (dev, img, w)" by (cases st)
  have "held (snd (sys_poll fds (- 1) w)) = held w" using assms(2) unfolding elsewhere_def by blast
  then show "webcam_inv cam display n held fd (p, snd (case st of (dev, img, w) \<Rightarrow>
      let (answer, w') = sys_poll fds (- 1) w in (answer, dev, img, w')))"
    using inv by (simp add: webcam_inv_def st case_prod_unfold Let_def)
qed

lemma webcam_step_keeps:
  assumes "exchanges cam fd n held" and "elsewhere os sdl sys_poll held" and "n \<le> unat (k :: u32)"
    and "webcam_step cam sdl sys_poll display goes_on st st'" and "webcam_inv cam display n held fd st"
  shows "webcam_inv cam display n held fd st'"
proof -
  obtain order flag_order where 1: "webcam_round cam sdl sys_poll display order flag_order st = Some (Inr goes_on, st')"
    using assms(4) by (rule webcam_stepE)
  obtain p dev img w where st: "st = (p, dev, img, w)" by (cases st)
  have quiet: "\<forall>w. held (snd (sdl_poll_event sdl w)) = held w" using assms(2) unfolding elsewhere_def by blast
  obtain q w1 where quit: "signal_quit sdl w = Some (q, w1)" using 1 by (auto simp: webcam_round_def st split: option.splits)
  have inv: "webcam_inv cam display n held fd (p, dev, img, w1)"
    using assms(5) signal_quit_held [OF quiet quit] by (simp add: st webcam_inv_def)
  show ?thesis
  proof (cases q)
    case True
    then show ?thesis using 1 quit inv by (simp add: webcam_round_def st)
  next
    case False
    then obtain r where "webcam_poll cam sdl sys_poll display order flag_order (p, dev, img, w1) = Some (r, st')"
      using 1 quit by (auto simp: webcam_round_def st bind_process_Inr_iff total_def return_action_def)
    from keepsD [OF webcam_poll_keeps [OF assms(1-3)] this inv] show ?thesis .
  qed
qed

lemma start_inv:
  assumes "webcam_start cam os sdl img_alloc path width height w0 = (Inr (display, p, dev, img), w)"
    and "exchanges cam (fd_num (dev_fd dev)) n held" and "allocates cam (fd_num (dev_fd dev)) n held"
    and "elsewhere os sdl sys_poll held" and "n \<le> unat (k :: u32)"
    and "camera_fits cam dev" and "image_room width height (raw_image_alloc img_alloc width height)"
  shows "webcam_inv cam display n held (fd_num (dev_fd dev)) (p, dev, img, w)"
proof -
  obtain dev0 w1 dev1 w2 display1 w3 where opened: "video_device_open cam os path width height w0 = (Inr dev0, w1)"
    and blocking: "(case device_set_blocking os False (dev0, w1) of (r, dev', w') \<Rightarrow> (bind_result r (\<lambda>_. Inr dev'), w')) =
      (Inr dev1, w2)"
    and window: "display_init sdl width height w2 = (Inr display1, w3)"
    and "(let raw_img = raw_image_alloc img_alloc width height;
         (r, poller) = poller_register (fd_num (dev_fd dev1)) In () empty_poller
     in (\<lambda>w. (bind_result r (\<lambda>_. Inr (display1, poller, dev1, raw_img)), w))) w3 = (Inr (display, p, dev, img), w)"
    using assms(1) [unfolded webcam_start_def bind_action_Inr_iff] by (elim exE conjE) (rule that)
  then have end': "display1 = display" "dev1 = dev" "w3 = w" and img: "img = raw_image_alloc img_alloc width height"
    by (auto simp: bind_result_Inr_iff Let_def split: prod.splits)
  note blocking = blocking [unfolded end'] and window = window [unfolded end']
  have same: "dev_fd dev = dev_fd dev0" "dev_buf_mem dev = dev_buf_mem dev0" "dev_width dev = dev_width dev0"
    "dev_height dev = dev_height dev0" and w2: "held w2 = held w1"
    using blocking assms(4) unfolding elsewhere_def
    by (auto simp: device_set_blocking_def fd_set_blocking_def bind_result_Inr_iff Let_def split: prod.splits sum.splits)
      (metis snd_conv)
  have "held w = held w2"
    using window assms(4) unfolding elsewhere_def
    by (auto simp: display_init_def sdl_require_def bind_action_Inr_iff return_action_def split: prod.splits if_splits)
      (metis snd_conv)
  moreover have "disp_width display = width" "disp_height display = height"
    using window by (auto simp: display_init_def bind_action_Inr_iff return_action_def)
  moreover have "held w1 = all_buffers n \<and> length (dev_buf_mem dev0) = n \<and> dev_width dev0 = width \<and> dev_height dev0 = height"
    using open_holds_all [OF _ _ opened assms(5)] assms(2,3) same by simp
  ultimately show ?thesis using same w2 assms(6,7) img by (simp add: webcam_inv_def)
qed


interpretation loop: step_invariant "webcam_step cam sdl sys_poll display"
    "\<lambda>st. exchanges cam fd n held \<and> elsewhere os sdl sys_poll held \<and> n \<le> unat (k :: u32) \<and>
       webcam_inv cam display n held fd st" "\<lambda>_. True"
  by unfold_locales (auto intro: webcam_step_keeps)

text \<open>
  C13: no buffer of the camera is lost or used by both sides. After the start of the program and in every state that its
  loop reaches, between two calls, each of the buffers is enqueued with the driver exactly once; so the camera
  never runs out of buffers. In each such state the callback returns without an exception, whether a frame is
  there or not. (The driver hands out only enqueued buffers, which are mapped as far as a frame; the dimensions are even.)
\<close>

theorem webcam_buffers_return:
  assumes "webcam_start cam os sdl img_alloc path width height w0 = (Inr (display, p, dev, img), w)"
    and "exchanges cam (fd_num (dev_fd dev)) n held" and "allocates cam (fd_num (dev_fd dev)) n held"
    and "elsewhere os sdl sys_poll held"
    and "camera_fits cam dev" and "image_room width height (raw_image_alloc img_alloc width height)"
    and "run (webcam_step cam sdl sys_poll display) evs (p, dev, img, w) (p', dev', img', w')"
  shows "held w' = mset (map word_of_nat [0..<n]) \<and> length (dev_buf_mem dev') = n \<and>
    (\<exists>dev2 img2 w2. webcam_callback cam sdl display u (p', dev', img', w') = Some (Inr (), p', dev2, img2, w2))"
proof -
  obtain r req' v where "v4l2_reqbufs cam (fd_num (dev_fd dev)) \<lparr>req_count = 0, req_type = 0, req_memory = 0\<rparr> w =
      ((r, req'), v)"
    by (metis prod.collapse)
  then have n: "n \<le> unat (req_count req')" using assms(3) unfolding allocates_def by (metis order_refl)
  let ?fd = "fd_num (dev_fd dev)"
  have "webcam_inv cam display n held ?fd (p, dev, img, w)" by (rule start_inv [OF assms(1-4) n assms(5,6)])
  then have inv: "webcam_inv cam display n held ?fd (p', dev', img', w')"
    using loop.run_preserves [OF assms(7), of ?fd n held os "req_count req'"] assms(2,4) n by simp
  obtain st' where "webcam_callback cam sdl display u (p', dev', img', w') = Some (Inr (), st')"
    by (rule callback_returns [OF assms(2,4) n inv])
  moreover from this have "fst st' = p'"
    by (auto simp: webcam_callback_def split: prod.splits sum.splits bool.splits)
  ultimately show ?thesis using inv by (cases st') (auto simp: webcam_inv_def all_buffers_def)
qed

section \<open>Witness\<close>

text \<open>
  A driver with four buffers, whose world is the queue of the enqueued ones, that always has a frame; a display that
  always works; and a poll that reports the camera as readable.
\<close>

definition demo_camera :: "u32 list v4l2" where
  "demo_camera = \<lparr>v4l2_querycap = (\<lambda>_ w. ((0, V4L2_CAP_VIDEO_CAPTURE OR V4L2_CAP_STREAMING), w)),
     v4l2_s_fmt = (\<lambda>_ fmt w. ((0, fmt), w)),
     v4l2_reqbufs = (\<lambda>_ req w. ((0, req\<lparr>req_count := 4\<rparr>), [])),
     v4l2_querybuf = (\<lambda>_ b w. ((0, b\<lparr>buf_length := 8, buf_offset := 8 * buf_index b\<rparr>), w)),
     v4l2_qbuf = (\<lambda>_ b w. ((0, b), w @ [buf_index b])),
     v4l2_dqbuf = (\<lambda>_ b w. case w of [] \<Rightarrow> ((- 1, b), []) | i # rest \<Rightarrow> ((0, b\<lparr>buf_index := i\<rparr>), rest)),
     v4l2_streamon = (\<lambda>_ _ w. (0, w)), v4l2_streamoff = (\<lambda>_ _ w. (0, w)),
     mm_map = (\<lambda>len fd offset w. (Some (4096 + ucast offset), w)), mm_unmap = (\<lambda>_ _ w. (0, w)),
     mm_read = (\<lambda>addr n w. Some (replicate n 7))\<rparr>"

definition demo_sdl :: "'w sdl" where
  "demo_sdl = \<lparr>sdl_init = (\<lambda>w. (True, w)), sdl_create_window = (\<lambda>_ _ w. (True, w)),
     sdl_create_renderer = (\<lambda>w. (True, w)), sdl_create_texture = (\<lambda>_ _ w. (True, w)), sdl_draw = (\<lambda>_ w. w),
     sdl_poll_event = (\<lambda>w. (None, w)), sdl_destroy_texture = (\<lambda>w. w), sdl_destroy_renderer = (\<lambda>w. w),
     sdl_destroy_window = (\<lambda>w. w), sdl_quit = (\<lambda>w. w)\<rparr>"

definition demo_alloc :: "u32 \<Rightarrow> u32 \<Rightarrow> vpx_image" where
  "demo_alloc w h = \<lparr>vpx_fmt = VPX_IMG_FMT_I420, vpx_d_w = w, vpx_d_h = h, vpx_plane_y = [0, 0, 0, 0],
     vpx_plane_u = [0], vpx_plane_v = [0]\<rparr>"

definition readable :: "'w sys_poll" where
  "readable fds timeout_ms w = ((1, map (\<lambda>_. 1) fds), w)"

definition demo_buffer :: "u32 \<Rightarrow> v4l2_buffer" where
  "demo_buffer i = (buffer_at i)\<lparr>buf_length := 8, buf_offset := 8 * i\<rparr>"

definition demo_device :: video_device where
  "demo_device = \<lparr>dev_fd = \<lparr>fd_num = 3, fd_eof = False\<rparr>, dev_width = 2, dev_height = 2,
     dev_buf_info = demo_buffer 3, dev_buf_mem = map (\<lambda>i. \<lparr>mm_addr = 4096 + 8 * i, mm_length = 8\<rparr>) [0, 1, 2, 3]\<rparr>"

definition demo_image :: raw_image where
  "demo_image = raw_image_alloc demo_alloc 2 2"

definition demo_display :: video_display where
  "demo_display = \<lparr>disp_width = 2, disp_height = 2\<rparr>"

definition demo_poller :: "unit poller" where
  "demo_poller = snd (poller_register 3 In () empty_poller)"

lemma webcam_demo_starts:
  "webcam_start demo_camera idle_os demo_sdl demo_alloc default_video_device 2 2 [] =
     (Inr (demo_display, demo_poller, demo_device, demo_image), [0, 1, 2, 3])"
proof -
  have opened: "video_device_open demo_camera idle_os default_video_device 2 2 [] = (Inr demo_device, [0, 1, 2, 3])"
    by (simp add: video_device_open_def open_file_def fd_open_def idle_os_def check_syscall_int demo_camera_def
        device_setup_def bind_action_def query_capability_def set_format_def request_buffers_def add_buffer_def
        buffer_ioctl_def map_buffer_def mmap_open_def stream_on_def buffer_at_def return_action_def
        V4L2_CAP_VIDEO_CAPTURE_def V4L2_CAP_STREAMING_def V4L2_PIX_FMT_YUYV_def upt_rec demo_device_def demo_buffer_def)
  have "device_set_blocking idle_os False (demo_device, w) = (Inr (), demo_device, w)" for w :: "u32 list"
    by (simp add: device_set_blocking_def fd_set_blocking_def idle_os_def check_syscall_int)
  then show ?thesis
    by (simp add: webcam_start_def bind_action_def opened display_init_def sdl_require_def demo_sdl_def
        return_action_def poller_register_def empty_poller_def demo_display_def demo_poller_def demo_image_def)
      (simp add: demo_device_def)
qed

text \<open>The first frame, all of whose bytes are 7.\<close>

definition demo_frame :: raw_image where
  "demo_frame = demo_image\<lparr>raw_vpx_img := (raw_vpx_img demo_image)
     \<lparr>vpx_plane_y := [7, 7, 7, 7], vpx_plane_u := [7], vpx_plane_v := [7]\<rparr>\<rparr>"

lemma demo_yuyv: "copy_from_yuyv (replicate 8 7) demo_image = (Inr (), demo_frame)"
  using copy_from_yuyv_result [where n = 4 and src = "replicate 8 7" and img = demo_image]
  by (simp add: demo_frame_def demo_image_def raw_image_alloc_def demo_alloc_def blit_def chroma_rows_def upt_rec)

lemma demo_callback:
  "webcam_callback demo_camera demo_sdl demo_display u (demo_poller, demo_device, demo_image, [0, 1, 2, 3]) =
     Some (Inr (), demo_poller, demo_device\<lparr>dev_buf_info := buffer_at 0\<rparr>, demo_frame, [1, 2, 3, 0])"
proof -
  have dims: "raw_display_width demo_image = 2" "raw_display_height demo_image = 2" "raw_display_width demo_frame = 2"
    "raw_display_height demo_frame = 2"
    by (simp_all add: demo_frame_def demo_image_def raw_image_alloc_def)
  have "frame_source demo_camera demo_device m [1, 2, 3] = Inr (replicate 8 7)" for m
    by (simp add: frame_source_def demo_device_def demo_camera_def)
  moreover have "v4l2_dqbuf demo_camera fd (buffer_at 0) [0, 1, 2, 3] = ((0, buffer_at 0), [1, 2, 3])"
    "v4l2_qbuf demo_camera fd (buffer_at 0) [1, 2, 3] = ((0, buffer_at 0), [1, 2, 3, 0])" for fd
    by (simp_all add: demo_camera_def buffer_at_def)
  moreover have "dev_width demo_device = 2" "dev_height demo_device = 2" "length (dev_buf_mem demo_device) = 4"
    "unat (buf_index (buffer_at 0)) = 0"
    by (simp_all add: demo_device_def buffer_at_def)
  ultimately have "device_read_frame demo_camera (demo_device, demo_image, [0, 1, 2, 3]) =
      (Inr True, demo_device\<lparr>dev_buf_info := buffer_at 0\<rparr>, demo_frame, [1, 2, 3, 0])"
    using dims demo_yuyv by (simp add: device_read_frame_def buffer_ioctl_def check_syscall_int Let_def)
  then show ?thesis using dims by (simp add: webcam_callback_def show_frame_def demo_display_def demo_sdl_def)
qed

lemma demo_round:
  "webcam_round demo_camera demo_sdl readable demo_display [3] (\<lambda>_. [In, Out])
     (demo_poller, demo_device, demo_image, [0, 1, 2, 3]) =
   Some (Inr True, demo_poller, demo_device\<lparr>dev_buf_info := buffer_at 0\<rparr>, demo_frame, [1, 2, 3, 0])"
proof -
  have quit: "signal_quit demo_sdl w = Some (False, w)" for w by (subst signal_quit.simps) (simp add: demo_sdl_def)
  have leaving: "poller_do_deregister demo_poller = demo_poller"
    by (simp add: demo_poller_def poller_register_def empty_poller_def poller_do_deregister_def fun_eq_iff)
  have fds: "fds_to_poll [3] demo_poller = [(3, 1)]"
    by (simp add: fds_to_poll_def demo_poller_def poller_register_def empty_poller_def flag_value_def)
  have roster: "pl_roster demo_poller 3 = Some [In \<mapsto> ()]"
    by (simp add: demo_poller_def poller_register_def empty_poller_def)
  show ?thesis
    by (simp add: webcam_round_def quit webcam_poll_def poller_poll_def leaving fds readable_def check_syscall_int
        polled_def roster has_flag_def flag_value_def bind_process_def total_def return_action_def demo_callback same_keys_def)
qed

theorem webcam_buffers_return_witness:
  "\<exists>display p dev img dev' img' w'.
     webcam_start demo_camera idle_os demo_sdl demo_alloc default_video_device 2 2 [] =
       (Inr (display, p, dev, img), [0, 1, 2, 3]) \<and>
     run (webcam_step demo_camera demo_sdl readable display) [True] (p, dev, img, [0, 1, 2, 3]) (p, dev', img', w') \<and>
     vpx_plane_y (raw_vpx_img img') = [7, 7, 7, 7] \<and> mset w' = {#0, 1, 2, 3#}"
proof -
  have exchanges: "exchanges demo_camera (fd_num (dev_fd demo_device)) 4 mset"
    unfolding exchanges_def
  proof (intro conjI allI impI)
    fix b and w :: "u32 list"
    show "\<exists>r b' w'. v4l2_dqbuf demo_camera (fd_num (dev_fd demo_device)) b w = ((r, b'), w') \<and>
        (r < 0 \<and> mset w' = mset w \<or> 0 \<le> r \<and> buf_index b' \<in># mset w \<and> mset w' = mset w - {#buf_index b'#})"
      by (cases w) (simp_all add: demo_camera_def)
  qed (simp add: demo_camera_def)
  have allocates: "allocates demo_camera (fd_num (dev_fd demo_device)) 4 mset"
    by (auto simp: allocates_def demo_camera_def)
  have elsewhere: "elsewhere idle_os demo_sdl readable (mset :: u32 list \<Rightarrow> u32 multiset)"
    by (simp add: elsewhere_def idle_os_def demo_sdl_def readable_def)
  have fits: "camera_fits demo_camera demo_device"
    by (simp add: camera_fits_def frame_len_def demo_device_def demo_camera_def)
  have room: "image_room 2 2 (raw_image_alloc demo_alloc 2 2)"
    by (simp add: image_room_def raw_image_alloc_def demo_alloc_def)
  have ran: "run (webcam_step demo_camera demo_sdl readable demo_display) [True]
      (demo_poller, demo_device, demo_image, [0, 1, 2, 3])
      (demo_poller, demo_device\<lparr>dev_buf_info := buffer_at 0\<rparr>, demo_frame, [1, 2, 3, 0])"
    using webcam_step.Round [OF demo_round] by (auto simp: run_Cons_iff)
  have "mset [1, 2, 3, 0 :: u32] = mset (map word_of_nat [0..<4])"
    using webcam_buffers_return [OF webcam_demo_starts exchanges allocates elsewhere fits room ran] by (rule conjunct1)
  then have "mset [1, 2, 3, 0 :: u32] = {#0, 1, 2, 3#}" by (simp add: upt_rec)
  moreover have "vpx_plane_y (raw_vpx_img demo_frame) = [7, 7, 7, 7]" by (simp add: demo_frame_def)
  ultimately show ?thesis using webcam_demo_starts ran by blast
qed

end
