(* ===== verification/Tcp_Sockets.thy ===== *)
theory Tcp_Sockets
  imports Sockets
begin

text \<open>
  The model of \<open>src/util/tcp_socket.hh\<close> and \<open>tcp_socket.cc\<close>: listening and connected TCP sockets, which send and
  receive with the operations of the file descriptor.
\<close>

section \<open>Operations\<close>

definition tcp_open :: "'w net \<Rightarrow> 'w os \<Rightarrow> 'w \<Rightarrow> file_descriptor result \<times> 'w" where
  "tcp_open net os = socket_open net os ''AF_INET'' ''SOCK_STREAM''"

definition tcp_listen :: "'w net \<Rightarrow> file_descriptor \<Rightarrow> int \<Rightarrow> ('w, unit) action" where
  "tcp_listen net f backlog w =
     (let (r, w') = net_listen net (fd_num f) backlog w in (bind_result (check_syscall r) (\<lambda>_. Inr ()), w'))"

definition default_backlog :: int where
  "default_backlog = 16"

text \<open>
  The internal constructor of \<open>accept\<close> makes a \<open>FileDescriptor\<close> of the number, which is adopted as a socket after its
  domain and type were verified.
\<close>

definition tcp_from_fd :: "'w net \<Rightarrow> 'w os \<Rightarrow> file_descriptor \<Rightarrow> ('w, file_descriptor) action" where
  "tcp_from_fd net os fd = socket_adopt net os fd ''AF_INET'' ''SOCK_STREAM''"

definition tcp_accept :: "'w net \<Rightarrow> 'w os \<Rightarrow> file_descriptor \<Rightarrow> ('w, file_descriptor) action" where
  "tcp_accept net os f w =
     (let (r, w1) = net_accept net (fd_num f) w
      in case check_syscall r of
           Inl e \<Rightarrow> (Inl e, w1)
         | Inr n \<Rightarrow>
             (case fd_open os n w1 of
                (Inl e, w2) \<Rightarrow> (Inl e, w2)
              | (Inr fd, w2) \<Rightarrow> tcp_from_fd net os fd w2))"

definition tcp_send :: "'w os \<Rightarrow> bytes \<Rightarrow> ('w, nat) fd_action" where
  "tcp_send os data = fd_write os data"

definition tcp_recv :: "'w os \<Rightarrow> nat \<Rightarrow> ('w, bytes) fd_action" where
  "tcp_recv os limit = fd_read os limit"

definition tcp_sendn :: "'w os \<Rightarrow> bytes \<Rightarrow> nat \<Rightarrow> ('w, unit) fd_action" where
  "tcp_sendn os data n = fd_writen os data n"

definition tcp_send_all :: "'w os \<Rightarrow> bytes \<Rightarrow> ('w, unit) fd_action" where
  "tcp_send_all os data = fd_write_all os data"

text \<open>Unlike \<open>readn\<close>, \<open>recvn\<close> allows a partial read by default.\<close>

definition tcp_recvn :: "'w os \<Rightarrow> nat \<Rightarrow> ('w, bytes) fd_action" where
  "tcp_recvn os n = fd_readn os n True"

section \<open>No leak\<close>

text \<open>
  An accepted connection is either returned or closed, once the constructor of its descriptor has succeeded, which it
  does unless \<open>FD_CLOEXEC\<close> cannot be set.
\<close>

lemma tcp_accept_no_leak:
  assumes "\<And>w. opened (snd (net_accept net (fd_num f) w)) =
      (let n = fst (net_accept net (fd_num f) w) in if n < 0 then opened w else insert n (opened w))"
    and "\<And>w. - (2 ^ 31) \<le> fst (net_accept net (fd_num f) w) \<and> fst (net_accept net (fd_num f) w) < 2 ^ 31"
    and "\<And>fd w. fst (sys_fcntl_setfd os fd FD_CLOEXEC w) = 0 \<and> opened (snd (sys_fcntl_setfd os fd FD_CLOEXEC w)) = opened w"
    and "\<And>fd opt w. opened (snd (net_getsockopt net fd opt w)) = opened w"
    and "\<And>fd w. opened (snd (sys_close os fd w)) = opened w - {fd}"
    and "tcp_accept net os f w = (r, w')" and "fst (net_accept net (fd_num f) w) \<notin> opened w"
  shows "opened w' = (case r of Inr g \<Rightarrow> insert (fd_num g) (opened w) | Inl e \<Rightarrow> opened w)"
proof -
  obtain n w1 where acc: "net_accept net (fd_num f) w = (n, w1)" by fastforce
  note n = assms(1,2) [of w, unfolded acc fst_conv snd_conv Let_def] assms(7) [unfolded acc fst_conv]
  show ?thesis
  proof (cases "n < 0")
    case True
    then have "tcp_accept net os f w = (Inl (Unix_Error ''''), w1)"
      using n(2) acc by (simp add: tcp_accept_def check_syscall_int)
    then have "r = Inl (Unix_Error '''')" "w' = w1" using assms(6) by simp_all
    then show ?thesis using n(1) True by simp
  next
    case False
    obtain z w2 where "sys_fcntl_setfd os n FD_CLOEXEC w1 = (z, w2)" by fastforce
    with assms(3) [of n w1] n(1) False
    have w2: "sys_fcntl_setfd os n FD_CLOEXEC w1 = (0, w2)" "opened w2 = insert n (opened w)" by simp_all
    let ?fd = "\<lparr>fd_num = n, fd_eof = False\<rparr>"
    let ?check = "bind_action (check_sockopt net ?fd ''SO_DOMAIN'' ''AF_INET'' ''socket domain mismatch'') (\<lambda>_.
        check_sockopt net ?fd ''SO_TYPE'' ''SOCK_STREAM'' ''socket type mismatch'')"
    have same: "opened (snd (check_sockopt net ?fd opt expected msg v)) = opened v" for opt expected msg v
      using assms(4) [of n opt v] by (simp add: check_sockopt_def socket_getsockopt_def bind_action_def throw_action_def return_action_def
          case_prod_unfold Let_def split: sum.split)
    obtain q w3 where check: "?check w2 = (q, w3)" by fastforce
    have "keeps (\<lambda>v. opened v = opened w2) (total ?check)"
      by (intro keeps_bind_action keeps_total) (simp_all add: same)
    from keepsD [OF this, of w2 q w3] check have "opened w3 = opened w2" by (simp add: total_def)
    moreover
    have "tcp_accept net os f w =
        (case q of Inl e \<Rightarrow> (Inl e, snd (sys_close os n w3)) | Inr _ \<Rightarrow> (Inr ?fd, w3))"
      using acc n(2) False w2(1) check
      by (simp add: tcp_accept_def check_syscall_int fd_open_def tcp_from_fd_def socket_adopt_def fd_move_def
          fd_destroy_def split: sum.split)
    ultimately show ?thesis using assms(5,6) w2(2) n(3) by (cases q) auto
  qed
qed

end
