(* ===== verification/Spec2Isabelle.thy ===== *)
theory Spec2Isabelle
  imports End_To_End Statistics Epoller_Errors Webcam Tcp_Sockets
begin

text \<open>
  A model of Ringmaster, a video conferencing benchmark: \<open>video_sender\<close> reads a raw video, compresses it
  with libvpx and sends the frames as UDP datagrams; \<open>video_receiver\<close> acknowledges the datagrams,
  reassembles the frames and hands them to a worker thread that decodes and displays them.

  \<^bold>\<open>The parts and how they interact.\<close> The sender (\<open>app/video_sender.cc\<close>, theory \<open>Video_Sender\<close>) waits for the
  configuration message of a receiver, then runs an event loop: when the frame timer fires it reads frames
  from a YUV4MPEG file (\<open>video/yuv4mpeg.cc\<close>, \<open>Yuv4mpeg\<close>) into a raw image (\<open>video/image.cc\<close>, \<open>Image\<close>) and
  gives it to the encoder (\<open>app/encoder.cc\<close>, \<open>Encoder\<close> and \<open>Retransmission\<close>), which cuts the compressed frame
  into datagrams (\<open>app/protocol.cc\<close>, \<open>Protocol\<close>) and queues them; when the socket is writable the queue is
  sent and becomes the map of unacknowledged datagrams; when it is readable acknowledgements feed the RTT
  estimators, remove datagrams from the map and queue retransmissions. The loop is \<open>util/poller.cc\<close>
  (\<open>Poller\<close>); \<open>util/epoller.cc\<close> (\<open>Epoller\<close>) offers the same operations over epoll. The receiver
  (\<open>app/video_receiver.cc\<close>, \<open>Video_Receiver\<close>) reassembles frames (\<open>Frame\<close>) in the decoder of its main thread
  (\<open>app/decoder.cc\<close>, \<open>Decoder\<close>), which passes complete frames in order to the worker thread (\<open>Worker\<close>);
  \<open>Receiver_Threads\<close> is the interleaving of the two. \<open>Session\<close> puts both \<open>main\<close> functions together from the command
  line to the loop, \<open>Delivery\<close> the encoder and the receiver over a lossy network, and \<open>End_To_End\<close> all of it, from the
  command lines of both programs to what the worker passes to libvpx. A third program,
  \<open>video/webcam.cc\<close> (\<open>Webcam\<close>), shows the frames of a V4L2 camera (\<open>video/v4l2.cc\<close>, \<open>util/mmap.cc\<close>, \<open>Camera\<close>) in the
  window that the worker uses too (\<open>video/sdl.cc\<close>, \<open>Display\<close>).

  \<^bold>\<open>Theories.\<close>
  \<^item> \<open>Prelude\<close>: the machine types, results (\<open>error + 'a\<close>), actions that return a result and a new state, and
    processes, which may also not return; lemmas on lists, words and these three that all theories share.
    \<open>Exceptions\<close>: \<open>util/exception.hh\<close>; every exception is a constructor of \<open>error\<close>, as are failing
    assertions and undefined behaviour.
  \<^item> \<open>Serialization\<close> (\<open>util/serialization.*\<close>, with the host's byte order as a parameter), \<open>Conversion\<close>
    (\<open>util/conversion.*\<close>), \<open>Split\<close> (\<open>util/split.*\<close>), \<open>Floating\<close> (the IEEE arithmetic of the RTT estimators),
    \<open>Decimal\<close> (\<open>double_to_string\<close>), \<open>Statistics\<close> (the text of the reports that the programs print every second),
    \<open>Ordered_Map\<close> (\<open>std::map\<close> as a sorted association list).
  \<^item> \<open>File_Descriptor\<close>, \<open>Sockets\<close>, \<open>Tcp_Sockets\<close>, \<open>Timers\<close>: \<open>util/file_descriptor.*\<close>, \<open>util/address.*\<close>,
    \<open>util/socket.*\<close>, \<open>util/udp_socket.*\<close>, \<open>util/tcp_socket.*\<close>, \<open>util/timerfd.*\<close> and \<open>util/timestamp.*\<close>, over system
    calls that are parameters acting on an arbitrary world \<open>'w\<close>.
  \<^item> \<open>Event_Registry\<close>: the interface that the two pollers implement, a locale over an abstract registry;
    \<open>Dispatch\<close>: the loop over the reported events that they share; \<open>Poller\<close> and \<open>Epoller\<close> interpret the
    locale on the two classes. \<open>Epoller_Errors\<close>: what becomes of an \<open>Epoller\<close> once a removal failed.
  \<^item> \<open>Protocol\<close>, \<open>Image\<close>, \<open>Encoder\<close>, \<open>Retransmission\<close>, \<open>Yuv4mpeg\<close>, \<open>Video_Sender\<close>: the sender.
  \<^item> \<open>Frame\<close>, \<open>Decoder\<close>, \<open>Worker\<close>, \<open>Video_Receiver\<close>, \<open>Receiver_Threads\<close>: the receiver.
    \<open>Transition_System\<close>: runs of labelled steps and the rule of invariants, interpreted for the event loop of
    the sender, for the two threads of the receiver and for the loop of the camera program.
  \<^item> \<open>Delivery\<close>: what reaches the worker of the frames that an encoder packetised. \<open>Session\<close>: \<open>sender_start\<close> and
    \<open>receiver_start\<close> are the \<open>main\<close> functions up to their loops; what holds from there on, the handshake, the bytes
    that go out and the acknowledgements that come back.
  \<^item> \<open>End_To_End\<close>: the sender's codec is given a journal, a ghost part of its context that lists what
    \<open>vpx_codec_encode\<close> returned; an invariant of the sender's loop, proved through the rule that every property of the
    loop shares (\<open>sender_kept\<close>), relates the journal to what is queued, unacknowledged and sent, and \<open>Delivery\<close> carries it
    to the receiver and \<open>worker_round\<close> of \<open>Worker\<close> to the decoder.
  \<^item> \<open>Display\<close>, \<open>Camera\<close>, \<open>Webcam\<close>: the window, the camera with its buffers, the camera program.

  Records have the members of the classes, each operation is one definition with the guards, early returns and
  exceptions of the code, and names follow the code. A change made before an exception stays, as in C++.

  \<^bold>\<open>What is shown.\<close> The wire format round trips (\<open>Serialization\<close>, \<open>Protocol\<close>); packetisation, its bounds and
  its errors (\<open>Encoder\<close>); the effect of acknowledgements, retransmission and recovery (\<open>Retransmission\<close>);
  reassembly from datagrams in any order and number (\<open>Frame\<close>); the order in which frames are consumed, and the
  end of the receiver's loops (\<open>Decoder\<close>, \<open>Video_Receiver\<close>); that no interleaving reorders or repeats frames
  or decodes one without its predecessor unless it is a key frame (\<open>Receiver_Threads\<close>); that every poll runs exactly the ready callbacks (\<open>Poller\<close>), that the epoll version
  refines it (\<open>Epoller\<close>), and that the sender's loop never forgets queued datagrams (\<open>Video_Sender\<close>); that the
  frames that leave the receiver are, byte for byte, frames that the encoder produced, whatever the network loses,
  repeats or reorders (\<open>Delivery\<close>); that both programs agree on the configuration, that the parts of the sender fit
  together from its start on, which bytes it sends, and that acknowledgements clear exactly what they acknowledge
  (\<open>Session\<close>); that what the receiver decodes is a subsequence of what the sender's codec produced, its gaps only before
  key frames (\<open>End_To_End\<close>); that no buffer of the camera is lost (\<open>Webcam\<close>); and the behaviour of the utilities on every branch.

  \<^bold>\<open>Bounds and termination.\<close> No fuel is used. Loops over data are structural recursion or have a measure;
  loops over system calls (\<open>getline\<close>, the loops over messages) and the receiver's loop over decodable frames may
  not return, are partial functions with result \<open>None\<close> then, and are proved to return under the stated
  behaviour of the kernel. Machine integers are words of their width, or integers with the overflow written
  out.

  \<^bold>\<open>Parameters.\<close> The kernel, the resolver, libvpx and SDL are arguments, and so are the clock readings and the order
  in which unordered containers are traversed. Hypotheses about them state their documented behaviour, and every
  property that has one is applied to a concrete instance in its witness.

  \<^bold>\<open>Not modelled.\<close> Usage texts and the log lines of the verbose mode, and that the text of the statistics is written to
  \<open>cerr\<close>; infinities, NaN, subnormal doubles and the sign of a zero; the destruction of the codec after the endless loop of the worker,
  which is not reached; the handles of SDL objects and the row strides of images, which are only passed on; the
  unwinding after an exception that leaves \<open>main\<close>, which ends the process.
\<close>

end
